(* ===== verification/CFloat.thy ===== *)
theory CFloat
  imports Complex_Main
begin

text \<open>
  The C type \<open>float\<close> of the scheduler's times: IEEE binary32 with round to nearest, ties to even.
  A float is the rational number it stands for; every operation of the code is the exact operation
  followed by \<open>rnd32\<close>, which computes the nearest number with a 24-bit significand and an exponent
  of at least -149. Infinities and NaN are not represented: the scheduler adds and scales times in
  milliseconds, far below \<open>FLT_MAX\<close>.
\<close>

type_synonym cfloat = rat

definition FLT_MAX :: cfloat where
  "FLT_MAX = (2 ^ 24 - 1) * 2 ^ 104"

fun ilog2 :: "nat \<Rightarrow> nat" where
  "ilog2 n = (if n < 2 then 0 else Suc (ilog2 (n div 2)))"

declare ilog2.simps [simp del]

text \<open>The exponent of the leading bit of a positive number.\<close>

definition floor_log2 :: "rat \<Rightarrow> int" where
  "floor_log2 x = (let (p, q) = quotient_of x in
     if q \<le> p then int (ilog2 (nat (p div q)))
     else - int (Suc (ilog2 (nat ((q - 1) div p)))))"

definition float_exp :: "rat \<Rightarrow> int" where
  "float_exp x = max (floor_log2 \<bar>x\<bar> - 23) (- 149)"

definition round_even :: "rat \<Rightarrow> int" where
  "round_even y = (let f = \<lfloor>y\<rfloor>; d = y - of_int f in
     if d < 1 / 2 then f else if d > 1 / 2 then f + 1 else if even f then f else f + 1)"

definition rnd32 :: "rat \<Rightarrow> cfloat" where
  "rnd32 x = (if x = 0 then 0
     else let u = 2 powi float_exp x in of_int (round_even (x / u)) * u)"

section \<open>The exponent\<close>

lemma ilog2_bounds: "0 < n \<Longrightarrow> 2 ^ ilog2 n \<le> n \<and> n < 2 ^ Suc (ilog2 n)"
proof (induction n rule: ilog2.induct)
  case (1 n)
  show ?case
  proof (cases "n < 2")
    case True
    with "1.prems" show ?thesis by (simp add: ilog2.simps [of n])
  next
    case False
    then have "2 ^ ilog2 (n div 2) \<le> n div 2" "n div 2 < 2 ^ Suc (ilog2 (n div 2))"
      using "1.IH" by simp_all
    then have "2 * 2 ^ ilog2 (n div 2) \<le> n" "n < 2 * 2 ^ Suc (ilog2 (n div 2))"
      by linarith+
    with False show ?thesis
      by (simp add: ilog2.simps [of n])
  qed
qed

lemma ilog2_int_bounds:
  assumes "0 < k"
  shows "2 ^ ilog2 (nat k) \<le> k" "k < 2 ^ Suc (ilog2 (nat k))"
proof -
  have "2 ^ ilog2 (nat k) \<le> nat k \<and> nat k < 2 ^ Suc (ilog2 (nat k))"
    using assms by (intro ilog2_bounds) simp
  then have "int (2 ^ ilog2 (nat k)) \<le> int (nat k)" "int (nat k) < int (2 ^ Suc (ilog2 (nat k)))"
    by (simp_all only: of_nat_le_iff of_nat_less_iff)
  with assms show "2 ^ ilog2 (nat k) \<le> k" "k < 2 ^ Suc (ilog2 (nat k))"
    by simp_all
qed

lemma div_mult_bounds:
  fixes a b :: int
  assumes "0 < b"
  shows "a div b * b \<le> a" "a < (a div b + 1) * b"
  using pos_mod_sign [OF assms, of a] pos_mod_bound [OF assms, of a] div_mult_mod_eq [of a b]
  unfolding distrib_right by linarith+

lemma powi_less_imp: "(2::rat) powi m < 2 powi n \<Longrightarrow> m < n"
  using power_int_increasing [of n m "2::rat"] by linarith

lemma floor_log2_bounds:
  assumes "0 < x"
  shows "2 powi floor_log2 x \<le> x" "x < 2 powi (floor_log2 x + 1)"
proof -
  obtain p q where pq: "quotient_of x = (p, q)" by fastforce
  have q: "0 < q" by (rule quotient_of_denom_pos [OF pq])
  have x: "x = of_int p / of_int q" by (rule quotient_of_div [OF pq])
  have p: "0 < p" using assms q by (simp add: x zero_less_divide_iff)
  have "2 powi floor_log2 x \<le> x \<and> x < 2 powi (floor_log2 x + 1)"
  proof (cases "q \<le> p")
    case True
    define k where "k = p div q"
    have k: "0 < k" using True q by (simp add: k_def pos_imp_zdiv_pos_iff)
    have le: "k * q \<le> p" and lt: "p < (k + 1) * q"
      unfolding k_def by (rule div_mult_bounds [OF q])+
    have e: "floor_log2 x = int (ilog2 (nat k))"
      using True by (simp add: floor_log2_def pq k_def)
    have "2 ^ ilog2 (nat k) * q \<le> p"
      using mult_right_mono [OF ilog2_int_bounds(1) [OF k], of q] q le by linarith
    moreover have "p < 2 ^ Suc (ilog2 (nat k)) * q"
      using mult_right_mono [of "k + 1" "2 ^ Suc (ilog2 (nat k))" q]
        ilog2_int_bounds(2) [OF k] q lt by linarith
    ultimately have "(of_int (2 ^ ilog2 (nat k) * q) :: rat) \<le> of_int p"
      "(of_int p :: rat) < of_int (2 ^ Suc (ilog2 (nat k)) * q)"
      by (simp_all only: of_int_le_iff of_int_less_iff)
    with q show ?thesis
      unfolding e by (simp add: x power_int_add field_simps)
  next
    case False
    define m where "m = (q - 1) div p"
    have m: "0 < m" using False p by (simp add: m_def pos_imp_zdiv_pos_iff)
    have le: "m * p \<le> q - 1" and lt: "q - 1 < (m + 1) * p"
      unfolding m_def by (rule div_mult_bounds [OF p])+
    have e: "floor_log2 x = - int (Suc (ilog2 (nat m)))"
      using False by (simp add: floor_log2_def pq m_def)
    have "2 ^ ilog2 (nat m) * p < q"
      using mult_right_mono [OF ilog2_int_bounds(1) [OF m], of p] p le by linarith
    moreover have "q \<le> 2 ^ Suc (ilog2 (nat m)) * p"
      using mult_right_mono [of "m + 1" "2 ^ Suc (ilog2 (nat m))" p]
        ilog2_int_bounds(2) [OF m] p lt by linarith
    ultimately have "(of_int (2 ^ ilog2 (nat m) * p) :: rat) < of_int q"
      "(of_int q :: rat) \<le> of_int (2 ^ Suc (ilog2 (nat m)) * p)"
      by (simp_all only: of_int_le_iff of_int_less_iff)
    with q p show ?thesis
      unfolding e by (simp add: x power_int_minus power_int_diff field_simps)
  qed
  then show "2 powi floor_log2 x \<le> x" "x < 2 powi (floor_log2 x + 1)" by simp_all
qed

lemma floor_log2_mono:
  assumes "0 < x" "x \<le> y"
  shows "floor_log2 x \<le> floor_log2 y"
proof -
  have "(2::rat) powi floor_log2 x < 2 powi (floor_log2 y + 1)"
    using floor_log2_bounds(1) [of x] floor_log2_bounds(2) [of y] assms by linarith
  then show ?thesis using powi_less_imp by fastforce
qed


section \<open>Rounding\<close>

lemma round_even_bounds:
  "of_int (round_even y) - y \<le> 1 / 2" "y - of_int (round_even y) \<le> 1 / 2"
proof -
  have "of_int \<lfloor>y\<rfloor> \<le> y" "y < of_int \<lfloor>y\<rfloor> + 1" by linarith+
  then show "of_int (round_even y) - y \<le> 1 / 2" "y - of_int (round_even y) \<le> 1 / 2"
    unfolding round_even_def Let_def
    by (cases "y - of_int \<lfloor>y\<rfloor> < 1 / 2"; cases "y - of_int \<lfloor>y\<rfloor> > 1 / 2"; cases "even \<lfloor>y\<rfloor>";
        simp; linarith)+
qed

lemma round_even_of_int [simp]: "round_even (of_int n) = n"
  by (simp add: round_even_def)

lemma round_even_mono:
  assumes "y \<le> z"
  shows "round_even y \<le> round_even z"
proof (cases "\<lfloor>y\<rfloor> = \<lfloor>z\<rfloor>")
  case True
  with assms show ?thesis by (auto simp: round_even_def Let_def)
next
  case False
  with assms have "\<lfloor>y\<rfloor> + 1 \<le> \<lfloor>z\<rfloor>"
    using floor_mono [OF assms] by simp
  moreover have "round_even y \<le> \<lfloor>y\<rfloor> + 1" "\<lfloor>z\<rfloor> \<le> round_even z"
    by (simp_all add: round_even_def Let_def)
  ultimately show ?thesis by linarith
qed

lemma round_even_uminus: "round_even (- y) = - round_even y"
proof (cases "y = of_int \<lfloor>y\<rfloor>")
  case True
  then have "- y = of_int (- \<lfloor>y\<rfloor>)" by simp
  with True show ?thesis by (metis round_even_of_int)
next
  case False
  then have "\<lfloor>- y\<rfloor> = - \<lfloor>y\<rfloor> - 1"
    by (simp add: floor_minus ceiling_altdef)
  then show ?thesis
    by (auto simp: round_even_def Let_def)
qed

lemma rnd32_0 [simp]: "rnd32 0 = 0"
  by (simp add: rnd32_def)

lemma rnd32_uminus: "rnd32 (- x) = - rnd32 x"
  by (simp add: rnd32_def float_exp_def Let_def round_even_uminus)

text \<open>Values below and above a multiple of the unit stay there.\<close>

lemma rnd32_le_multiple:
  assumes "x \<noteq> 0" "x \<le> of_int n * 2 powi float_exp x"
  shows "rnd32 x \<le> of_int n * 2 powi float_exp x"
proof -
  have "x / 2 powi float_exp x \<le> of_int n"
    using assms(2) by (simp add: divide_le_eq)
  then have "round_even (x / 2 powi float_exp x) \<le> n"
    by (metis round_even_mono round_even_of_int)
  then show ?thesis
    using assms(1) by (simp add: rnd32_def Let_def mult_right_mono)
qed

lemma rnd32_ge_multiple:
  assumes "x \<noteq> 0" "of_int n * 2 powi float_exp x \<le> x"
  shows "of_int n * 2 powi float_exp x \<le> rnd32 x"
proof -
  have "of_int n \<le> x / 2 powi float_exp x"
    using assms(2) by (simp add: le_divide_eq)
  then have "n \<le> round_even (x / 2 powi float_exp x)"
    by (metis round_even_mono round_even_of_int)
  then show ?thesis
    using assms(1) by (simp add: rnd32_def Let_def mult_right_mono)
qed

lemma rnd32_nonneg: "0 \<le> x \<Longrightarrow> 0 \<le> rnd32 x"
  using rnd32_ge_multiple [of x 0] by (cases "x = 0") simp_all

lemma rnd32_mono_pos:
  assumes "0 < x" "x \<le> y"
  shows "rnd32 x \<le> rnd32 y"
proof (cases "float_exp x = float_exp y")
  case True
  have "round_even (x / 2 powi float_exp y) \<le> round_even (y / 2 powi float_exp y)"
    by (rule round_even_mono) (use assms in \<open>simp add: divide_right_mono\<close>)
  with assms True show ?thesis
    by (simp add: rnd32_def Let_def mult_right_mono)
next
  case False
  let ?e = "float_exp x" and ?E = "floor_log2 y"
  have "?e \<le> float_exp y"
    using floor_log2_mono [OF assms] assms by (simp add: float_exp_def)
  with False have lt: "?e < float_exp y" by simp
  then have ey: "float_exp y = ?E - 23" and le: "?e \<le> ?E"
    using assms by (auto simp: float_exp_def)
  have "floor_log2 x < ?E"
    using lt ey assms by (auto simp: float_exp_def)
  then have "x < 2 powi ?E"
    using floor_log2_bounds(2) [of x] assms power_int_increasing [of "floor_log2 x + 1" ?E "2::rat"]
    by force
  moreover have "(2::rat) powi ?E = of_int (2 ^ nat (?E - ?e)) * 2 powi ?e"
    using le by (simp add: power_int_add [symmetric] flip: power_int_of_nat)
  ultimately have "rnd32 x \<le> 2 powi ?E"
    using rnd32_le_multiple [of x "2 ^ nat (?E - ?e)"] assms by simp
  moreover have "(2::rat) powi ?E = of_int (2 ^ 23) * 2 powi float_exp y"
    by (simp add: ey power_int_diff)
  then have "2 powi ?E \<le> rnd32 y"
    using rnd32_ge_multiple [of y "2 ^ 23"] floor_log2_bounds(1) [of y] assms by simp
  ultimately show ?thesis by simp
qed

text \<open>Rounding is monotone, and exact on the integers of up to 24 bits.\<close>

lemma rnd32_mono:
  assumes "x \<le> y"
  shows "rnd32 x \<le> rnd32 y"
proof -
  consider "0 < x" | "x \<le> 0" "0 \<le> y" | "y < 0" by linarith
  then show ?thesis
  proof cases
    case 1
    then show ?thesis using assms by (rule rnd32_mono_pos)
  next
    case 2
    then show ?thesis
      using rnd32_nonneg [of y] rnd32_nonneg [of "- x"] by (simp add: rnd32_uminus)
  next
    case 3
    then have "rnd32 (- y) \<le> rnd32 (- x)"
      using assms by (intro rnd32_mono_pos) simp_all
    then show ?thesis by (simp add: rnd32_uminus)
  qed
qed

lemma rnd32_of_int:
  assumes "\<bar>n\<bar> < 2 ^ 24"
  shows "rnd32 (of_int n) = of_int n"
proof (cases "n = 0")
  case False
  have pos: "0 < \<bar>of_int n :: rat\<bar>" using False by simp
  have "(of_int \<bar>n\<bar> :: rat) < of_int (2 ^ 24)"
    using assms by (simp only: of_int_less_iff)
  then have "(2::rat) powi floor_log2 \<bar>of_int n\<bar> < 2 powi 24"
    using floor_log2_bounds(1) [OF pos] by simp
  then have "floor_log2 \<bar>of_int n\<bar> < 24" by (rule powi_less_imp)
  then have e: "float_exp (of_int n) \<le> 0" by (simp add: float_exp_def)
  define k where "k = nat (- float_exp (of_int n))"
  have u: "(2::rat) powi float_exp (of_int n) = 1 / 2 ^ k"
  proof -
    have "float_exp (of_int n) = - int k" using e by (simp add: k_def)
    then show ?thesis
      by (simp only: power_int_minus power_int_of_nat inverse_eq_divide)
  qed
  have "(of_int n :: rat) / (1 / 2 ^ k) = of_int (n * 2 ^ k)" by simp
  then have "round_even ((of_int n :: rat) / (1 / 2 ^ k)) = n * 2 ^ k"
    by (simp only: round_even_of_int)
  note r = this
  have "rnd32 (of_int n) =
      of_int (round_even (of_int n / 2 powi float_exp (of_int n))) * 2 powi float_exp (of_int n)"
    using False by (simp only: rnd32_def Let_def of_int_eq_0_iff if_False)
  also have "\<dots> = of_int (n * 2 ^ k) * (1 / 2 ^ k)"
    by (simp only: u r)
  also have "\<dots> = of_int n" by simp
  finally show ?thesis .
qed simp

lemma rnd32_numeral:
  assumes "(numeral k :: int) < 2 ^ 24"
  shows "rnd32 (numeral k) = numeral k"
  using rnd32_of_int [of "numeral k"] assms by simp

end
