(* ===== verification/Prelude.thy ===== *)
theory Prelude
  imports Main "HOL-Library.Word"
begin

text \<open>
  What every component shares: the result type of a C function, pointers, the contents of a
  so-commons list, and the C string and integer conversions of the standard library.

  A C function that is called in some state has one of the results of \<open>outcome\<close>: it returns
  (\<open>Ret\<close>), it parks for ever or until another thread posts (\<open>Hang\<close>), it leaves what the language
  and the libraries define - a dereferenced null pointer, a read outside a block, an index outside
  a list handed to a function whose contract excludes it - (\<open>Fault\<close>), or it ends the process
  (\<open>Exit\<close>). \<open>OutOfFuel\<close> is the result of a loop whose bound on iterations was too small; it is
  not a behaviour of the code, and the termination theorems exclude it.
\<close>

datatype 'a outcome = Ret 'a | Hang | Fault | Exit int | OutOfFuel

fun obind :: "'a outcome \<Rightarrow> ('a \<Rightarrow> 'b outcome) \<Rightarrow> 'b outcome" where
  "obind (Ret x) f = f x"
| "obind Hang f = Hang"
| "obind Fault f = Fault"
| "obind (Exit n) f = Exit n"
| "obind OutOfFuel f = OutOfFuel"

text \<open>A collection that the components extend for their operations.\<close>

named_theorems kept_rules "what an operation that returns leaves as it was"

lemma obind_Ret_iff: "obind m f = Ret y \<longleftrightarrow> (\<exists>x. m = Ret x \<and> f x = Ret y)"
  by (cases m) auto

lemma obind_RetE:
  assumes "obind m f = Ret y"
  obtains x where "m = Ret x" "f x = Ret y"
  using assms by (auto simp: obind_Ret_iff)

lemma obind_assoc: "obind (obind m f) g = obind m (\<lambda>x. obind (f x) g)"
  by (cases m) auto

lemma obind_Ret_right [simp]: "obind m Ret = m"
  by (cases m) auto

subsection \<open>Pointers and heaps\<close>

text \<open>
  A pointer is a number and the null pointer is 0. A heap maps the pointers of live blocks to
  their contents; reading through any other pointer is a fault.
\<close>

type_synonym ptr = nat

abbreviation (input) NULL :: ptr where
  "NULL \<equiv> 0"

definition deref :: "(ptr \<Rightarrow> 'a option) \<Rightarrow> ptr \<Rightarrow> 'a outcome" where
  "deref h p = (case h p of None \<Rightarrow> Fault | Some x \<Rightarrow> Ret x)"

lemma deref_Ret_iff [simp]: "deref h p = Ret x \<longleftrightarrow> h p = Some x"
  by (simp add: deref_def split: option.splits)

lemma deref_Some [simp]: "h p = Some x \<Longrightarrow> deref h p = Ret x"
  by simp

lemma deref_None [simp]: "h p = None \<Longrightarrow> deref h p = Fault"
  by (simp add: deref_def)

subsection \<open>The contents of a so-commons list\<close>

text \<open>
  A \<open>t_list\<close> is represented by its contents: \<open>list_add\<close> appends, \<open>list_size\<close> is the length,
  and \<open>list_get\<close> and \<open>list_remove\<close> are documented for the positions of the list. Outside them
  \<open>list_get\<close> gives the null pointer, which \<open>schedule_long_term\<close> relies on, and \<open>list_remove\<close> has
  no documented meaning, so the model calls it a fault.
\<close>

definition list_get :: "ptr list \<Rightarrow> int \<Rightarrow> ptr" where
  "list_get xs i = (if 0 \<le> i \<and> i < int (length xs) then xs ! nat i else NULL)"

definition list_remove :: "'a list \<Rightarrow> int \<Rightarrow> ('a \<times> 'a list) outcome" where
  "list_remove xs i =
     (if 0 \<le> i \<and> i < int (length xs)
      then Ret (xs ! nat i, take (nat i) xs @ drop (Suc (nat i)) xs) else Fault)"

lemma list_get_0 [simp]: "list_get [] i = NULL" "list_get (x # xs) 0 = x"
  by (simp_all add: list_get_def)

lemma list_remove_0 [simp]: "list_remove [] i = Fault" "list_remove (x # xs) 0 = Ret (x, xs)"
  by (simp_all add: list_remove_def)

lemma list_get_nth: "i < length xs \<Longrightarrow> list_get xs (int i) = xs ! i"
  by (simp add: list_get_def)

lemma list_remove_nth:
  "i < length xs \<Longrightarrow> list_remove xs (int i) = Ret (xs ! i, take i xs @ drop (Suc i) xs)"
  by (simp add: list_remove_def)

lemma take_drop_remove1:
  assumes "distinct xs" "i < length xs"
  shows "take i xs @ drop (Suc i) xs = remove1 (xs ! i) xs"
proof -
  have "xs = take i xs @ xs ! i # drop (Suc i) xs"
    using assms(2) by (simp add: id_take_nth_drop)
  moreover from this have "xs ! i \<notin> set (take i xs)"
    using assms(1) by (metis distinct_append disjoint_iff list.set_intros(1))
  ultimately show ?thesis
    by (metis remove1.simps(2) remove1_append)
qed

lemma set_remove1_distinct: "distinct xs \<Longrightarrow> set (remove1 x xs) = set xs - {x}"
  by (rule set_remove1_eq)

lemma length_remove1_mem: "x \<in> set xs \<Longrightarrow> length (remove1 x xs) = length xs - 1"
  by (simp add: length_remove1)

subsection \<open>Bytes and C strings\<close>

type_synonym byte = "8 word"

text \<open>
  What can be read from a pointer on: the bytes of the block it points into, and then whatever
  readable memory lies behind the block. A copy of more bytes than that is a fault.
\<close>

type_synonym mem = "byte list"

definition mem_read :: "mem \<Rightarrow> nat \<Rightarrow> byte list outcome" where
  "mem_read m n = (if n \<le> length m then Ret (take n m) else Fault)"

definition c_string :: "string \<Rightarrow> byte list" where
  "c_string str = map of_char str @ [0]"

text \<open>The decimal digits of a number, as \<open>printf("%d")\<close> prints them.\<close>

definition digit_char :: "nat \<Rightarrow> char" where
  "digit_char d = char_of (48 + d)"

fun dec_nat :: "nat \<Rightarrow> string" where
  "dec_nat n = (if n < 10 then [digit_char n] else dec_nat (n div 10) @ [digit_char (n mod 10)])"

declare dec_nat.simps [simp del]

definition dec_int :: "int \<Rightarrow> string" where
  "dec_int n = (if n < 0 then CHR ''-'' # dec_nat (nat (- n)) else dec_nat (nat n))"

text \<open>
  \<open>atoi\<close> skips white space, takes an optional sign and reads digits up to the first byte that is
  none. A string with no end in readable memory and a value outside \<open>int\<close> are undefined.
\<close>

definition is_digit :: "byte \<Rightarrow> bool" where
  "is_digit b \<longleftrightarrow> 48 \<le> unat b \<and> unat b \<le> 57"

definition is_space :: "byte \<Rightarrow> bool" where
  "is_space b \<longleftrightarrow> unat b = 32 \<or> (9 \<le> unat b \<and> unat b \<le> 13)"

fun read_digits :: "nat \<Rightarrow> mem \<Rightarrow> nat outcome" where
  "read_digits acc [] = Fault"
| "read_digits acc (b # bs) =
     (if is_digit b then read_digits (10 * acc + (unat b - 48)) bs else Ret acc)"

definition in_int :: "int \<Rightarrow> bool" where
  "in_int n \<longleftrightarrow> - (2 ^ 31) \<le> n \<and> n < 2 ^ 31"

fun read_signed :: "mem \<Rightarrow> int outcome" where
  "read_signed [] = Fault"
| "read_signed (b # bs) =
     (if unat b = 45 then obind (read_digits 0 bs) (\<lambda>n. Ret (- int n))
      else if unat b = 43 then obind (read_digits 0 bs) (\<lambda>n. Ret (int n))
      else obind (read_digits 0 (b # bs)) (\<lambda>n. Ret (int n)))"

fun atoi :: "mem \<Rightarrow> int outcome" where
  "atoi [] = Fault"
| "atoi (b # bs) =
     (if is_space b then atoi bs
      else obind (read_signed (b # bs)) (\<lambda>n. if in_int n then Ret n else Fault))"

lemma unat_of_char_digit:
  assumes "d < 10"
  shows "unat (of_char (digit_char d) :: byte) = 48 + d"
proof -
  have "of_char (digit_char d) = (of_nat (of_char (digit_char d)) :: byte)"
    by (rule of_nat_of_char [symmetric])
  also have "of_char (digit_char d) = 48 + d"
    using assms by (simp add: digit_char_def)
  finally have "of_char (digit_char d) = (of_nat (48 + d) :: byte)" .
  then show ?thesis
    using assms by (simp only: unat_of_nat) simp
qed

lemma read_digits_append_digits:
  "list_all is_digit ds \<Longrightarrow>
   read_digits acc (ds @ bs) = read_digits (foldl (\<lambda>a b. 10 * a + (unat b - 48)) acc ds) bs"
  by (induction ds arbitrary: acc) auto

lemma dec_nat_digits:
  "list_all is_digit (map of_char (dec_nat n)) \<and>
   foldl (\<lambda>a b. 10 * a + (unat b - 48)) 0 (map (of_char :: char \<Rightarrow> byte) (dec_nat n)) = n"
proof (induction n rule: dec_nat.induct)
  case (1 n)
  show ?case
  proof (cases "n < 10")
    case True
    then show ?thesis
      by (simp add: dec_nat.simps [of n] is_digit_def unat_of_char_digit)
  next
    case False
    with "1.IH" show ?thesis
      by (simp add: dec_nat.simps [of n] is_digit_def unat_of_char_digit)
  qed
qed

lemma dec_nat_not_Nil: "dec_nat n \<noteq> []"
  by (subst dec_nat.simps) simp

lemma read_digits_dec_nat:
  "\<not> is_digit b \<Longrightarrow> read_digits 0 (map of_char (dec_nat n) @ b # bs) = Ret n"
  using dec_nat_digits [of n] by (simp add: read_digits_append_digits)

lemma dec_nat_head:
  obtains b bs where "map of_char (dec_nat n) = (b :: byte) # bs" "is_digit b"
proof -
  have "map of_char (dec_nat n) \<noteq> ([] :: byte list)"
    by (simp add: dec_nat_not_Nil)
  then obtain b bs where "map of_char (dec_nat n) = (b :: byte) # bs"
    by (meson neq_Nil_conv)
  moreover from this have "is_digit b"
    using dec_nat_digits [of n] by simp
  ultimately show thesis by (rule that)
qed

lemma atoi_dec_nat:
  assumes "int n < 2 ^ 31" "\<not> is_digit e"
  shows "atoi (map of_char (dec_nat n) @ e # rest) = Ret (int n)"
proof -
  obtain b bs where b: "map of_char (dec_nat n) = b # bs" "is_digit b"
    by (rule dec_nat_head)
  then have "\<not> is_space b" "unat b \<noteq> 45" "unat b \<noteq> 43"
    by (auto simp: is_digit_def is_space_def)
  moreover have "read_digits 0 (b # bs @ e # rest) = Ret n"
    using read_digits_dec_nat [OF assms(2), of n rest] b(1) by simp
  ultimately show ?thesis
    using assms(1) b by (simp add: in_int_def)
qed

text \<open>The value of a number in \<open>0 .. 999\<close> fits in four bytes with its terminator.\<close>

lemma length_dec_nat:
  "length (dec_nat n) \<le> Suc k \<longleftrightarrow> n < 10 ^ Suc k"
proof (induction k arbitrary: n)
  case 0
  have "dec_nat (n div 10) \<noteq> []" by (rule dec_nat_not_Nil)
  then show ?case
    by (cases "n < 10") (simp_all add: dec_nat.simps [of n])
next
  case (Suc k)
  show ?case
  proof (cases "n < 10")
    case True
    have "(10::nat) \<le> 10 ^ Suc (Suc k)" by simp
    with True have "n < 10 ^ Suc (Suc k)" by linarith
    with True show ?thesis by (simp add: dec_nat.simps [of n])
  next
    case False
    have "n div 10 < 10 ^ Suc k \<longleftrightarrow> n < 10 ^ Suc (Suc k)"
      by (simp add: div_less_iff_less_mult mult.commute)
    with False Suc.IH [of "n div 10"] show ?thesis
      by (simp add: dec_nat.simps [of n])
  qed
qed

end
