(* ===== verification/Burst.thy ===== *)
theory Burst
  imports CFloat Prelude
begin

text \<open>
  The times of a thread (\<open>t_burst\<close>) and the functions of
  \<^verbatim>\<open>planificacion/suse/suse_scheduler.c\<close> that read the clock and compute bursts and estimates.

  The clock is a parameter: \<open>tod k\<close> is what the \<open>k\<close>-th call of \<open>gettimeofday\<close> returns, and a
  function that calls it takes the number of calls made so far and returns the new number.
\<close>

datatype t_state = NEW | READY | EXEC | BLOCKED | EXIT

record timeval =
  tv_sec :: int
  tv_usec :: int

record t_burst =
  total_ready :: cfloat
  ready_start :: timeval
  ready_end :: timeval
  total_exec :: cfloat
  exec_start :: timeval
  exec_end :: timeval
  last_burst :: cfloat
  last_estimate :: cfloat
  created :: timeval
  finished :: timeval

type_synonym clock = "nat \<Rightarrow> timeval"

text \<open>The operators of the type \<open>float\<close>.\<close>

definition fadd :: "cfloat \<Rightarrow> cfloat \<Rightarrow> cfloat" where "fadd x y = rnd32 (x + y)"
definition fsub :: "cfloat \<Rightarrow> cfloat \<Rightarrow> cfloat" where "fsub x y = rnd32 (x - y)"
definition fmul :: "cfloat \<Rightarrow> cfloat \<Rightarrow> cfloat" where "fmul x y = rnd32 (x * y)"
definition fdiv :: "cfloat \<Rightarrow> cfloat \<Rightarrow> cfloat" where "fdiv x y = rnd32 (x / y)"

definition get_ms_difference_between :: "timeval \<Rightarrow> timeval \<Rightarrow> cfloat" where
  "get_ms_difference_between start end' =
     fadd (fmul (rnd32 (of_int (tv_sec end' - tv_sec start))) 1000)
          (fdiv (rnd32 (of_int (tv_usec end' - tv_usec start))) 1000)"

definition get_estimate_with_burst :: "cfloat \<Rightarrow> t_burst \<Rightarrow> cfloat \<Rightarrow> cfloat" where
  "get_estimate_with_burst alpha burst lburst =
     fadd (fmul alpha lburst) (fmul (fsub 1 alpha) (last_estimate burst))"

definition get_estimate :: "cfloat \<Rightarrow> t_burst \<Rightarrow> cfloat" where
  "get_estimate alpha burst = get_estimate_with_burst alpha burst (last_burst burst)"

definition set_state_start_timing ::
  "clock \<Rightarrow> t_state \<Rightarrow> t_burst \<Rightarrow> nat \<Rightarrow> t_burst \<times> nat" where
  "set_state_start_timing tod st timings k =
     (case st of
        READY \<Rightarrow> (timings\<lparr>ready_start := tod k\<rparr>, Suc k)
      | EXEC \<Rightarrow> (timings\<lparr>exec_start := tod k\<rparr>, Suc k)
      | _ \<Rightarrow> (timings, k))"

definition set_new_timings_for ::
  "clock \<Rightarrow> t_state \<Rightarrow> t_burst \<Rightarrow> nat \<Rightarrow> t_burst \<times> nat" where
  "set_new_timings_for tod st timings k =
     (case st of
        READY \<Rightarrow>
          let difference = get_ms_difference_between (ready_start timings) (tod k) in
          (timings\<lparr>ready_end := tod k, total_ready := fadd (total_ready timings) difference\<rparr>, Suc k)
      | EXEC \<Rightarrow>
          let difference = get_ms_difference_between (exec_start timings) (tod k) in
          (timings\<lparr>exec_end := tod k, last_burst := difference,
             total_exec := fadd (total_exec timings) difference\<rparr>, Suc k)
      | _ \<Rightarrow> (timings, k))"

definition get_last_burst_for :: "clock \<Rightarrow> t_state \<Rightarrow> t_burst \<Rightarrow> nat \<Rightarrow> cfloat \<times> nat" where
  "get_last_burst_for tod st timings k =
     (let now = tod k in
      (case st of
         READY \<Rightarrow> get_ms_difference_between (ready_start timings) now
       | EXEC \<Rightarrow> get_ms_difference_between (exec_start timings) now
       | _ \<Rightarrow> 0, Suc k))"

text \<open>For the other states the result is an uninitialised variable.\<close>

definition get_total_for :: "clock \<Rightarrow> t_state \<Rightarrow> t_burst \<Rightarrow> nat \<Rightarrow> (cfloat \<times> nat) outcome" where
  "get_total_for tod st timings k =
     (case st of
        READY \<Rightarrow> let (b, k') = get_last_burst_for tod READY timings k in
          Ret (fadd b (total_ready timings), k')
      | EXEC \<Rightarrow> let (b, k') = get_last_burst_for tod EXEC timings k in
          Ret (fadd b (total_exec timings), k')
      | _ \<Rightarrow> Fault)"

text \<open>A new burst, in a block whose other fields hold what the allocation left there.\<close>

definition create_burst :: "clock \<Rightarrow> t_burst \<Rightarrow> nat \<Rightarrow> t_burst \<times> nat" where
  "create_burst tod uninit k =
     (uninit\<lparr>last_burst := 0, last_estimate := 0, total_exec := 0, total_ready := 0,
        created := tod k\<rparr>, Suc k)"

section \<open>Times do not run backwards\<close>

definition valid_tv :: "timeval \<Rightarrow> bool" where
  "valid_tv t \<longleftrightarrow> 0 \<le> tv_usec t \<and> tv_usec t < 1000000"

definition tv_le :: "timeval \<Rightarrow> timeval \<Rightarrow> bool" where
  "tv_le s t \<longleftrightarrow> tv_sec s < tv_sec t \<or> (tv_sec s = tv_sec t \<and> tv_usec s \<le> tv_usec t)"

text \<open>
  The difference of two clock readings in order is never negative, in spite of the rounding of
  every operation: a negative difference of the microseconds is made up for by the seconds.
\<close>

theorem ms_difference_nonneg:
  assumes "valid_tv s" "valid_tv t" "tv_le s t"
  shows "0 \<le> get_ms_difference_between s t"
proof (cases "tv_sec s = tv_sec t")
  case True
  with assms(3) have "0 \<le> rnd32 (of_int (tv_usec t - tv_usec s))"
    by (intro rnd32_nonneg) (simp add: tv_le_def)
  with True show ?thesis
    by (simp add: get_ms_difference_between_def fadd_def fmul_def fdiv_def rnd32_nonneg)
next
  case False
  with assms(3) have "(1::rat) \<le> of_int (tv_sec t - tv_sec s)" by (simp add: tv_le_def)
  then have "rnd32 1 \<le> rnd32 (of_int (tv_sec t - tv_sec s))" by (rule rnd32_mono)
  then have "1000 \<le> rnd32 (of_int (tv_sec t - tv_sec s)) * 1000"
    using rnd32_of_int [of 1] by simp
  then have "rnd32 1000 \<le> fmul (rnd32 (of_int (tv_sec t - tv_sec s))) 1000"
    unfolding fmul_def by (rule rnd32_mono)
  then have sec: "1000 \<le> fmul (rnd32 (of_int (tv_sec t - tv_sec s))) 1000"
    using rnd32_of_int [of 1000] by simp
  have "- 1000000 \<le> tv_usec t - tv_usec s"
    using assms(1,2) by (simp add: valid_tv_def)
  then have "(of_int (- 1000000) :: rat) \<le> of_int (tv_usec t - tv_usec s)"
    by (simp only: of_int_le_iff)
  then have "rnd32 (of_int (- 1000000)) \<le> rnd32 (of_int (tv_usec t - tv_usec s))"
    by (rule rnd32_mono)
  then have "- 1000 \<le> rnd32 (of_int (tv_usec t - tv_usec s)) / 1000"
    using rnd32_of_int [of "- 1000000"] by simp
  then have "rnd32 (- 1000) \<le> fdiv (rnd32 (of_int (tv_usec t - tv_usec s))) 1000"
    unfolding fdiv_def by (rule rnd32_mono)
  then have usec: "- 1000 \<le> fdiv (rnd32 (of_int (tv_usec t - tv_usec s))) 1000"
    using rnd32_of_int [of "- 1000"] by simp
  from sec usec show ?thesis
    unfolding get_ms_difference_between_def fadd_def by (intro rnd32_nonneg) linarith
qed

theorem ms_difference_nonneg_witness:
  "0 \<le> get_ms_difference_between \<lparr>tv_sec = 5, tv_usec = 999999\<rparr> \<lparr>tv_sec = 6, tv_usec = 0\<rparr>"
  by (rule ms_difference_nonneg) (simp_all add: valid_tv_def tv_le_def)

text \<open>
  The estimate is monotone in both of its parts, the last burst and the last estimate, when
  \<open>alpha\<close> is between 0 and 1: a thread that ran longer is never preferred to the same thread with a
  shorter run; and from times that are not negative it is not negative.
\<close>

theorem estimate_mono:
  assumes "0 \<le> alpha" "alpha \<le> 1" "b \<le> b'" "last_estimate t \<le> last_estimate t'"
  shows "get_estimate_with_burst alpha t b \<le> get_estimate_with_burst alpha t' b' \<and>
    (0 \<le> b \<longrightarrow> 0 \<le> last_estimate t \<longrightarrow> 0 \<le> get_estimate_with_burst alpha t b)"
proof -
  have c: "0 \<le> fsub 1 alpha"
    using assms(2) by (simp add: fsub_def rnd32_nonneg)
  have "fmul alpha b \<le> fmul alpha b'"
    "fmul (fsub 1 alpha) (last_estimate t) \<le> fmul (fsub 1 alpha) (last_estimate t')"
    unfolding fmul_def using assms c by (auto intro!: rnd32_mono mult_left_mono)
  then have "get_estimate_with_burst alpha t b \<le> get_estimate_with_burst alpha t' b'"
    unfolding get_estimate_with_burst_def fadd_def by (intro rnd32_mono add_mono)
  moreover have "0 \<le> get_estimate_with_burst alpha t b" if "0 \<le> b" "0 \<le> last_estimate t"
    unfolding get_estimate_with_burst_def fadd_def fmul_def
    using assms(1) c that by (intro rnd32_nonneg add_nonneg_nonneg mult_nonneg_nonneg) auto
  ultimately show ?thesis by blast
qed

definition zero_tv :: timeval where
  "zero_tv = \<lparr>tv_sec = 0, tv_usec = 0\<rparr>"

definition zero_burst :: t_burst where
  "zero_burst = \<lparr>total_ready = 0, ready_start = zero_tv, ready_end = zero_tv, total_exec = 0,
     exec_start = zero_tv, exec_end = zero_tv, last_burst = 0, last_estimate = 0,
     created = zero_tv, finished = zero_tv\<rparr>"

theorem estimate_mono_witness:
  "get_estimate_with_burst (1 / 2) (zero_burst\<lparr>last_estimate := 4\<rparr>) 10 \<le>
     get_estimate_with_burst (1 / 2) (zero_burst\<lparr>last_estimate := 6\<rparr>) 20 \<and>
   0 \<le> get_estimate_with_burst (1 / 2) (zero_burst\<lparr>last_estimate := 4\<rparr>) 10"
  using estimate_mono [of "1 / 2" 10 20 "zero_burst\<lparr>last_estimate := 4\<rparr>"
    "zero_burst\<lparr>last_estimate := 6\<rparr>"] by simp

end
