(* ===== verification/Wire.thy ===== *)
theory Wire
  imports Prelude
begin

unbundle bit_operations_syntax

text \<open>
  The socket library of \<^verbatim>\<open>lib/sockets\<close>: operation codes, packets, their serialization and what
  the receiving functions rebuild from the byte stream of a connection.

  A C \<open>int\<close> is a \<open>32 word\<close>, stored little-endian in four bytes. A block of memory is a byte list;
  bytes nobody wrote are given by a parameter \<open>indet\<close>, so that a theorem about them holds whatever
  they are. A connection is the bytes that will still arrive before the peer closes it.
\<close>

section \<open>Operation codes and packets\<close>

datatype op_code =
  MENSAJE | PAQUETE
| SUSE_CREATE | SUSE_SCHEDULE_NEXT | SUSE_SCHEDULE_NEXT_RETURN | SUSE_WAIT | SUSE_SIGNAL
| SUSE_JOIN | SUSE_CLOSE
| MUSE_ALLOC | MUSE_FREE | MUSE_GET | MUSE_CPY | MUSE_MAP | MUSE_SYNC | MUSE_UNMAP

fun op_int :: "op_code \<Rightarrow> 32 word" where
  "op_int MENSAJE = 0"
| "op_int PAQUETE = 1"
| "op_int SUSE_CREATE = 2"
| "op_int SUSE_SCHEDULE_NEXT = 3"
| "op_int SUSE_SCHEDULE_NEXT_RETURN = 4"
| "op_int SUSE_WAIT = 5"
| "op_int SUSE_SIGNAL = 6"
| "op_int SUSE_JOIN = 7"
| "op_int SUSE_CLOSE = 8"
| "op_int MUSE_ALLOC = 9"
| "op_int MUSE_FREE = 10"
| "op_int MUSE_GET = 11"
| "op_int MUSE_CPY = 12"
| "op_int MUSE_MAP = 13"
| "op_int MUSE_SYNC = 14"
| "op_int MUSE_UNMAP = 15"

record t_buffer =
  bsize :: "32 word"
  stream :: "byte list"

record t_paquete =
  codigo_operacion :: "32 word"
  buffer :: t_buffer

definition le32 :: "32 word \<Rightarrow> byte list" where
  "le32 w = [ucast w, ucast (drop_bit 8 w), ucast (drop_bit 16 w), ucast (drop_bit 24 w)]"

fun of_le32 :: "byte list \<Rightarrow> 32 word" where
  "of_le32 (a # b # c # d # _) =
     ucast a OR push_bit 8 (ucast b) OR push_bit 16 (ucast c) OR push_bit 24 (ucast d)"
| "of_le32 _ = 0"

section \<open>The sending side\<close>

definition crear_buffer :: "t_paquete \<Rightarrow> t_paquete" where
  "crear_buffer paquete = paquete\<lparr>buffer := \<lparr>bsize = 0, stream = []\<rparr>\<rparr>"

definition crear_paquete :: "32 word \<Rightarrow> t_paquete" where
  "crear_paquete op = crear_buffer \<lparr>codigo_operacion = op, buffer = \<lparr>bsize = 0, stream = []\<rparr>\<rparr>"

text \<open>
  The buffer is reallocated to hold the old bytes, the four bytes of \<open>tamanio\<close> and \<open>tamanio\<close> bytes
  read from \<open>valor\<close>.
\<close>

definition agregar_a_paquete :: "t_paquete \<Rightarrow> mem \<Rightarrow> 32 word \<Rightarrow> t_paquete outcome" where
  "agregar_a_paquete paquete valor tamanio =
     (if sint tamanio < 0 then Fault
      else obind (mem_read valor (unat tamanio)) (\<lambda>bytes.
        let b = buffer paquete in
        Ret (paquete\<lparr>buffer :=
          \<lparr>bsize = bsize b + (tamanio + 4),
           stream = take (unat (bsize b)) (stream b) @ le32 tamanio @ bytes\<rparr>\<rparr>)))"

text \<open>The initialised bytes of the block of \<open>bytes\<close> bytes that \<open>serializar_paquete\<close> allocates.\<close>

definition serializar_paquete :: "t_paquete \<Rightarrow> 32 word \<Rightarrow> byte list outcome" where
  "serializar_paquete paquete bytes =
     (let b = buffer paquete in
      if sint bytes < 8 + int (unat (bsize b)) then Fault
      else obind (mem_read (stream b) (unat (bsize b))) (\<lambda>data.
        Ret (le32 (codigo_operacion paquete) @ le32 (bsize b) @ data)))"

text \<open>
  Sending gives the bytes put on the connection; \<open>send_ok\<close> says whether the system call
  succeeds. A failed \<open>send\<close> ends the process with status -1.
\<close>

definition enviar_paquete :: "bool \<Rightarrow> t_paquete \<Rightarrow> byte list outcome" where
  "enviar_paquete send_ok paquete =
     obind (serializar_paquete paquete (bsize (buffer paquete) + 8)) (\<lambda>a_enviar.
       if send_ok then Ret a_enviar else Exit (- 1))"

fun c_strlen :: "mem \<Rightarrow> nat outcome" where
  "c_strlen [] = Fault"
| "c_strlen (b # bs) = (if b = 0 then Ret 0 else obind (c_strlen bs) (\<lambda>n. Ret (Suc n)))"

definition enviar_mensaje :: "bool \<Rightarrow> 32 word \<Rightarrow> mem \<Rightarrow> byte list outcome" where
  "enviar_mensaje send_ok op mensaje =
     obind (c_strlen mensaje) (\<lambda>n.
       let size = of_nat (n + 1) in
       obind (mem_read mensaje (n + 1)) (\<lambda>bytes.
         enviar_paquete send_ok
           \<lparr>codigo_operacion = op, buffer = \<lparr>bsize = size, stream = bytes\<rparr>\<rparr>))"

definition enviar_operacion :: "bool \<Rightarrow> 32 word \<Rightarrow> int \<times> byte list" where
  "enviar_operacion send_ok op = (if send_ok then (0, le32 op) else (- 1, []))"

section \<open>The receiving side\<close>

record chan =
  inbuf :: "byte list"
  broken :: bool
  closed :: bool

text \<open>\<open>recv\<close> with \<open>MSG_WAITALL\<close>: fewer bytes than asked for only when the peer has no more.\<close>

definition recv :: "nat \<Rightarrow> chan \<Rightarrow> int \<times> byte list \<times> chan" where
  "recv n c =
     (if closed c then (- 1, [], c)
      else if inbuf c = [] then (if broken c then - 1 else 0, [], c)
      else (int (min n (length (inbuf c))), take n (inbuf c), c\<lparr>inbuf := drop n (inbuf c)\<rparr>))"

text \<open>A block of \<open>n\<close> bytes of which the first ones have been written.\<close>

definition fill :: "(nat \<Rightarrow> byte) \<Rightarrow> nat \<Rightarrow> byte list \<Rightarrow> byte list" where
  "fill indet n bs = bs @ map indet [length bs..<n]"

definition recibir_operacion :: "(nat \<Rightarrow> byte) \<Rightarrow> chan \<Rightarrow> 32 word \<times> chan" where
  "recibir_operacion indet c =
     (let (aux, bs, c') = recv 4 c in
      if aux > 0 then (of_le32 (fill indet 4 bs), c') else (- 1, c'\<lparr>closed := True\<rparr>))"

definition recibir_buffer :: "(nat \<Rightarrow> byte) \<Rightarrow> chan \<Rightarrow> (byte list \<times> chan) outcome" where
  "recibir_buffer indet c =
     (let (_, szb, c1) = recv 4 c; size = of_le32 (fill indet 4 szb) in
      if sint size < 0 then Fault
      else let (_, bs, c2) = recv (unat size) c1 in Ret (fill indet (unat size) bs, c2))"

text \<open>
  The loop of \<open>recibir_paquete\<close>, on the part of the buffer from \<open>desplazamiento\<close> on. Reading a size
  or a value past the end of the buffer is a fault.
\<close>

function split_values :: "byte list \<Rightarrow> byte list list outcome" where
  "split_values buf =
     (if buf = [] then Ret []
      else if length buf < 4 then Fault
      else let tamanio = of_le32 buf; rest = drop 4 buf in
        if sint tamanio < 0 \<or> length rest < unat tamanio then Fault
        else obind (split_values (drop (unat tamanio) rest)) (\<lambda>vs.
          Ret (take (unat tamanio) rest # vs)))"
  by pat_completeness auto
termination
  by (relation "measure length") auto

declare split_values.simps [simp del]

definition recibir_paquete :: "(nat \<Rightarrow> byte) \<Rightarrow> chan \<Rightarrow> (byte list list \<times> chan) outcome" where
  "recibir_paquete indet c =
     obind (recibir_buffer indet c) (\<lambda>(buf, c').
       obind (split_values buf) (\<lambda>vs. Ret (vs, c')))"

text \<open>The text \<open>recibir_mensaje\<close> prints.\<close>

definition recibir_mensaje :: "(nat \<Rightarrow> byte) \<Rightarrow> chan \<Rightarrow> (byte list \<times> chan) outcome" where
  "recibir_mensaje indet c =
     obind (recibir_buffer indet c) (\<lambda>(buf, c').
       obind (c_strlen buf) (\<lambda>n. Ret (take n buf, c')))"

section \<open>Integers in memory\<close>

lemma length_le32 [simp]: "length (le32 w) = 4"
  by (simp add: le32_def)

lemma le32_not_Nil [simp]: "le32 w \<noteq> []"
  by (simp add: le32_def)

lemma of_le32_le32 [simp]: "of_le32 (le32 w @ rest) = w"
proof (rule bit_word_eqI)
  fix n :: nat
  assume "n < LENGTH(32)"
  then have "n < 8 \<or> (8 \<le> n \<and> n < 16) \<or> (16 \<le> n \<and> n < 24) \<or> (24 \<le> n \<and> n < 32)"
    by auto
  then show "bit (of_le32 (le32 w @ rest)) n \<longleftrightarrow> bit w n"
    by (elim disjE) (auto simp: le32_def bit_simps)
qed

lemma of_le32_le32' [simp]: "of_le32 (le32 w) = w"
  using of_le32_le32 [of w "[]"] by simp

lemma le32_inject [simp]: "le32 v = le32 w \<longleftrightarrow> v = w"
  by (metis of_le32_le32')

lemma le32_of_le32:
  assumes "4 \<le> length bs"
  shows "le32 (of_le32 bs) = take 4 bs"
proof -
  obtain a b c d rest where bs: "bs = a # b # c # d # rest"
    using assms by (auto simp: numeral_eq_Suc Suc_le_length_iff)
  have "ucast (of_le32 bs) = a"
    unfolding bs by (rule bit_word_eqI) (auto simp: bit_simps dest: bit_imp_le_length)
  moreover have "ucast (drop_bit 8 (of_le32 bs)) = b"
    unfolding bs by (rule bit_word_eqI) (auto simp: bit_simps dest: bit_imp_le_length)
  moreover have "ucast (drop_bit 16 (of_le32 bs)) = c"
    unfolding bs by (rule bit_word_eqI) (auto simp: bit_simps dest: bit_imp_le_length)
  moreover have "ucast (drop_bit 24 (of_le32 bs)) = d"
    unfolding bs by (rule bit_word_eqI) (auto simp: bit_simps dest: bit_imp_le_length)
  ultimately show ?thesis
    by (simp add: le32_def bs)
qed

lemma sint_of_nat32:
  assumes "n < 2 ^ 31"
  shows "sint (of_nat n :: 32 word) = int n"
  using assms by (simp add: signed_of_nat signed_take_bit_int_eq_self)

lemma unat_of_nat32:
  assumes "n < 2 ^ 31"
  shows "unat (of_nat n :: 32 word) = n"
  using assms by (simp add: unat_of_nat take_bit_nat_eq_self)

lemma uint_of_nat32:
  assumes "n < 2 ^ 31"
  shows "uint (of_nat n :: 32 word) = int n"
  using assms by (simp add: unsigned_of_nat take_bit_nat_eq_self)

lemma sint_nonneg_unat:
  fixes w :: "32 word"
  assumes "0 \<le> sint w"
  shows "unat w < 2 ^ 31"
proof -
  have lt: "sint w < 2 ^ 31"
    using sint_lt [of w] by simp
  then have "take_bit 32 (sint w) = sint w"
    using assms by (intro take_bit_int_eq_self) simp_all
  then have "uint w = sint w"
    by (simp add: uint_sint)
  with lt have "uint w < 2 ^ 31" by (simp only:)
  then have "int (unat w) < int (2 ^ 31)"
    by (simp only: uint_nat) simp
  then show ?thesis
    by (simp only: of_nat_less_iff)
qed


section \<open>What the receiving side makes of what was sent\<close>

text \<open>The encoding of one value of a packet, and the buffers that the parsing loop accepts.\<close>

definition enc_value :: "byte list \<Rightarrow> byte list" where
  "enc_value v = le32 (of_nat (length v)) @ v"

definition fits :: "byte list \<Rightarrow> bool" where
  "fits v \<longleftrightarrow> length v < 2 ^ 31"

definition payload :: "byte list list \<Rightarrow> byte list" where
  "payload vs = concat (map enc_value vs)"

lemma payload_simps [simp]:
  "payload [] = []" "payload (v # vs) = enc_value v @ payload vs"
  "payload (vs @ ws) = payload vs @ payload ws"
  by (simp_all add: payload_def)

lemma length_enc_value [simp]: "length (enc_value v) = length v + 4"
  by (simp add: enc_value_def)

lemma length_payload: "length (payload vs) = (\<Sum>v\<leftarrow>vs. length v + 4)"
  by (induction vs) auto

lemma enc_value_not_Nil [simp]: "enc_value v \<noteq> []"
  by (simp add: enc_value_def)

lemma split_values_step:
  assumes "fits v"
  shows "split_values (enc_value v @ buf) = obind (split_values buf) (\<lambda>vs. Ret (v # vs))"
  using assms
  by (subst split_values.simps)
     (simp add: enc_value_def fits_def Let_def sint_of_nat32 unat_of_nat32)

lemma split_values_payload:
  "list_all fits vs \<Longrightarrow> split_values (payload vs) = Ret vs"
proof (induction vs)
  case Nil
  show ?case by (simp add: split_values.simps)
next
  case (Cons v vs)
  then show ?case by (simp add: split_values_step)
qed

lemma split_values_sound:
  "split_values buf = Ret vs \<Longrightarrow> buf = payload vs \<and> list_all fits vs"
proof (induction buf arbitrary: vs rule: split_values.induct)
  case (1 buf)
  show ?case
  proof (cases "buf = []")
    case True
    with "1.prems" show ?thesis by (simp add: split_values.simps)
  next
    case False
    let ?n = "unat (of_le32 buf)" and ?rest = "drop 4 buf"
    have len: "4 \<le> length buf" and sgn: "0 \<le> sint (of_le32 buf)" and fit: "?n \<le> length ?rest"
      using "1.prems" False by (auto simp: split_values.simps [of buf] Let_def split: if_splits)
    then obtain ws where ws: "split_values (drop ?n ?rest) = Ret ws"
        and vs: "vs = take ?n ?rest # ws"
      using "1.prems" False
      by (auto simp: split_values.simps [of buf] Let_def obind_Ret_iff split: if_splits)
    have IH: "drop ?n ?rest = payload ws \<and> list_all fits ws"
      using "1.IH" [OF False _ refl refl _ ws] len sgn fit by simp
    have "length (take ?n ?rest) = ?n" using fit by simp
    moreover have "?n < 2 ^ 31" by (rule sint_nonneg_unat [OF sgn])
    ultimately have "enc_value (take ?n ?rest) = take 4 buf @ take ?n ?rest" "fits (take ?n ?rest)"
      using len by (simp_all add: enc_value_def fits_def le32_of_le32)
    moreover have "buf = (take 4 buf @ take ?n ?rest) @ drop ?n ?rest"
      by (simp only: append_assoc append_take_drop_id)
    ultimately show ?thesis
      using IH by (simp add: vs)
  qed
qed

lemma split_values_total: "split_values buf = Fault \<or> (\<exists>vs. split_values buf = Ret vs)"
proof (induction buf rule: split_values.induct)
  case (1 buf)
  show ?case
  proof (cases "buf = [] \<or> length buf < 4 \<or> sint (of_le32 buf) < 0 \<or>
      length (drop 4 buf) < unat (of_le32 buf)")
    case True
    then show ?thesis by (auto simp: split_values.simps [of buf] Let_def)
  next
    case False
    with "1.IH" [OF _ _ refl refl] show ?thesis
      by (auto simp: split_values.simps [of buf] Let_def)
  qed
qed

text \<open>Adding values to a packet, one call after the other.\<close>

fun agregar_todos :: "t_paquete \<Rightarrow> byte list list \<Rightarrow> t_paquete outcome" where
  "agregar_todos p [] = Ret p"
| "agregar_todos p (v # vs) =
     obind (agregar_a_paquete p v (of_nat (length v))) (\<lambda>p'. agregar_todos p' vs)"

text \<open>The packet that holds exactly the given values.\<close>

definition packet_of :: "32 word \<Rightarrow> byte list list \<Rightarrow> t_paquete" where
  "packet_of op vs =
     \<lparr>codigo_operacion = op,
      buffer = \<lparr>bsize = of_nat (length (payload vs)), stream = payload vs\<rparr>\<rparr>"

lemma crear_paquete_packet_of: "crear_paquete op = packet_of op []"
  by (simp add: crear_paquete_def crear_buffer_def packet_of_def)

lemma agregar_packet_of:
  assumes "length v \<le> length m" "take (length v) m = v"
    and "length (payload (vs @ [v])) < 2 ^ 31"
  shows "agregar_a_paquete (packet_of op vs) m (of_nat (length v)) = Ret (packet_of op (vs @ [v]))"
proof -
  have "length v < 2 ^ 31" "length (payload vs) < 2 ^ 31"
    using assms(3) by simp_all
  then show ?thesis
    using assms(1,2)
    by (simp add: agregar_a_paquete_def packet_of_def mem_read_def sint_of_nat32 unat_of_nat32
        Let_def enc_value_def add.assoc add.commute add.left_commute)
qed

lemma agregar_todos_packet_of:
  assumes "length (payload (vs @ ws)) < 2 ^ 31"
  shows "agregar_todos (packet_of op vs) ws = Ret (packet_of op (vs @ ws))"
  using assms
proof (induction ws arbitrary: vs)
  case Nil
  then show ?case by simp
next
  case (Cons w ws)
  then have "agregar_a_paquete (packet_of op vs) w (of_nat (length w)) = Ret (packet_of op (vs @ [w]))"
    by (intro agregar_packet_of) simp_all
  with Cons show ?case by simp
qed

lemma enviar_packet_of:
  assumes "length (payload vs) + 8 < 2 ^ 31"
  shows "enviar_paquete True (packet_of op vs) =
    Ret (le32 op @ le32 (of_nat (length (payload vs))) @ payload vs)"
proof -
  let ?n = "length (payload vs)"
  have "(of_nat ?n + 8 :: 32 word) = of_nat (?n + 8)" by simp
  then have "sint (of_nat ?n + 8 :: 32 word) = int (?n + 8)"
    using assms by (simp only: sint_of_nat32)
  with assms show ?thesis
    by (simp add: enviar_paquete_def serializar_paquete_def packet_of_def mem_read_def Let_def
        unat_of_nat32 uint_of_nat32)
qed

lemma recv_append:
  assumes "\<not> closed c" "inbuf c = bs @ rest" "length bs = n" "bs \<noteq> []"
  shows "recv n c = (int n, bs, c\<lparr>inbuf := rest\<rparr>)"
  using assms by (auto simp: recv_def)

lemma fill_full [simp]: "length bs = n \<Longrightarrow> fill indet n bs = bs"
  by (simp add: fill_def)

lemma recibir_operacion_append:
  assumes "\<not> closed c" "inbuf c = le32 op @ rest"
  shows "recibir_operacion indet c = (op, c\<lparr>inbuf := rest\<rparr>)"
  using recv_append [OF assms, of 4] by (simp add: recibir_operacion_def)

lemma recibir_buffer_append:
  assumes "\<not> closed c" "inbuf c = le32 (of_nat (length buf)) @ buf @ rest" "length buf < 2 ^ 31"
  shows "recibir_buffer indet c = Ret (buf, c\<lparr>inbuf := rest\<rparr>)"
proof -
  have 1: "recv 4 c = (4, le32 (of_nat (length buf)), c\<lparr>inbuf := buf @ rest\<rparr>)"
    using recv_append [OF assms(1,2), of 4] by simp
  have 2: "\<exists>n. recv (length buf) (c\<lparr>inbuf := buf @ rest\<rparr>) = (n, buf, c\<lparr>inbuf := rest\<rparr>)"
    using assms(1) by (cases "buf = []") (auto simp: recv_def)
  from 1 2 assms(3) show ?thesis
    by (auto simp: recibir_buffer_def sint_of_nat32 unat_of_nat32)
qed

lemma recibir_paquete_append:
  assumes "\<not> closed c" "inbuf c = le32 (of_nat (length (payload vs))) @ payload vs @ rest"
    and "length (payload vs) < 2 ^ 31"
  shows "recibir_paquete indet c = Ret (vs, c\<lparr>inbuf := rest\<rparr>)"
proof -
  have "length v < 2 ^ 31" if "v \<in> set vs" for v
    using member_le_sum_list [of "length v + 4" "map (\<lambda>v. length v + 4) vs"] that assms(3)
    by (simp add: length_payload)
  then have "list_all fits vs"
    by (simp add: list_all_iff fits_def)
  with recibir_buffer_append [OF assms, of indet] show ?thesis
    by (simp add: recibir_paquete_def split_values_payload)
qed


text \<open>
  C20: A packet arrives as it was filled: for every operation code and list of values whose packet
  is smaller than 2 GB, adding the values one by one succeeds, sending gives eight bytes of header
  and four more per value, and at the other end \<open>recibir_operacion\<close> and \<open>recibir_paquete\<close> return
  the code and exactly the values, in order, leaving the bytes that follow on the connection.
\<close>

theorem packet_roundtrip:
  assumes "(\<Sum>v\<leftarrow>vs. length v + 4) + 8 < 2 ^ 31"
  shows "\<exists>p bytes c1. agregar_todos (crear_paquete op) vs = Ret p \<and>
    enviar_paquete True p = Ret bytes \<and> length bytes = (\<Sum>v\<leftarrow>vs. length v + 4) + 8 \<and>
    recibir_operacion indet \<lparr>inbuf = bytes @ rest, broken = b, closed = False\<rparr> = (op, c1) \<and>
    recibir_paquete indet c1 = Ret (vs, \<lparr>inbuf = rest, broken = b, closed = False\<rparr>)"
proof -
  let ?bytes = "le32 op @ le32 (of_nat (length (payload vs))) @ payload vs"
  let ?c1 = "\<lparr>inbuf = le32 (of_nat (length (payload vs))) @ payload vs @ rest,
    broken = b, closed = False\<rparr>"
  have len: "length (payload vs) + 8 < 2 ^ 31"
    using assms by (simp add: length_payload)
  have "agregar_todos (crear_paquete op) vs = Ret (packet_of op vs)"
    using agregar_todos_packet_of [of "[]" vs op] len by (simp add: crear_paquete_packet_of)
  moreover have "enviar_paquete True (packet_of op vs) = Ret ?bytes"
    by (rule enviar_packet_of [OF len])
  moreover have "recibir_operacion indet \<lparr>inbuf = ?bytes @ rest, broken = b, closed = False\<rparr> =
      (op, ?c1)"
    by (simp add: recibir_operacion_append)
  moreover have "recibir_paquete indet ?c1 = Ret (vs, \<lparr>inbuf = rest, broken = b, closed = False\<rparr>)"
    using recibir_paquete_append [of ?c1 vs rest indet] len by simp
  moreover have "length ?bytes = (\<Sum>v\<leftarrow>vs. length v + 4) + 8"
    by (simp add: length_payload)
  ultimately show ?thesis by blast
qed

theorem packet_roundtrip_witness:
  "\<exists>p bytes c1. agregar_todos (crear_paquete 5) [[1, 2], []] = Ret p \<and>
    enviar_paquete True p = Ret bytes \<and> length bytes = 18 \<and>
    recibir_operacion (\<lambda>_. 9) \<lparr>inbuf = bytes @ [7], broken = True, closed = False\<rparr> = (5, c1) \<and>
    recibir_paquete (\<lambda>_. 9) c1 = Ret ([[1, 2], []], \<lparr>inbuf = [7], broken = True, closed = False\<rparr>)"
  using packet_roundtrip [of "[[1, 2], []]" 5 "\<lambda>_. 9" "[7]" True] by simp

text \<open>
  The parsing loop of \<open>recibir_paquete\<close> accepts a buffer exactly when it is the concatenation
  of values each preceded by its length, and then returns those values; on every other buffer - cut
  off in the middle of a length or of a value, or with a negative length - it reads outside the
  block. It never loops.
\<close>

theorem split_values_exact:
  "(split_values buf = Ret vs \<longleftrightarrow> buf = payload vs \<and> list_all fits vs) \<and>
   (split_values buf = Fault \<longleftrightarrow> (\<nexists>vs. buf = payload vs \<and> list_all fits vs))"
proof -
  have "split_values buf = Ret vs \<longleftrightarrow> buf = payload vs \<and> list_all fits vs" for vs
    using split_values_sound split_values_payload by metis
  moreover have "split_values buf = Fault \<or> (\<exists>vs. split_values buf = Ret vs)"
    by (rule split_values_total)
  ultimately show ?thesis by (metis outcome.distinct(3))
qed

text \<open>
  \<open>recibir_operacion\<close> on every branch: four bytes or more give the operation code; a closed,
  failed or ended connection gives -1 and closes the descriptor; but one to three last bytes count
  as a whole code, whose missing bytes are whatever the uninitialised variable held.
\<close>

theorem recibir_operacion_branches:
  "recibir_operacion indet c =
    (if closed c \<or> inbuf c = [] then (- 1, c\<lparr>closed := True\<rparr>)
     else if 4 \<le> length (inbuf c) then (of_le32 (take 4 (inbuf c)), c\<lparr>inbuf := drop 4 (inbuf c)\<rparr>)
     else (of_le32 (inbuf c @ map indet [length (inbuf c)..<4]), c\<lparr>inbuf := []\<rparr>))"
  by (auto simp: recibir_operacion_def recv_def fill_def min_def)

end
