(* ===== verification/Protocol.thy ===== *)
theory Protocol
  imports Wire
begin

text \<open>
  The requests of a user program to SUSE: what the functions of
  \<^verbatim>\<open>lib/hilolay/hilolay_alumnos.c\<close> put on the connection, and what the switch of
  \<open>schedule_short_term\<close> reads back from it.

  \<open>string_itoa\<close> belongs to so-commons and is the parameter \<open>itoa\<close>; the theorems about it take the
  documented conversion, \<open>itoa_decimal\<close>, as a hypothesis. The parameter \<open>beyond\<close> is the readable
  memory behind a heap block: a copy of four bytes from the string of a one-digit thread id runs
  into it.
\<close>

definition itoa_decimal :: "(int \<Rightarrow> string) \<Rightarrow> bool" where
  "itoa_decimal itoa \<longleftrightarrow> (\<forall>n. itoa n = dec_int n)"

section \<open>The client\<close>

text \<open>A request that carries the thread id alone, and one with a semaphore name.\<close>

definition send_tid ::
  "bool \<Rightarrow> (int \<Rightarrow> string) \<Rightarrow> byte list \<Rightarrow> op_code \<Rightarrow> int \<Rightarrow> (int \<times> byte list) outcome" where
  "send_tid send_ok itoa beyond op t =
     (let threadid = c_string (itoa t) @ beyond in
      obind (agregar_a_paquete (crear_paquete (op_int op)) threadid 4) (\<lambda>p.
      obind (enviar_paquete send_ok p) (\<lambda>bytes. Ret (0, bytes))))"

definition send_tid_sem ::
  "bool \<Rightarrow> (int \<Rightarrow> string) \<Rightarrow> byte list \<Rightarrow> op_code \<Rightarrow> int \<Rightarrow> mem \<Rightarrow> (int \<times> byte list) outcome" where
  "send_tid_sem send_ok itoa beyond op t sem_name =
     (let threadid = c_string (itoa t) @ beyond in
      obind (agregar_a_paquete (crear_paquete (op_int op)) threadid 4) (\<lambda>p.
      obind (c_strlen sem_name) (\<lambda>n.
      obind (agregar_a_paquete p sem_name (of_nat (n + 1))) (\<lambda>p'.
      obind (enviar_paquete send_ok p') (\<lambda>bytes. Ret (0, bytes))))))"

definition suse_create_req where
  "suse_create_req send_ok itoa beyond t = send_tid send_ok itoa beyond SUSE_CREATE t"

definition suse_join_req where
  "suse_join_req send_ok itoa beyond t = send_tid send_ok itoa beyond SUSE_JOIN t"

definition suse_close_req where
  "suse_close_req send_ok itoa beyond t = send_tid send_ok itoa beyond SUSE_CLOSE t"

definition suse_wait_req where
  "suse_wait_req send_ok itoa beyond t sem_name =
     send_tid_sem send_ok itoa beyond SUSE_WAIT t sem_name"

definition suse_signal_req where
  "suse_signal_req send_ok itoa beyond t sem_name =
     send_tid_sem send_ok itoa beyond SUSE_SIGNAL t sem_name"

text \<open>The first half of \<open>suse_schedule_next\<close>: the operation code alone.\<close>

definition suse_schedule_next_send :: "bool \<Rightarrow> int \<times> byte list" where
  "suse_schedule_next_send send_ok = enviar_operacion send_ok (op_int SUSE_SCHEDULE_NEXT)"

text \<open>
  Its second half: the thread id of the reply, or -1 when another operation arrives. The value at
  a position of the received list is a block of its own, with \<open>beyond\<close> behind it.
\<close>

definition value_at :: "byte list \<Rightarrow> byte list list \<Rightarrow> nat \<Rightarrow> mem outcome" where
  "value_at beyond vs i = (if i < length vs then Ret (vs ! i @ beyond) else Fault)"

definition suse_schedule_next_recv ::
  "(nat \<Rightarrow> byte) \<Rightarrow> byte list \<Rightarrow> chan \<Rightarrow> (int \<times> chan) outcome" where
  "suse_schedule_next_recv indet beyond c =
     (let (op, c1) = recibir_operacion indet c in
      if op = op_int SUSE_SCHEDULE_NEXT_RETURN then
        obind (recibir_paquete indet c1) (\<lambda>(vs, c2).
        obind (value_at beyond vs 0) (\<lambda>m.
        obind (atoi m) (\<lambda>t. Ret (t, c2))))
      else Ret (- 1, c1))"

section \<open>The server\<close>

datatype request =
  Create int
| ScheduleNext
| Wait int "byte list"
| Signal int "byte list"
| Join int
| Close int
| Disconnected
| Unknown "32 word"

text \<open>\<open>strdup\<close>: the bytes of a C string, without its terminator.\<close>

definition c_strdup :: "mem \<Rightarrow> byte list outcome" where
  "c_strdup m = obind (c_strlen m) (\<lambda>n. Ret (take n m))"

definition read_tid :: "(nat \<Rightarrow> byte) \<Rightarrow> byte list \<Rightarrow> (int \<Rightarrow> request) \<Rightarrow> chan \<Rightarrow>
    (request \<times> chan) outcome" where
  "read_tid indet beyond f c =
     obind (recibir_paquete indet c) (\<lambda>(parametros, c').
     obind (value_at beyond parametros 0) (\<lambda>m.
     obind (atoi m) (\<lambda>t. Ret (f t, c'))))"

definition read_tid_sem :: "(nat \<Rightarrow> byte) \<Rightarrow> byte list \<Rightarrow> (int \<Rightarrow> byte list \<Rightarrow> request) \<Rightarrow> chan \<Rightarrow>
    (request \<times> chan) outcome" where
  "read_tid_sem indet beyond f c =
     obind (recibir_paquete indet c) (\<lambda>(parametros, c').
     obind (value_at beyond parametros 0) (\<lambda>m.
     obind (atoi m) (\<lambda>t.
     obind (value_at beyond parametros 1) (\<lambda>m'.
     obind (c_strdup m') (\<lambda>sem. Ret (f t sem, c'))))))"

definition read_request ::
  "(nat \<Rightarrow> byte) \<Rightarrow> byte list \<Rightarrow> chan \<Rightarrow> (request \<times> chan) outcome" where
  "read_request indet beyond c =
     (let (codigo, c1) = recibir_operacion indet c in
      if codigo = op_int SUSE_CREATE then read_tid indet beyond Create c1
      else if codigo = op_int SUSE_SCHEDULE_NEXT then Ret (ScheduleNext, c1)
      else if codigo = op_int SUSE_WAIT then read_tid_sem indet beyond Wait c1
      else if codigo = op_int SUSE_SIGNAL then read_tid_sem indet beyond Signal c1
      else if codigo = op_int SUSE_JOIN then read_tid indet beyond Join c1
      else if codigo = op_int SUSE_CLOSE then read_tid indet beyond Close c1
      else if codigo = - 1 then Ret (Disconnected, c1)
      else Ret (Unknown codigo, c1))"

text \<open>The reply of \<open>notify_program\<close>: the id of the chosen thread.\<close>

definition notify_program_bytes :: "bool \<Rightarrow> (int \<Rightarrow> string) \<Rightarrow> byte list \<Rightarrow> int \<Rightarrow> byte list outcome" where
  "notify_program_bytes send_ok itoa beyond t =
     (let threadid = c_string (itoa t) @ beyond in
      obind (agregar_a_paquete (crear_paquete (op_int SUSE_SCHEDULE_NEXT_RETURN)) threadid 4) (\<lambda>p.
      enviar_paquete send_ok p))"

section \<open>Thread ids in four bytes\<close>

lemma c_strlen_c_string:
  "0 \<notin> set bs \<Longrightarrow> c_strlen (bs @ 0 # rest) = Ret (length bs)"
  by (induction bs) auto

lemma c_strdup_c_string [simp]:
  "0 \<notin> set bs \<Longrightarrow> c_strdup (bs @ 0 # rest) = Ret bs"
  by (simp add: c_strdup_def c_strlen_c_string)

text \<open>The four bytes that stand for a thread id of at most three digits.\<close>

lemma tid_bytes_short:
  assumes "0 \<le> t" "t \<le> 999" "itoa_decimal itoa" "2 \<le> length beyond"
  obtains pad where "take 4 (c_string (itoa t) @ beyond) = c_string (dec_int t) @ pad"
    "length (c_string (dec_int t) @ pad) = 4" "4 \<le> length (c_string (itoa t) @ beyond)"
proof -
  define ds where "ds = (map of_char (dec_nat (nat t)) :: byte list)"
  have le: "length ds \<le> 3"
    using length_dec_nat [of "nat t" 2] assms(1,2) by (simp add: ds_def)
  have gt: "1 \<le> length ds"
    by (simp add: ds_def dec_nat_not_Nil Suc_le_eq)
  have eqs: "c_string (itoa t) = ds @ [0]" "c_string (dec_int t) = ds @ [0]"
    using assms(1,3) by (simp_all add: itoa_decimal_def c_string_def dec_int_def ds_def)
  have "4 - length ds = Suc (3 - length ds)" using le by simp
  then have "take 4 (c_string (itoa t) @ beyond) =
      c_string (dec_int t) @ take (3 - length ds) beyond"
    using le by (simp add: eqs)
  moreover have "length (c_string (dec_int t) @ take (3 - length ds) beyond) = 4"
    "4 \<le> length (c_string (itoa t) @ beyond)"
    using le gt assms(4) by (auto simp: eqs)
  ultimately show thesis by (rule that)
qed

lemma atoi_dec_int:
  assumes "0 \<le> t" "t < 2 ^ 31"
  shows "atoi (c_string (dec_int t) @ rest) = Ret t"
  using atoi_dec_nat [of "nat t" 0 rest] assms
  by (simp add: c_string_def dec_int_def is_digit_def)

lemma agregar_tid:
  assumes "4 \<le> length m"
  shows "agregar_a_paquete (crear_paquete op) m 4 = Ret (packet_of op [take 4 m])"
  using agregar_packet_of [of "take 4 m" m "[]" op] assms
  by (simp add: crear_paquete_packet_of)

lemma send_tid_bytes:
  assumes "4 \<le> length (c_string (itoa t) @ beyond)"
  shows "send_tid True itoa beyond op t =
    Ret (0, le32 (op_int op) @ le32 8 @ payload [take 4 (c_string (itoa t) @ beyond)])"
proof -
  define v where "v = take 4 (c_string (itoa t) @ beyond)"
  have "length v = 4" using assms by (simp add: v_def)
  with enviar_packet_of [of "[v]" "op_int op"]
  have "enviar_paquete True (packet_of (op_int op) [v]) =
      Ret (le32 (op_int op) @ le32 8 @ payload [v])" by simp
  moreover have "agregar_a_paquete (crear_paquete (op_int op)) (c_string (itoa t) @ beyond) 4 =
      Ret (packet_of (op_int op) [v])"
    unfolding v_def by (rule agregar_tid [OF assms])
  ultimately show ?thesis
    by (simp only: send_tid_def Let_def obind.simps flip: v_def)
qed

lemma read_tid_bytes:
  assumes "\<not> closed c" "inbuf c = le32 8 @ payload [v] @ rest" "length v = 4"
    and "atoi (v @ beyond) = Ret t"
  shows "read_tid indet beyond f c = Ret (f t, c\<lparr>inbuf := rest\<rparr>)"
  using recibir_paquete_append [of c "[v]" rest indet] assms
  by (simp add: read_tid_def value_at_def)


lemma send_tid_sem_bytes:
  assumes "4 \<le> length (c_string (itoa t) @ beyond)" "0 \<notin> set sem" "length sem < 2 ^ 30"
  shows "send_tid_sem True itoa beyond op t (sem @ [0]) =
    Ret (0, le32 (op_int op) @ le32 (of_nat (length sem + 13)) @
      payload [take 4 (c_string (itoa t) @ beyond), sem @ [0]])"
proof -
  define v where "v = take 4 (c_string (itoa t) @ beyond)"
  have v: "length v = 4" using assms(1) by (simp add: v_def)
  have "agregar_a_paquete (crear_paquete (op_int op)) (c_string (itoa t) @ beyond) 4 =
      Ret (packet_of (op_int op) [v])"
    unfolding v_def by (rule agregar_tid [OF assms(1)])
  moreover have "c_strlen (sem @ [0]) = Ret (length sem)"
    using c_strlen_c_string [OF assms(2), of "[]"] by simp
  moreover have "agregar_a_paquete (packet_of (op_int op) [v]) (sem @ [0]) (of_nat (length sem + 1)) =
      Ret (packet_of (op_int op) [v, sem @ [0]])"
    using agregar_packet_of [of "sem @ [0]" "sem @ [0]" "[v]" "op_int op"] assms(3) v by simp
  moreover have "enviar_paquete True (packet_of (op_int op) [v, sem @ [0]]) =
      Ret (le32 (op_int op) @ le32 (of_nat (length sem + 13)) @ payload [v, sem @ [0]])"
    using enviar_packet_of [of "[v, sem @ [0]]" "op_int op"] assms(3) v
    by (simp add: add.commute add.left_commute)
  ultimately show ?thesis
    by (simp only: send_tid_sem_def Let_def obind.simps flip: v_def)
qed

lemma read_tid_sem_bytes:
  assumes "\<not> closed c" "inbuf c = le32 (of_nat (length sem + 13)) @ payload [v, sem @ [0]] @ rest"
    and "length v = 4" "atoi (v @ beyond) = Ret t" "0 \<notin> set sem" "length sem < 2 ^ 30"
  shows "read_tid_sem indet beyond f c = Ret (f t sem, c\<lparr>inbuf := rest\<rparr>)"
proof -
  have "recibir_paquete indet c = Ret ([v, sem @ [0]], c\<lparr>inbuf := rest\<rparr>)"
    by (rule recibir_paquete_append)
       (use assms in \<open>simp_all add: add.commute add.left_commute\<close>)
  with assms(4,5) show ?thesis
    by (simp add: read_tid_sem_def value_at_def)
qed

section \<open>Requests arrive as they were sent\<close>

text \<open>The library function a client calls for a request.\<close>

fun client_send :: "(int \<Rightarrow> string) \<Rightarrow> byte list \<Rightarrow> request \<Rightarrow> (int \<times> byte list) outcome" where
  "client_send itoa beyond (Create t) = suse_create_req True itoa beyond t"
| "client_send itoa beyond ScheduleNext = Ret (suse_schedule_next_send True)"
| "client_send itoa beyond (Wait t sem) = suse_wait_req True itoa beyond t (sem @ [0])"
| "client_send itoa beyond (Signal t sem) = suse_signal_req True itoa beyond t (sem @ [0])"
| "client_send itoa beyond (Join t) = suse_join_req True itoa beyond t"
| "client_send itoa beyond (Close t) = suse_close_req True itoa beyond t"
| "client_send itoa beyond Disconnected = Fault"
| "client_send itoa beyond (Unknown op) = Fault"

definition short_tid :: "int \<Rightarrow> bool" where
  "short_tid t \<longleftrightarrow> 0 \<le> t \<and> t \<le> 999"

definition sem_name_ok :: "byte list \<Rightarrow> bool" where
  "sem_name_ok sem \<longleftrightarrow> 0 \<notin> set sem \<and> length sem < 2 ^ 30"

fun ok_request :: "request \<Rightarrow> bool" where
  "ok_request (Create t) = short_tid t"
| "ok_request ScheduleNext = True"
| "ok_request (Wait t sem) = (short_tid t \<and> sem_name_ok sem)"
| "ok_request (Signal t sem) = (short_tid t \<and> sem_name_ok sem)"
| "ok_request (Join t) = short_tid t"
| "ok_request (Close t) = short_tid t"
| "ok_request Disconnected = False"
| "ok_request (Unknown op) = False"

text \<open>The bytes of a request; empty for what no client function sends.\<close>

definition request_bytes :: "(int \<Rightarrow> string) \<Rightarrow> byte list \<Rightarrow> request \<Rightarrow> byte list" where
  "request_bytes itoa beyond r =
     (case client_send itoa beyond r of Ret (_, bytes) \<Rightarrow> bytes | _ \<Rightarrow> [])"

lemmas client_send_defs = suse_create_req_def suse_join_req_def suse_close_req_def
  suse_wait_req_def suse_signal_req_def suse_schedule_next_send_def enviar_operacion_def

lemma op_int_inject: "op_int a = op_int b \<longleftrightarrow> a = b"
  by (cases a; cases b) simp_all

lemma tid_request:
  assumes "short_tid t" "itoa_decimal itoa" "2 \<le> length beyond"
  obtains v where "take 4 (c_string (itoa t) @ beyond) = v" "length v = 4"
    "4 \<le> length (c_string (itoa t) @ beyond)" "\<And>beyond'. atoi (v @ beyond') = Ret t"
proof -
  obtain pad where pad: "take 4 (c_string (itoa t) @ beyond) = c_string (dec_int t) @ pad"
      "length (c_string (dec_int t) @ pad) = 4" "4 \<le> length (c_string (itoa t) @ beyond)"
    using tid_bytes_short assms unfolding short_tid_def by metis
  moreover have "atoi ((c_string (dec_int t) @ pad) @ beyond') = Ret t" for beyond'
    using atoi_dec_int [of t "pad @ beyond'"] assms(1) by (simp add: short_tid_def)
  ultimately show thesis by (rule that)
qed

lemma client_send_bytes:
  assumes "ok_request r" "itoa_decimal itoa" "2 \<le> length beyond"
  shows "client_send itoa beyond r = Ret (0, request_bytes itoa beyond r) \<and>
    request_bytes itoa beyond r \<noteq> []"
proof -
  have t: "4 \<le> length (c_string (itoa t) @ beyond)" if "short_tid t" for t
    using tid_request [OF that assms(2,3)] by metis
  show ?thesis
    using assms(1)
    by (cases r) (simp_all add: request_bytes_def client_send_defs sem_name_ok_def
        send_tid_bytes [OF t] send_tid_sem_bytes [OF t] del: length_append)
qed

lemma send_read_tid:
  assumes "short_tid t" "itoa_decimal itoa" "2 \<le> length beyond"
    and "\<not> closed c" "send_tid True itoa beyond op t = Ret (0, bs)" "inbuf c = bs @ rest"
  shows "\<exists>c1. recibir_operacion indet c = (op_int op, c1) \<and>
    read_tid indet beyond' f c1 = Ret (f t, c\<lparr>inbuf := rest\<rparr>)"
proof -
  obtain v where v: "take 4 (c_string (itoa t) @ beyond) = v" "length v = 4"
      "4 \<le> length (c_string (itoa t) @ beyond)" "atoi (v @ beyond') = Ret t"
    using tid_request [OF assms(1-3)] by metis
  then have "inbuf c = le32 (op_int op) @ le32 8 @ payload [v] @ rest"
    using assms(5,6) by (simp add: send_tid_bytes del: length_append)
  with assms(4) v show ?thesis
    by (simp add: recibir_operacion_append read_tid_bytes)
qed

lemma send_read_tid_sem:
  assumes "short_tid t" "itoa_decimal itoa" "2 \<le> length beyond" "sem_name_ok sem"
    and "\<not> closed c" "send_tid_sem True itoa beyond op t (sem @ [0]) = Ret (0, bs)"
    and "inbuf c = bs @ rest"
  shows "\<exists>c1. recibir_operacion indet c = (op_int op, c1) \<and>
    read_tid_sem indet beyond' f c1 = Ret (f t sem, c\<lparr>inbuf := rest\<rparr>)"
proof -
  obtain v where v: "take 4 (c_string (itoa t) @ beyond) = v" "length v = 4"
      "4 \<le> length (c_string (itoa t) @ beyond)" "atoi (v @ beyond') = Ret t"
    using tid_request [OF assms(1-3)] by metis
  then have "inbuf c = le32 (op_int op) @ le32 (of_nat (length sem + 13)) @
      payload [v, sem @ [0]] @ rest"
    using assms(4,6,7)
    by (simp add: send_tid_sem_bytes sem_name_ok_def del: length_append)
  with assms(4,5) v show ?thesis
    by (simp add: recibir_operacion_append read_tid_sem_bytes sem_name_ok_def)
qed

lemma read_request_bytes:
  assumes "ok_request r" "itoa_decimal itoa" "2 \<le> length beyond"
    and "\<not> closed c" "inbuf c = request_bytes itoa beyond r @ rest"
  shows "read_request indet beyond' c = Ret (r, c\<lparr>inbuf := rest\<rparr>)"
proof -
  have sent: "client_send itoa beyond r = Ret (0, request_bytes itoa beyond r)"
    using client_send_bytes [OF assms(1-3)] by simp
  note tid = send_read_tid [OF _ assms(2,3,4) _ assms(5)]
    and sem = send_read_tid_sem [OF _ assms(2,3) _ assms(4) _ assms(5)]
  show ?thesis
  proof (cases r)
    case (Create t)
    with tid [of t SUSE_CREATE indet beyond' Create] sent assms(1) show ?thesis
      by (auto simp: read_request_def client_send_defs)
  next
    case (Join t)
    with tid [of t SUSE_JOIN indet beyond' Join] sent assms(1) show ?thesis
      by (auto simp: read_request_def client_send_defs)
  next
    case (Close t)
    with tid [of t SUSE_CLOSE indet beyond' Close] sent assms(1) show ?thesis
      by (auto simp: read_request_def client_send_defs)
  next
    case (Wait t s)
    with sem [of t s SUSE_WAIT indet beyond' Wait] sent assms(1) show ?thesis
      by (auto simp: read_request_def client_send_defs)
  next
    case (Signal t s)
    with sem [of t s SUSE_SIGNAL indet beyond' Signal] sent assms(1) show ?thesis
      by (auto simp: read_request_def client_send_defs)
  next
    case ScheduleNext
    with assms(4,5) show ?thesis
      by (simp add: request_bytes_def client_send_defs read_request_def recibir_operacion_append)
  qed (use assms(1) in simp_all)
qed

section \<open>Streams of messages\<close>

text \<open>Reading \<open>n\<close> messages from a stream, one after the other.\<close>

fun decode_n :: "('s \<Rightarrow> ('a \<times> 's) outcome) \<Rightarrow> nat \<Rightarrow> 's \<Rightarrow> ('a list \<times> 's) outcome" where
  "decode_n dec 0 s = Ret ([], s)"
| "decode_n dec (Suc n) s =
     obind (dec s) (\<lambda>(x, s'). obind (decode_n dec n s') (\<lambda>(xs, s''). Ret (x # xs, s'')))"

text \<open>
  The contract between a sender and a receiver that share a stream: the bytes of an admissible
  message are not empty, and the receiver takes exactly them off the front, whatever follows.
\<close>

locale framing =
  fixes enc :: "'a \<Rightarrow> byte list"
    and dec :: "chan \<Rightarrow> ('a \<times> chan) outcome"
    and ok :: "'a \<Rightarrow> bool"
  assumes enc_not_Nil: "ok x \<Longrightarrow> enc x \<noteq> []"
    and dec_enc: "ok x \<Longrightarrow> \<not> closed c \<Longrightarrow> inbuf c = enc x @ rest \<Longrightarrow>
      dec c = Ret (x, c\<lparr>inbuf := rest\<rparr>)"
begin

lemma decode_stream:
  "list_all ok xs \<Longrightarrow> \<not> closed c \<Longrightarrow> inbuf c = concat (map enc xs) @ rest \<Longrightarrow>
   decode_n dec (length xs) c = Ret (xs, c\<lparr>inbuf := rest\<rparr>)"
proof (induction xs arbitrary: c)
  case Nil
  then show ?case by simp
next
  case (Cons x xs)
  let ?c = "c\<lparr>inbuf := concat (map enc xs) @ rest\<rparr>"
  have "dec c = Ret (x, ?c)"
    using Cons.prems by (intro dec_enc) simp_all
  moreover have "decode_n dec (length xs) ?c = Ret (xs, ?c\<lparr>inbuf := rest\<rparr>)"
    using Cons.prems by (intro Cons.IH) simp_all
  ultimately show ?case by simp
qed

text \<open>No two sequences of messages are the same bytes.\<close>

lemma stream_inject:
  "list_all ok xs \<Longrightarrow> list_all ok ys \<Longrightarrow> concat (map enc xs) = concat (map enc ys) \<Longrightarrow> xs = ys"
proof (induction xs arbitrary: ys)
  case Nil
  then show ?case
    using enc_not_Nil by (cases ys) auto
next
  case (Cons x xs)
  then obtain y ys' where ys: "ys = y # ys'"
    using enc_not_Nil by (cases ys) auto
  let ?c = "\<lparr>inbuf = concat (map enc (x # xs)), broken = False, closed = False\<rparr>"
  have "dec ?c = Ret (x, ?c\<lparr>inbuf := concat (map enc xs)\<rparr>)"
    using Cons.prems(1) by (intro dec_enc) simp_all
  moreover have "dec ?c = Ret (y, ?c\<lparr>inbuf := concat (map enc ys')\<rparr>)"
    using Cons.prems by (intro dec_enc) (simp_all add: ys)
  ultimately have "x = y" "concat (map enc xs) = concat (map enc ys')"
    by simp_all
  with Cons.IH [of ys'] Cons.prems show ?case
    by (simp add: ys)
qed

end

text \<open>Hilolay and SUSE keep that contract for requests with thread ids of at most three digits.\<close>

interpretation suse: framing "request_bytes itoa beyond" "read_request indet beyond'"
    "\<lambda>r. ok_request r \<and> itoa_decimal itoa \<and> 2 \<le> length beyond"
  for itoa beyond indet beyond'
  by unfold_locales (use client_send_bytes read_request_bytes in blast)+

text \<open>
  What a user program sends with a function of hilolay - an admissible request, with a thread
  id from 0 to 999 and a semaphore name without terminator - is what \<open>schedule_short_term\<close> reads
  at the other end, whatever memory lies behind the strings and blocks involved and whatever bytes
  follow on the connection; those bytes are left for the next request.
\<close>

theorem request_roundtrip:
  assumes "ok_request r" "itoa_decimal itoa" "2 \<le> length beyond"
  shows "\<exists>bytes. client_send itoa beyond r = Ret (0, bytes) \<and>
    read_request indet beyond' \<lparr>inbuf = bytes @ rest, broken = b, closed = False\<rparr> =
      Ret (r, \<lparr>inbuf = rest, broken = b, closed = False\<rparr>)"
  using client_send_bytes [OF assms] read_request_bytes [OF assms] by fastforce

theorem request_roundtrip_witness:
  "\<exists>bytes. client_send dec_int [0, 0] (Wait 7 [97, 98]) = Ret (0, bytes) \<and>
    read_request (\<lambda>i. 255) [55, 55] \<lparr>inbuf = bytes @ [1, 2, 3], broken = False, closed = False\<rparr> =
      Ret (Wait 7 [97, 98], \<lparr>inbuf = [1, 2, 3], broken = False, closed = False\<rparr>)"
  by (rule request_roundtrip) (simp_all add: short_tid_def sem_name_ok_def itoa_decimal_def)

text \<open>
  C21: A whole session with short ids is read as it was sent: the requests of a program, concatenated on
  the connection, are decoded one by one into the same sequence, with nothing left over; and two
  different sessions never have the same bytes. Thread ids are from 0 to 999, and the names of
  semaphores have no zero byte and less than \<open>2 ^ 30\<close> bytes; ids are printed in decimal, and two
  bytes can be read behind their text. Ids from 10000 on arrive truncated (\<open>long_tid_truncated\<close>).
\<close>

theorem session_roundtrip:
  assumes "list_all ok_request rs" "list_all ok_request rs'"
    and "itoa_decimal itoa" "2 \<le> length beyond"
  shows "decode_n (read_request indet beyond') (length rs)
      \<lparr>inbuf = concat (map (request_bytes itoa beyond) rs), broken = b, closed = False\<rparr> =
      Ret (rs, \<lparr>inbuf = [], broken = b, closed = False\<rparr>) \<and>
    (concat (map (request_bytes itoa beyond) rs) = concat (map (request_bytes itoa beyond) rs')
      \<longrightarrow> rs = rs')"
proof -
  have ok: "list_all (\<lambda>r. ok_request r \<and> itoa_decimal itoa \<and> 2 \<le> length beyond) rs"
    "list_all (\<lambda>r. ok_request r \<and> itoa_decimal itoa \<and> 2 \<le> length beyond) rs'"
    using assms by (simp_all add: list_all_iff)
  show ?thesis
    using suse.decode_stream [OF ok(1), where rest = "[]"] suse.stream_inject [OF ok] by auto
qed

theorem session_roundtrip_witness:
  "decode_n (read_request (\<lambda>i. 0) []) 2
      \<lparr>inbuf = concat (map (request_bytes dec_int [0, 0]) [Create 0, ScheduleNext]),
       broken = False, closed = False\<rparr> =
      Ret ([Create 0, ScheduleNext], \<lparr>inbuf = [], broken = False, closed = False\<rparr>)"
  using session_roundtrip [of "[Create 0, ScheduleNext]" "[]" dec_int "[0, 0]" "\<lambda>i. 0" "[]" False]
  by (simp add: short_tid_def itoa_decimal_def numeral_2_eq_2 del: decode_n.simps)


text \<open>
  The reply comes back as well: the thread id that \<open>notify_program\<close> sends is the one
  \<open>suse_schedule_next\<close> returns, for ids from 0 to 999.
\<close>

theorem reply_roundtrip:
  assumes "short_tid t" "itoa_decimal itoa" "2 \<le> length beyond"
  shows "\<exists>bytes. notify_program_bytes True itoa beyond t = Ret bytes \<and>
    suse_schedule_next_recv indet beyond'
      \<lparr>inbuf = bytes @ rest, broken = b, closed = False\<rparr> =
      Ret (t, \<lparr>inbuf = rest, broken = b, closed = False\<rparr>)"
proof -
  obtain v where v: "take 4 (c_string (itoa t) @ beyond) = v" "length v = 4"
      "4 \<le> length (c_string (itoa t) @ beyond)" "\<And>beyond'. atoi (v @ beyond') = Ret t"
    using tid_request [OF assms] by metis
  let ?op = "op_int SUSE_SCHEDULE_NEXT_RETURN"
  let ?bytes = "le32 ?op @ le32 8 @ payload [v]"
  have "notify_program_bytes True itoa beyond t = Ret ?bytes"
    using agregar_tid [OF v(3), of ?op] enviar_packet_of [of "[v]" ?op] v(1,2)
    by (simp add: notify_program_bytes_def)
  moreover have "recibir_paquete indet \<lparr>inbuf = le32 8 @ payload [v] @ rest, broken = b,
      closed = False\<rparr> = Ret ([v], \<lparr>inbuf = rest, broken = b, closed = False\<rparr>)"
    using recibir_paquete_append [of "\<lparr>inbuf = le32 8 @ payload [v] @ rest, broken = b,
      closed = False\<rparr>" "[v]" rest indet] v(2) by simp
  then have "suse_schedule_next_recv indet beyond'
      \<lparr>inbuf = ?bytes @ rest, broken = b, closed = False\<rparr> =
      Ret (t, \<lparr>inbuf = rest, broken = b, closed = False\<rparr>)"
    using v(4) by (simp add: suse_schedule_next_recv_def recibir_operacion_append value_at_def)
  ultimately show ?thesis by blast
qed

theorem reply_roundtrip_witness:
  "\<exists>bytes. notify_program_bytes True dec_int [0, 0] 42 = Ret bytes \<and>
    suse_schedule_next_recv (\<lambda>_. 0) [57] \<lparr>inbuf = bytes @ [], broken = False, closed = False\<rparr> =
      Ret (42, \<lparr>inbuf = [], broken = False, closed = False\<rparr>)"
  by (rule reply_roundtrip) (simp_all add: short_tid_def itoa_decimal_def)

lemma dec_nat_snoc:
  "10 \<le> n \<Longrightarrow> dec_nat n = dec_nat (n div 10) @ [digit_char (n mod 10)]"
  by (subst dec_nat.simps) simp

lemma length_dec_nat_4: "1000 \<le> n \<Longrightarrow> n < 10000 \<Longrightarrow> length (dec_nat n) = 4"
  using length_dec_nat [of n 2] length_dec_nat [of n 3] by simp

text \<open>
  Thread ids of five digits do not survive: the request carries four bytes of the string, so
  SUSE creates a thread with the last digit cut off - provided the byte behind the received block
  happens to be no digit, since the four bytes carry no terminator.
\<close>

theorem long_tid_truncated:
  assumes "10000 \<le> t" "t < 100000" "itoa_decimal itoa" "\<not> is_digit e"
  shows "\<exists>bytes. client_send itoa beyond (Create t) = Ret (0, bytes) \<and>
    read_request indet (e # es) \<lparr>inbuf = bytes, broken = b, closed = False\<rparr> =
      Ret (Create (t div 10), \<lparr>inbuf = [], broken = b, closed = False\<rparr>)"
proof -
  define v :: "byte list" where "v = map of_char (dec_nat (nat t div 10))"
  have v: "length v = 4"
    using length_dec_nat_4 [of "nat t div 10"] assms(1,2) by (simp add: v_def)
  have "dec_nat (nat t) = dec_nat (nat t div 10) @ [digit_char (nat t mod 10)]"
    using assms(1) by (intro dec_nat_snoc) simp
  then have str: "take 4 (c_string (itoa t) @ beyond) = v" "4 \<le> length (c_string (itoa t) @ beyond)"
    using assms(1,3) v by (simp_all add: itoa_decimal_def dec_int_def c_string_def v_def)
  have "atoi (v @ e # es) = Ret (int (nat t div 10))"
    unfolding v_def by (rule atoi_dec_nat) (use assms in simp_all)
  then have atoi: "atoi (v @ e # es) = Ret (t div 10)"
    using assms(1) by (simp add: zdiv_int)
  let ?bytes = "le32 (op_int SUSE_CREATE) @ le32 8 @ payload [v]"
  have "client_send itoa beyond (Create t) = Ret (0, ?bytes)"
    using send_tid_bytes [of itoa t beyond SUSE_CREATE] str
    by (simp only: str(1) client_send.simps client_send_defs)
  moreover have "read_request indet (e # es) \<lparr>inbuf = ?bytes, broken = b, closed = False\<rparr> =
      Ret (Create (t div 10), \<lparr>inbuf = [], broken = b, closed = False\<rparr>)"
    using read_tid_bytes [of "\<lparr>inbuf = le32 8 @ payload [v], broken = b, closed = False\<rparr>" v "[]"
      "e # es" "t div 10" indet Create] atoi v
    by (simp add: read_request_def recibir_operacion_append)
  ultimately show ?thesis by blast
qed

theorem long_tid_truncated_witness:
  "\<exists>bytes. client_send dec_int [] (Create 12345) = Ret (0, bytes) \<and>
    read_request (\<lambda>_. 0) (0 # []) \<lparr>inbuf = bytes, broken = False, closed = False\<rparr> =
      Ret (Create (12345 div 10), \<lparr>inbuf = [], broken = False, closed = False\<rparr>)"
  by (rule long_tid_truncated) (simp_all add: itoa_decimal_def is_digit_def)

end
