(* ===== verification/SuseState.thy ===== *)
theory SuseState
  imports Burst Protocol
begin

text \<open>
  The state of the SUSE scheduler and the functions of
  \<^verbatim>\<open>planificacion/suse/suse_scheduler.c\<close> that search it and move threads between its lists.

  Thread control blocks, programs and semaphores live in heaps and are shared by pointer, as in the
  code: a thread in \<open>blockedList\<close> is also on the list of whatever it waits for. Counting semaphores
  are numbers, and waiting on 0 is \<open>Hang\<close>. A function stands for the code between taking and
  releasing \<open>state_list_mutex\<close>, which makes it atomic for the other threads of the process.
\<close>

section \<open>State\<close>

datatype mutex = Unlocked | Locked | Destroyed

record t_tcb =
  tcb_socket :: int
  tid :: int
  tcb_state :: t_state
  tcb_time :: t_burst
  joined :: "ptr list"

record t_program =
  prog_id :: int
  prog_socket :: int
  ready :: "ptr list"
  exec :: ptr
  tcb_counter :: nat
  wakeupList :: "ptr list"
  main_loaded_mutex :: mutex
  prog_close :: bool

record t_semaforo =
  sem_id :: "byte list"
  valor :: int
  max_value :: int
  blocked :: "ptr list"

text \<open>What the metrics log gets: one value per group of lines, its numbers before formatting.\<close>

record thread_metric =
  m_prog :: int
  m_tid :: int
  m_state :: t_state
  m_life :: cfloat
  m_wait :: cfloat
  m_cpu :: cfloat
  m_percent :: cfloat

datatype metric =
  ThreadFinished
| ThreadMetric thread_metric
| ProgramMetric int int int int int int
| SemaphoreMetric "byte list" int
| DegreeMetric int

record suse =
  tcbs :: "ptr \<Rightarrow> t_tcb option"
  progs :: "ptr \<Rightarrow> t_program option"
  sems :: "ptr \<Rightarrow> t_semaforo option"
  clientes :: "ptr list"
  semaforos :: "ptr list"
  newList :: "ptr list"
  blockedList :: "ptr list"
  exitList :: "ptr list"
  multiprog_degree :: int
  program_id_counter :: int
  new_counter :: nat
  available_multiprog :: nat
  ticks :: nat
  mallocs :: nat
  sent :: "(int \<times> byte list) list"
  mlog :: "metric list"
  endsuse :: bool

text \<open>
  The surroundings: the clock, the configured \<open>alpha_sjf\<close>, the conversion of so-commons and the
  memory behind its strings, what fresh blocks hold, which allocations and sends fail.
\<close>

record suse_env =
  tod :: clock
  alpha_sjf :: cfloat
  env_itoa :: "int \<Rightarrow> string"
  env_beyond :: "byte list"
  uninit_burst :: t_burst
  uninit_close :: bool
  oom :: "nat \<Rightarrow> bool"
  env_send_ok :: bool

section \<open>Searching\<close>

fun find_tcb_from :: "(ptr \<Rightarrow> t_tcb option) \<Rightarrow> int \<Rightarrow> ptr list \<Rightarrow> int \<Rightarrow> int \<Rightarrow> int outcome" where
  "find_tcb_from h i [] t sock = Ret (- 1)"
| "find_tcb_from h i (p # ps) t sock =
     obind (deref h p) (\<lambda>tcb.
       if tid tcb = t \<and> tcb_socket tcb = sock then Ret i else find_tcb_from h (i + 1) ps t sock)"

definition find_tcb_pos :: "suse \<Rightarrow> ptr list \<Rightarrow> int \<Rightarrow> int \<Rightarrow> int outcome" where
  "find_tcb_pos s list t sock = find_tcb_from (tcbs s) 0 list t sock"

fun find_program_from :: "(ptr \<Rightarrow> t_program option) \<Rightarrow> int \<Rightarrow> ptr list \<Rightarrow> int \<Rightarrow> int outcome" where
  "find_program_from h i [] sock = Ret (- 1)"
| "find_program_from h i (c # cs) sock =
     obind (deref h c) (\<lambda>program.
       if prog_socket program = sock then Ret i else find_program_from h (i + 1) cs sock)"

definition find_program_pos :: "suse \<Rightarrow> int \<Rightarrow> int outcome" where
  "find_program_pos s sock = find_program_from (progs s) 0 (clientes s) sock"

definition is_program_loaded :: "suse \<Rightarrow> int \<Rightarrow> bool outcome" where
  "is_program_loaded s sock = obind (find_program_pos s sock) (\<lambda>pos. Ret (pos \<noteq> - 1))"

definition get_program :: "suse \<Rightarrow> int \<Rightarrow> ptr outcome" where
  "get_program s sock =
     obind (find_program_pos s sock) (\<lambda>pos.
       let program = list_get (clientes s) pos in
       Ret (if pos = - 1 then NULL else program))"

fun get_program_id_from :: "(ptr \<Rightarrow> t_program option) \<Rightarrow> ptr list \<Rightarrow> int \<Rightarrow> int outcome" where
  "get_program_id_from h [] sock = Ret (- 1)"
| "get_program_id_from h (c # cs) sock =
     obind (deref h c) (\<lambda>program.
       if prog_socket program = sock then Ret (prog_id program) else get_program_id_from h cs sock)"

definition get_program_id :: "suse \<Rightarrow> int \<Rightarrow> int outcome" where
  "get_program_id s sock = get_program_id_from (progs s) (clientes s) sock"

fun get_semaforo_from :: "(ptr \<Rightarrow> t_semaforo option) \<Rightarrow> ptr list \<Rightarrow> byte list \<Rightarrow> ptr outcome" where
  "get_semaforo_from h [] name = Ret NULL"
| "get_semaforo_from h (m # ms) name =
     obind (deref h m) (\<lambda>semaforo.
       if sem_id semaforo = name then Ret m else get_semaforo_from h ms name)"

definition get_semaforo :: "suse \<Rightarrow> byte list \<Rightarrow> ptr outcome" where
  "get_semaforo s name = get_semaforo_from (sems s) (semaforos s) name"

definition get_new_tcb :: "suse \<Rightarrow> ptr" where
  "get_new_tcb s = list_get (newList s) 0"

section \<open>The degree of multiprogramming\<close>

definition increase_multiprog :: "suse \<Rightarrow> suse outcome" where
  "increase_multiprog s =
     (if available_multiprog s = 0 then Hang
      else Ret (s\<lparr>available_multiprog := available_multiprog s - 1,
        multiprog_degree := multiprog_degree s + 1\<rparr>))"

definition decrease_multiprog :: "suse \<Rightarrow> suse" where
  "decrease_multiprog s =
     s\<lparr>available_multiprog := available_multiprog s + 1,
       multiprog_degree := multiprog_degree s - 1\<rparr>"

definition check_multiprog :: "suse \<Rightarrow> suse outcome" where
  "check_multiprog s = (if available_multiprog s = 0 then Hang else Ret s)"

section \<open>Moving a thread\<close>

definition set_tcb :: "ptr \<Rightarrow> t_tcb \<Rightarrow> suse \<Rightarrow> suse" where
  "set_tcb p tcb s = s\<lparr>tcbs := (tcbs s)(p \<mapsto> tcb)\<rparr>"

definition set_prog :: "ptr \<Rightarrow> t_program \<Rightarrow> suse \<Rightarrow> suse" where
  "set_prog c program s = s\<lparr>progs := (progs s)(c \<mapsto> program)\<rparr>"

definition program_remove_tcb_from_state :: "int \<Rightarrow> int \<Rightarrow> t_state \<Rightarrow> suse \<Rightarrow> suse outcome" where
  "program_remove_tcb_from_state sock t st s =
     obind (get_program s sock) (\<lambda>c.
       if st = READY then
         obind (deref (progs s) c) (\<lambda>program.
         obind (find_tcb_pos s (ready program) t sock) (\<lambda>tcb_pos.
         obind (list_remove (ready program) tcb_pos) (\<lambda>(_, ready').
           if tcb_counter program = 0 then Hang
           else Ret (set_prog c (program\<lparr>ready := ready', tcb_counter := tcb_counter program - 1\<rparr>) s))))
       else if st = EXEC then
         obind (deref (progs s) c) (\<lambda>program. Ret (set_prog c (program\<lparr>exec := NULL\<rparr>) s))
       else Ret s)"

definition program_add_tcb_to_state :: "ptr \<Rightarrow> t_state \<Rightarrow> suse \<Rightarrow> suse outcome" where
  "program_add_tcb_to_state p st s =
     obind (deref (tcbs s) p) (\<lambda>tcb.
     obind (get_program s (tcb_socket tcb)) (\<lambda>c.
       if st = READY then
         obind (deref (progs s) c) (\<lambda>program.
           Ret (set_prog c (program\<lparr>ready := ready program @ [p],
             tcb_counter := tcb_counter program + 1\<rparr>) s))
       else if st = EXEC then
         obind (deref (progs s) c) (\<lambda>program. Ret (set_prog c (program\<lparr>exec := p\<rparr>) s))
       else Ret s))"

text \<open>\<open>list_remove(list, find_tcb_pos(list, ...))\<close>, as \<open>move_tcb_to\<close> does it on three lists.\<close>

definition remove_tcb_pos :: "suse \<Rightarrow> ptr list \<Rightarrow> t_tcb \<Rightarrow> ptr list outcome" where
  "remove_tcb_pos s list tcb =
     obind (find_tcb_pos s list (tid tcb) (tcb_socket tcb)) (\<lambda>pos.
     obind (list_remove list pos) (\<lambda>(_, list'). Ret list'))"

text \<open>The first switch of \<open>move_tcb_to\<close>: out of the list of the old state.\<close>

definition leave_state :: "suse_env \<Rightarrow> ptr \<Rightarrow> suse \<Rightarrow> suse outcome" where
  "leave_state E p s =
     obind (deref (tcbs s) p) (\<lambda>tcb.
       case tcb_state tcb of
         NEW \<Rightarrow> obind (remove_tcb_pos s (newList s) tcb) (\<lambda>l. Ret (s\<lparr>newList := l\<rparr>))
       | READY \<Rightarrow>
           let (b, k) = set_new_timings_for (tod E) READY (tcb_time tcb) (ticks s);
             s1 = (set_tcb p (tcb\<lparr>tcb_time := b\<rparr>) s)\<lparr>ticks := k\<rparr> in
           obind (program_remove_tcb_from_state (tcb_socket tcb) (tid tcb) (tcb_state tcb) s1) (\<lambda>s2.
             Ret (decrease_multiprog s2))
       | EXEC \<Rightarrow>
           let (b, k) = set_new_timings_for (tod E) EXEC (tcb_time tcb) (ticks s);
             s1 = (set_tcb p (tcb\<lparr>tcb_time := b\<rparr>) s)\<lparr>ticks := k\<rparr> in
           obind (program_remove_tcb_from_state (tcb_socket tcb) (tid tcb) (tcb_state tcb) s1) (\<lambda>s2.
             Ret (decrease_multiprog s2))
       | BLOCKED \<Rightarrow>
           obind (remove_tcb_pos s (blockedList s) tcb) (\<lambda>l.
             Ret (decrease_multiprog (s\<lparr>blockedList := l\<rparr>)))
       | EXIT \<Rightarrow> obind (remove_tcb_pos s (exitList s) tcb) (\<lambda>l. Ret (s\<lparr>exitList := l\<rparr>)))"

text \<open>The second switch: into the list of the new state.\<close>

definition enter_state :: "suse_env \<Rightarrow> ptr \<Rightarrow> t_state \<Rightarrow> suse \<Rightarrow> suse outcome" where
  "enter_state E p st s =
     obind (deref (tcbs s) p) (\<lambda>tcb.
       case st of
         NEW \<Rightarrow> Ret (s\<lparr>newList := newList s @ [p]\<rparr>)
       | READY \<Rightarrow>
           let (b, k) = set_state_start_timing (tod E) READY (tcb_time tcb) (ticks s);
             s1 = (set_tcb p (tcb\<lparr>tcb_time := b\<rparr>) s)\<lparr>ticks := k\<rparr> in
           obind (program_add_tcb_to_state p READY s1) increase_multiprog
       | EXEC \<Rightarrow>
           let (b, k) = set_state_start_timing (tod E) EXEC (tcb_time tcb) (ticks s);
             s1 = (set_tcb p (tcb\<lparr>tcb_time := b\<rparr>) s)\<lparr>ticks := k\<rparr> in
           obind (program_add_tcb_to_state p EXEC s1) increase_multiprog
       | BLOCKED \<Rightarrow> increase_multiprog (s\<lparr>blockedList := blockedList s @ [p]\<rparr>)
       | EXIT \<Rightarrow>
           let s1 = (set_tcb p (tcb\<lparr>tcb_time := (tcb_time tcb)\<lparr>finished := tod E (ticks s)\<rparr>\<rparr>) s)
             \<lparr>ticks := Suc (ticks s)\<rparr> in
           Ret (s1\<lparr>exitList := exitList s1 @ [p]\<rparr>))"

definition move_tcb_to :: "suse_env \<Rightarrow> ptr \<Rightarrow> t_state \<Rightarrow> suse \<Rightarrow> suse outcome" where
  "move_tcb_to E p st s =
     obind (deref (tcbs s) p) (\<lambda>tcb.
       if tcb_state tcb = st then Ret s
       else
         obind (get_program_id s (tcb_socket tcb)) (\<lambda>_.
         obind (leave_state E p s) (\<lambda>s1.
         obind (enter_state E p st s1) (\<lambda>s2.
         obind (deref (tcbs s2) p) (\<lambda>tcb'.
           Ret (set_tcb p (tcb'\<lparr>tcb_state := st\<rparr>) s2))))))"

end
