(* ===== verification/SuseMetrics.thy ===== *)
theory SuseMetrics
  imports SuseState
begin

text \<open>
  The metrics of SUSE: \<open>log_metrics\<close> and the functions it calls in
  \<^verbatim>\<open>planificacion/suse/suse_scheduler.c\<close>. The log is a list of values; the text and the
  rounding of the printed numbers are left out.
\<close>

section \<open>Operations\<close>

fun sum_exec :: "(ptr \<Rightarrow> t_tcb option) \<Rightarrow> int \<Rightarrow> ptr list \<Rightarrow> cfloat \<times> cfloat \<Rightarrow>
    (cfloat \<times> cfloat) outcome" where
  "sum_exec h t [] acc = Ret acc"
| "sum_exec h t (p # ps) (actual, suma) =
     obind (deref h p) (\<lambda>thread.
       sum_exec h t ps
         (if tid thread = t then total_exec (tcb_time thread) else actual,
          fadd suma (total_exec (tcb_time thread))))"

definition get_exec_percentage ::
  "clock \<Rightarrow> suse \<Rightarrow> t_program \<Rightarrow> int \<Rightarrow> ptr list \<Rightarrow> nat \<Rightarrow> (cfloat \<times> nat) outcome" where
  "get_exec_percentage clk s program t sharedThreads k =
     (if exec program = NULL \<and> ready program = [] \<and> sharedThreads = [] then Ret (0, k)
      else
        obind (if exec program \<noteq> NULL then
            obind (deref (tcbs s) (exec program)) (\<lambda>e.
            obind (get_total_for clk EXEC (tcb_time e) k) (\<lambda>(suma, k').
              Ret (if tid e = t then suma else 0, suma, k')))
          else Ret (0, 0, k)) (\<lambda>(actual0, suma0, k').
        obind (sum_exec (tcbs s) t (ready program) (actual0, suma0)) (\<lambda>acc.
        obind (sum_exec (tcbs s) t sharedThreads acc) (\<lambda>(actual, suma).
          Ret (if suma \<noteq> 0 then fdiv (fmul actual 100) suma else 0, k')))))"

fun list_size_from :: "(ptr \<Rightarrow> t_tcb option) \<Rightarrow> int \<Rightarrow> ptr list \<Rightarrow> int outcome" where
  "list_size_from h sock [] = Ret 0"
| "list_size_from h sock (p # ps) =
     obind (deref h p) (\<lambda>tcb.
     obind (list_size_from h sock ps) (\<lambda>n.
       Ret (if tcb_socket tcb = sock then n + 1 else n)))"

definition get_list_size_for :: "suse \<Rightarrow> t_program \<Rightarrow> t_state \<Rightarrow> int outcome" where
  "get_list_size_for s program st =
     (case st of
        NEW \<Rightarrow> list_size_from (tcbs s) (prog_socket program) (newList s)
      | BLOCKED \<Rightarrow> list_size_from (tcbs s) (prog_socket program) (blockedList s)
      | EXIT \<Rightarrow> list_size_from (tcbs s) (prog_socket program) (exitList s)
      | _ \<Rightarrow> Ret (- 1))"

fun filter_socket :: "(ptr \<Rightarrow> t_tcb option) \<Rightarrow> int \<Rightarrow> ptr list \<Rightarrow> ptr list outcome" where
  "filter_socket h sock [] = Ret []"
| "filter_socket h sock (p # ps) =
     obind (deref h p) (\<lambda>tcb.
     obind (filter_socket h sock ps) (\<lambda>qs.
       Ret (if tcb_socket tcb = sock then p # qs else qs)))"

definition find_all_my_shared_threads :: "suse \<Rightarrow> t_program \<Rightarrow> ptr list outcome" where
  "find_all_my_shared_threads s program =
     obind (filter_socket (tcbs s) (prog_socket program) (newList s)) (\<lambda>a.
     obind (filter_socket (tcbs s) (prog_socket program) (blockedList s)) (\<lambda>b.
     obind (filter_socket (tcbs s) (prog_socket program) (exitList s)) (\<lambda>c.
       Ret (a @ b @ c))))"

definition print_thread_metrics ::
  "clock \<Rightarrow> suse \<Rightarrow> t_tcb \<Rightarrow> t_program \<Rightarrow> ptr list \<Rightarrow> nat \<Rightarrow> (thread_metric \<times> nat) outcome" where
  "print_thread_metrics clk s tcb program sharedThreads k =
     (let line = (\<lambda>life wait cpu percent.
        \<lparr>m_prog = prog_id program, m_tid = tid tcb, m_state = tcb_state tcb, m_life = life,
         m_wait = wait, m_cpu = cpu, m_percent = percent\<rparr>);
        life = get_ms_difference_between (created (tcb_time tcb)) (clk k) in
      case tcb_state tcb of
        NEW \<Rightarrow> Ret (line life 0 0 0, Suc k)
      | READY \<Rightarrow>
          obind (get_total_for clk READY (tcb_time tcb) (Suc k)) (\<lambda>(w, k1).
          obind (get_exec_percentage clk s program (tid tcb) sharedThreads k1) (\<lambda>(pc, k2).
            Ret (line life w (total_exec (tcb_time tcb)) pc, k2)))
      | EXEC \<Rightarrow>
          obind (deref (tcbs s) (exec program)) (\<lambda>e.
          obind (get_total_for clk EXEC (tcb_time e) (Suc k)) (\<lambda>(x, k1).
          obind (get_exec_percentage clk s program (tid tcb) sharedThreads k1) (\<lambda>(pc, k2).
            Ret (line life (total_ready (tcb_time e)) x pc, k2))))
      | BLOCKED \<Rightarrow>
          obind (get_exec_percentage clk s program (tid tcb) sharedThreads (Suc k)) (\<lambda>(pc, k2).
            Ret (line life (total_ready (tcb_time tcb)) (total_exec (tcb_time tcb)) pc, k2))
      | EXIT \<Rightarrow>
          obind (get_exec_percentage clk s program (tid tcb) sharedThreads k) (\<lambda>(pc, k2).
            Ret (line (get_ms_difference_between (created (tcb_time tcb)) (finished (tcb_time tcb)))
              (total_ready (tcb_time tcb)) (total_exec (tcb_time tcb)) pc, k2)))"

text \<open>\<open>print_thread_metrics\<close> for each thread of a list, as the loops of \<open>log_metrics\<close> call it.\<close>

fun print_all :: "clock \<Rightarrow> suse \<Rightarrow> t_program \<Rightarrow> ptr list \<Rightarrow> ptr list \<Rightarrow> nat \<Rightarrow>
    (thread_metric list \<times> nat) outcome" where
  "print_all clk s program sharedThreads [] k = Ret ([], k)"
| "print_all clk s program sharedThreads (p # ps) k =
     obind (deref (tcbs s) p) (\<lambda>thread.
     obind (print_thread_metrics clk s thread program sharedThreads k) (\<lambda>(l, k1).
     obind (print_all clk s program sharedThreads ps k1) (\<lambda>(ls, k2). Ret (l # ls, k2))))"

text \<open>\<open>log_metrics\<close> for one thread, and for all of them.\<close>

definition log_metrics_thread :: "clock \<Rightarrow> ptr \<Rightarrow> suse \<Rightarrow> suse outcome" where
  "log_metrics_thread clk p s =
     obind (deref (tcbs s) p) (\<lambda>tcb.
     obind (get_program s (tcb_socket tcb)) (\<lambda>c.
     obind (deref (progs s) c) (\<lambda>program.
     obind (find_all_my_shared_threads s program) (\<lambda>auxList.
     obind (print_thread_metrics clk s tcb program auxList (ticks s)) (\<lambda>(l, k).
       Ret (s\<lparr>ticks := k, mlog := mlog s @ [ThreadFinished, ThreadMetric l]\<rparr>))))))"

fun program_threads_metrics :: "clock \<Rightarrow> suse \<Rightarrow> ptr list \<Rightarrow> nat \<Rightarrow>
    (metric list \<times> nat) outcome" where
  "program_threads_metrics clk s [] k = Ret ([], k)"
| "program_threads_metrics clk s (c # cs) k =
     obind (deref (progs s) c) (\<lambda>program.
     obind (find_all_my_shared_threads s program) (\<lambda>auxList.
     obind (print_all clk s program auxList
         ((if exec program \<noteq> NULL then [exec program] else []) @ ready program @ auxList) k)
       (\<lambda>(ls, k1).
     obind (program_threads_metrics clk s cs k1) (\<lambda>(rest, k2).
       Ret (map ThreadMetric ls @ rest, k2)))))"

fun program_metrics :: "suse \<Rightarrow> ptr list \<Rightarrow> metric list outcome" where
  "program_metrics s [] = Ret []"
| "program_metrics s (c # cs) =
     obind (deref (progs s) c) (\<lambda>program.
     obind (get_list_size_for s program NEW) (\<lambda>n.
     obind (get_list_size_for s program BLOCKED) (\<lambda>b.
     obind (get_list_size_for s program EXIT) (\<lambda>e.
     obind (program_metrics s cs) (\<lambda>rest.
       Ret (ProgramMetric (prog_id program) n (int (length (ready program)))
         (if exec program \<noteq> NULL then 1 else 0) b e # rest))))))"

fun semaphore_metrics :: "(ptr \<Rightarrow> t_semaforo option) \<Rightarrow> ptr list \<Rightarrow> metric list outcome" where
  "semaphore_metrics h [] = Ret []"
| "semaphore_metrics h (m # ms) =
     obind (deref h m) (\<lambda>semaforo.
     obind (semaphore_metrics h ms) (\<lambda>rest.
       Ret (SemaphoreMetric (sem_id semaforo) (valor semaforo) # rest)))"

definition log_metrics_all :: "clock \<Rightarrow> suse \<Rightarrow> suse outcome" where
  "log_metrics_all clk s =
     obind (program_threads_metrics clk s (clientes s) (ticks s)) (\<lambda>(threads, k).
     obind (program_metrics s (clientes s)) (\<lambda>programs.
     obind (semaphore_metrics (sems s) (semaforos s)) (\<lambda>semaphores.
       Ret (s\<lparr>ticks := k,
         mlog := mlog s @ threads @ programs @ semaphores @ [DegreeMetric (multiprog_degree s)]\<rparr>))))"

end
