(* ===== verification/SuseSync.thy ===== *)
theory SuseSync
  imports SuseMetrics
begin

text \<open>
  The operations of \<^verbatim>\<open>planificacion/suse/suse_scheduler.c\<close> on threads: creation, the
  long-term and the short-term scheduler, semaphores, join and close, and what the switch of
  \<open>schedule_short_term\<close> does for a request.

  A loop over a list that is read anew from the state in every pass carries a bound on its passes;
  the lemmas show that the bounds used are never reached. \<open>schedule_next_for\<close> and \<open>suse_join\<close> jump
  back to a label without a bound, so their bound is an argument.
\<close>

section \<open>Creation\<close>

definition alloc :: "suse_env \<Rightarrow> suse \<Rightarrow> ptr \<times> suse" where
  "alloc E s =
     (if oom E (mallocs s) then NULL else Suc (mallocs s), s\<lparr>mallocs := Suc (mallocs s)\<rparr>)"

text \<open>
  When the allocation of the burst fails, \<open>destroy_tcb\<close> destroys the list \<open>joined\<close>, which has not
  been created yet.
\<close>

definition create_tcb :: "suse_env \<Rightarrow> int \<Rightarrow> int \<Rightarrow> suse \<Rightarrow> (ptr \<times> suse) outcome" where
  "create_tcb E sock t s =
     (let (p, s1) = alloc E s in
      if p = NULL then Ret (NULL, s1)
      else let (q, s2) = alloc E s1 in
        if q = NULL then Fault
        else let (b, k) = create_burst (tod E) (uninit_burst E) (ticks s2);
            tcb = \<lparr>tcb_socket = sock, tid = t, tcb_state = NEW, tcb_time = b, joined = []\<rparr>;
            s3 = (set_tcb p tcb s2)\<lparr>ticks := k, newList := newList s2 @ [p],
              new_counter := Suc (new_counter s2)\<rparr> in
          obind (get_program_id s3 sock) (\<lambda>_. Ret (p, s3)))"

text \<open>The field \<open>close\<close> is not set: it holds what the allocation left there.\<close>

definition create_program :: "suse_env \<Rightarrow> int \<Rightarrow> suse \<Rightarrow> ptr \<times> suse" where
  "create_program E client_socket s =
     (let (c, s1) = alloc E s in
      if c = NULL then (NULL, s1)
      else (c, (set_prog c
          \<lparr>prog_id = program_id_counter s1 + 1, prog_socket = client_socket, ready = [],
           exec = NULL, tcb_counter = 0, wakeupList = [], main_loaded_mutex = Locked,
           prog_close = uninit_close E\<rparr> s1)
          \<lparr>program_id_counter := program_id_counter s1 + 1, clientes := clientes s1 @ [c]\<rparr>))"

definition wait_for_client :: "suse_env \<Rightarrow> int \<Rightarrow> suse \<Rightarrow> suse outcome" where
  "wait_for_client E cliente s =
     (if cliente > 0 then
        obind (is_program_loaded s cliente) (\<lambda>loaded.
          Ret (if \<not> loaded then snd (create_program E cliente s) else s))
      else Ret s)"

record t_config_semaforo =
  conf_id :: "byte list"
  conf_init :: int
  conf_max :: int

definition create_semaforo :: "suse_env \<Rightarrow> t_config_semaforo \<Rightarrow> suse \<Rightarrow> ptr \<times> suse" where
  "create_semaforo E cf s =
     (let (m, s1) = alloc E s in
      if m = NULL then (NULL, s1)
      else (m, s1\<lparr>sems := (sems s1)(m \<mapsto>
        \<lparr>sem_id = conf_id cf, valor = conf_init cf, max_value = conf_max cf, blocked = []\<rparr>)\<rparr>))"

fun init_semaforos_from :: "suse_env \<Rightarrow> t_config_semaforo list \<Rightarrow> suse \<Rightarrow> suse" where
  "init_semaforos_from E [] s = s"
| "init_semaforos_from E (cf # cfs) s =
     (let (m, s1) = create_semaforo E cf s in
      init_semaforos_from E cfs (s1\<lparr>semaforos := semaforos s1 @ [m]\<rparr>))"

definition init_semaforos :: "suse_env \<Rightarrow> t_config_semaforo list \<Rightarrow> suse \<Rightarrow> suse" where
  "init_semaforos E cfs s = init_semaforos_from E cfs (s\<lparr>semaforos := []\<rparr>)"

text \<open>A semaphore cannot be initialised with a negative number.\<close>

definition init_scheduler :: "int \<Rightarrow> suse \<Rightarrow> suse outcome" where
  "init_scheduler max_multiprog s =
     (if max_multiprog < 0 then Fault
      else Ret (s\<lparr>multiprog_degree := 0, newList := [], blockedList := [], exitList := [],
        new_counter := 0, available_multiprog := nat max_multiprog\<rparr>))"

text \<open>The state of the process before \<open>init_suse\<close>: no block allocated, all globals zero.\<close>

definition boot :: suse where
  "boot = \<lparr>tcbs = (\<lambda>_. None), progs = (\<lambda>_. None), sems = (\<lambda>_. None), clientes = [],
     semaforos = [], newList = [], blockedList = [], exitList = [], multiprog_degree = 0,
     program_id_counter = 0, new_counter = 0, available_multiprog = 0, ticks = 0, mallocs = 0,
     sent = [], mlog = [], endsuse = False\<rparr>"

definition init_suse :: "suse_env \<Rightarrow> int \<Rightarrow> t_config_semaforo list \<Rightarrow> suse outcome" where
  "init_suse E max_multiprog cfs =
     obind (init_scheduler max_multiprog (boot\<lparr>program_id_counter := 0\<rparr>)) (\<lambda>s.
       Ret ((init_semaforos E cfs s)\<lparr>clientes := []\<rparr>))"

section \<open>The long-term scheduler\<close>

definition main_exec_signal :: "ptr \<Rightarrow> suse \<Rightarrow> suse outcome" where
  "main_exec_signal p s =
     obind (deref (tcbs s) p) (\<lambda>tcb.
     obind (get_program s (tcb_socket tcb)) (\<lambda>c.
     obind (deref (progs s) c) (\<lambda>program.
       if main_loaded_mutex program = Destroyed then Fault
       else Ret (set_prog c (program\<lparr>main_loaded_mutex := Unlocked\<rparr>) s))))"

text \<open>One pass of its loop; the result says whether the loop goes on.\<close>

definition schedule_long_term :: "suse_env \<Rightarrow> suse \<Rightarrow> (bool \<times> suse) outcome" where
  "schedule_long_term E s =
     (if endsuse s then Ret (False, s)
      else if new_counter s = 0 then Hang
      else let s1 = s\<lparr>new_counter := new_counter s - 1\<rparr> in
        if endsuse s1 then Ret (False, s1)
        else let current = get_new_tcb s1 in
          obind (check_multiprog s1) (\<lambda>s2.
            if current = NULL then Ret (True, s2)
            else obind (move_tcb_to E current READY s2) (\<lambda>s3.
              obind (deref (tcbs s3) current) (\<lambda>tcb.
                if tid tcb = 0
                then obind (main_exec_signal current s3) (\<lambda>s4. Ret (True, s4))
                else Ret (True, s3)))))"

section \<open>Waking threads up\<close>

definition notify_wakeup :: "ptr \<Rightarrow> suse \<Rightarrow> suse outcome" where
  "notify_wakeup p s =
     obind (deref (tcbs s) p) (\<lambda>tcb.
     obind (get_program s (tcb_socket tcb)) (\<lambda>c.
     obind (deref (progs s) c) (\<lambda>program.
       Ret (set_prog c (program\<lparr>wakeupList := wakeupList program @ [p],
         tcb_counter := tcb_counter program + 1\<rparr>) s))))"

text \<open>\<open>sem_wait\<close> on the counter of a program.\<close>

definition wait_tcb_counter :: "ptr \<Rightarrow> suse \<Rightarrow> suse outcome" where
  "wait_tcb_counter c s =
     obind (deref (progs s) c) (\<lambda>program.
       if tcb_counter program = 0 then Hang
       else Ret (set_prog c (program\<lparr>tcb_counter := tcb_counter program - 1\<rparr>) s))"

fun wakeup_loop :: "nat \<Rightarrow> suse_env \<Rightarrow> ptr \<Rightarrow> nat \<Rightarrow> suse \<Rightarrow> suse outcome" where
  "wakeup_loop 0 E c i s = OutOfFuel"
| "wakeup_loop (Suc n) E c i s =
     obind (deref (progs s) c) (\<lambda>program.
       if i < length (wakeupList program) then
         obind (list_remove (wakeupList program) (int i)) (\<lambda>(tcb, l).
         obind (move_tcb_to E tcb READY (set_prog c (program\<lparr>wakeupList := l\<rparr>) s)) (\<lambda>s1.
         obind (wait_tcb_counter c s1) (\<lambda>s2.
           wakeup_loop n E c (Suc i) s2)))
       else Ret s)"

definition wakeup_threads :: "suse_env \<Rightarrow> ptr \<Rightarrow> suse \<Rightarrow> (bool \<times> suse) outcome" where
  "wakeup_threads E c s =
     obind (deref (progs s) c) (\<lambda>program.
       if wakeupList program = [] then Ret (False, s)
       else obind (wakeup_loop (Suc (length (wakeupList program))) E c 0 s) (\<lambda>s1.
         Ret (True, s1)))"

text \<open>
  \<open>sem_wait\<close> and \<open>sem_post\<close> on the counter, to wait until there is a thread.
\<close>

definition wait_for_threads :: "suse_env \<Rightarrow> ptr \<Rightarrow> suse \<Rightarrow> suse outcome" where
  "wait_for_threads E c s =
     obind (deref (progs s) c) (\<lambda>program.
       if tcb_counter program = 0 then Hang
       else obind (wakeup_threads E c s) (\<lambda>(_, s1). Ret s1))"

section \<open>The short-term scheduler\<close>

text \<open>The loop over \<open>ready\<close>: the best estimate so far and its position, -1 for none.\<close>

fun choose_from :: "cfloat \<Rightarrow> (ptr \<Rightarrow> t_tcb option) \<Rightarrow> int \<Rightarrow> ptr list \<Rightarrow> cfloat \<times> int \<Rightarrow>
    (cfloat \<times> int) outcome" where
  "choose_from alpha h i [] best = Ret best"
| "choose_from alpha h i (p # ps) (best_estimate, best_pos) =
     obind (deref h p) (\<lambda>tcb.
       let this_estimate = get_estimate alpha (tcb_time tcb) in
       choose_from alpha h (i + 1) ps
         (if this_estimate < best_estimate then (this_estimate, i) else (best_estimate, best_pos)))"

definition change_exec_tcb :: "suse_env \<Rightarrow> ptr \<Rightarrow> ptr \<Rightarrow> suse \<Rightarrow> suse outcome" where
  "change_exec_tcb E c shortest_tcb s =
     obind (deref (progs s) c) (\<lambda>program.
     obind (if exec program \<noteq> NULL then move_tcb_to E (exec program) READY s else Ret s) (\<lambda>s1.
       move_tcb_to E shortest_tcb EXEC s1))"

definition notify_program :: "suse_env \<Rightarrow> ptr \<Rightarrow> op_code \<Rightarrow> suse \<Rightarrow> suse outcome" where
  "notify_program E c codigo s =
     (if codigo = SUSE_SCHEDULE_NEXT then
        obind (deref (progs s) c) (\<lambda>program.
        obind (deref (tcbs s) (exec program)) (\<lambda>e.
        obind (notify_program_bytes (env_send_ok E) (env_itoa E) (env_beyond E) (tid e)) (\<lambda>bytes.
          Ret (s\<lparr>sent := sent s @ [(prog_socket program, bytes)]\<rparr>))))
      else Ret s)"

text \<open>
  The choice, from the point where there is a thread to choose on: the estimate the running thread
  is compared with, the loop, the new times and the last estimate of the chosen thread. The result
  is the chosen thread and whether it comes from \<open>ready\<close>.
\<close>

definition exec_estimate :: "suse_env \<Rightarrow> ptr \<Rightarrow> suse \<Rightarrow> (cfloat \<times> nat) outcome" where
  "exec_estimate E e s =
     (if e = NULL then Ret (FLT_MAX, ticks s)
      else obind (deref (tcbs s) e) (\<lambda>tcb.
        let (b, k) = get_last_burst_for (tod E) EXEC (tcb_time tcb) (ticks s) in
        Ret (get_estimate_with_burst (alpha_sjf E) (tcb_time tcb) b, k)))"

definition keep_exec :: "suse_env \<Rightarrow> ptr \<Rightarrow> suse \<Rightarrow> suse outcome" where
  "keep_exec E e s =
     obind (deref (tcbs s) e) (\<lambda>tcb.
       let (b, k) = set_new_timings_for (tod E) EXEC (tcb_time tcb) (ticks s);
         (b', k') = set_state_start_timing (tod E) EXEC b k in
       Ret ((set_tcb e (tcb\<lparr>tcb_time := b'\<rparr>) s)\<lparr>ticks := k'\<rparr>))"

definition set_last_estimate :: "ptr \<Rightarrow> cfloat \<Rightarrow> suse \<Rightarrow> suse outcome" where
  "set_last_estimate p best s =
     obind (deref (tcbs s) p) (\<lambda>tcb.
       Ret (set_tcb p (tcb\<lparr>tcb_time := (tcb_time tcb)\<lparr>last_estimate := best\<rparr>\<rparr>) s))"

definition choose_next :: "suse_env \<Rightarrow> ptr \<Rightarrow> suse \<Rightarrow> (ptr \<times> bool \<times> suse) outcome" where
  "choose_next E c s =
     obind (deref (progs s) c) (\<lambda>program.
     obind (exec_estimate E (exec program) s) (\<lambda>(best0, k).
     obind (choose_from (alpha_sjf E) (tcbs s) 0 (ready program) (best0, - 1)) (\<lambda>(best, best_pos).
       if best_pos \<noteq> - 1 then
         let tcb = list_get (ready program) best_pos in
         obind (set_last_estimate tcb best (s\<lparr>ticks := k\<rparr>)) (\<lambda>s1. Ret (tcb, True, s1))
       else
         obind (keep_exec E (exec program) (s\<lparr>ticks := k\<rparr>)) (\<lambda>s1.
         obind (set_last_estimate (exec program) best s1) (\<lambda>s2. Ret (exec program, False, s2))))))"

text \<open>Each pass from the label \<open>start\<close> takes one unit of fuel.\<close>

fun schedule_next_for :: "nat \<Rightarrow> suse_env \<Rightarrow> ptr \<Rightarrow> suse \<Rightarrow> suse outcome" where
  "schedule_next_for 0 E c s = OutOfFuel"
| "schedule_next_for (Suc n) E c s =
     obind (deref (progs s) c) (\<lambda>program.
       if ready program = [] \<and> exec program = NULL then
         obind (wakeup_threads E c s) (\<lambda>(woken, s1).
           if woken then schedule_next_for n E c s1
           else obind (wait_for_threads E c s1) (\<lambda>s2. schedule_next_for n E c s2))
       else
         obind (choose_next E c s) (\<lambda>(tcb, change, s1).
         obind (if change then change_exec_tcb E c tcb s1 else Ret s1) (\<lambda>s2.
         obind (deref (progs s2) c) (\<lambda>program2.
         obind (deref (tcbs s2) (exec program2)) (\<lambda>_.
           notify_program E c SUSE_SCHEDULE_NEXT s2)))))"

section \<open>Semaphores\<close>

definition set_sem :: "ptr \<Rightarrow> t_semaforo \<Rightarrow> suse \<Rightarrow> suse" where
  "set_sem m semaforo s = s\<lparr>sems := (sems s)(m \<mapsto> semaforo)\<rparr>"

definition block :: "suse_env \<Rightarrow> ptr \<Rightarrow> ptr \<Rightarrow> suse \<Rightarrow> suse outcome" where
  "block E m e s =
     obind (deref (sems s) m) (\<lambda>semaforo.
       move_tcb_to E e BLOCKED (set_sem m (semaforo\<lparr>blocked := blocked semaforo @ [e]\<rparr>) s))"

definition wakeup :: "ptr \<Rightarrow> suse \<Rightarrow> suse outcome" where
  "wakeup m s =
     obind (deref (sems s) m) (\<lambda>semaforo.
     obind (list_remove (blocked semaforo) 0) (\<lambda>(_, l).
       notify_wakeup (list_get (blocked semaforo) 0) (set_sem m (semaforo\<lparr>blocked := l\<rparr>) s)))"

definition suse_wait :: "suse_env \<Rightarrow> int \<Rightarrow> byte list \<Rightarrow> ptr \<Rightarrow> suse \<Rightarrow> suse outcome" where
  "suse_wait E t sem_name c s =
     obind (deref (progs s) c) (\<lambda>program.
     obind (deref (tcbs s) (exec program)) (\<lambda>e.
       if tid e \<noteq> t then Ret s
       else
         obind (get_semaforo s sem_name) (\<lambda>m.
         obind (deref (sems s) m) (\<lambda>semaforo.
           let s1 = set_sem m (semaforo\<lparr>valor := valor semaforo - 1\<rparr>) s in
           if valor semaforo - 1 < 0 then block E m (exec program) s1 else Ret s1))))"

definition suse_signal :: "int \<Rightarrow> byte list \<Rightarrow> ptr \<Rightarrow> suse \<Rightarrow> suse outcome" where
  "suse_signal t sem_name c s =
     obind (deref (progs s) c) (\<lambda>program.
     obind (deref (tcbs s) (exec program)) (\<lambda>e.
       if tid e \<noteq> t then Ret s
       else
         obind (get_semaforo s sem_name) (\<lambda>m.
         obind (deref (sems s) m) (\<lambda>semaforo.
           let v = (if valor semaforo < max_value semaforo then valor semaforo + 1
                    else valor semaforo);
             s1 = set_sem m (semaforo\<lparr>valor := v\<rparr>) s in
           if v \<le> 0 then wakeup m s1 else Ret s1))))"

section \<open>Join and close\<close>

text \<open>
  One pass of \<open>suse_join\<close> from the label \<open>start\<close>: the result says whether it is over. When the
  thread is in none of the three lists, the pass wakes threads up and jumps back.
\<close>

definition join_found :: "suse_env \<Rightarrow> ptr \<Rightarrow> ptr \<Rightarrow> suse \<Rightarrow> suse outcome" where
  "join_found E p c s =
     obind (deref (progs s) c) (\<lambda>program.
     obind (deref (tcbs s) p) (\<lambda>tcb.
     let s1 = set_tcb p (tcb\<lparr>joined := joined tcb @ [exec program]\<rparr>) s in
       move_tcb_to E (exec program) BLOCKED s1))"

definition suse_join_pass :: "suse_env \<Rightarrow> int \<Rightarrow> ptr \<Rightarrow> suse \<Rightarrow> (bool \<times> suse) outcome" where
  "suse_join_pass E t c s =
     obind (deref (progs s) c) (\<lambda>program.
     obind (find_tcb_pos s (ready program) t (prog_socket program)) (\<lambda>pos.
       if pos \<noteq> - 1 then
         obind (join_found E (list_get (ready program) pos) c s) (\<lambda>s1. Ret (True, s1))
       else
         obind (find_tcb_pos s (exitList s) t (prog_socket program)) (\<lambda>pos.
         if pos \<noteq> - 1 then Ret (True, s)
         else
           obind (find_tcb_pos s (blockedList s) t (prog_socket program)) (\<lambda>pos.
           if pos \<noteq> - 1 then
             obind (join_found E (list_get (blockedList s) pos) c s) (\<lambda>s1. Ret (True, s1))
           else obind (wakeup_threads E c s) (\<lambda>(_, s1). Ret (False, s1))))))"

text \<open>
  Between two passes the other threads of the process may run: \<open>other k\<close> is what they do after
  the \<open>k\<close>-th pass.
\<close>

fun suse_join :: "nat \<Rightarrow> (nat \<Rightarrow> suse \<Rightarrow> suse) \<Rightarrow> suse_env \<Rightarrow> int \<Rightarrow> ptr \<Rightarrow> suse \<Rightarrow> suse outcome" where
  "suse_join 0 other E t c s = OutOfFuel"
| "suse_join (Suc n) other E t c s =
     obind (suse_join_pass E t c s) (\<lambda>(over, s1).
       if over then Ret s1 else suse_join n other E t c (other n s1))"

fun unjoin_loop :: "nat \<Rightarrow> suse_env \<Rightarrow> ptr \<Rightarrow> nat \<Rightarrow> suse \<Rightarrow> suse outcome" where
  "unjoin_loop 0 E c i s = OutOfFuel"
| "unjoin_loop (Suc n) E c i s =
     obind (deref (progs s) c) (\<lambda>program.
     obind (deref (tcbs s) (exec program)) (\<lambda>e.
       if i < length (joined e) then
         obind (move_tcb_to E (joined e ! i) READY s) (\<lambda>s1. unjoin_loop n E c (Suc i) s1)
       else Ret s))"

definition unjoin_exec :: "suse_env \<Rightarrow> ptr \<Rightarrow> suse \<Rightarrow> suse outcome" where
  "unjoin_exec E c s =
     obind (deref (progs s) c) (\<lambda>program.
     obind (deref (tcbs s) (exec program)) (\<lambda>e. unjoin_loop (Suc (length (joined e))) E c 0 s))"

text \<open>The loop of \<open>suse_close\<close> from the end of \<open>exitList\<close>: the positions below \<open>i\<close> are left.\<close>

fun close_log :: "suse_env \<Rightarrow> int \<Rightarrow> ptr \<Rightarrow> nat \<Rightarrow> suse \<Rightarrow> suse outcome" where
  "close_log E t c 0 s = Ret s"
| "close_log E t c (Suc i) s =
     (let p = list_get (exitList s) (int i) in
      obind (deref (tcbs s) p) (\<lambda>tcb.
      obind (deref (progs s) c) (\<lambda>program.
      obind (if tcb_socket tcb = prog_socket program \<and> tid tcb = t
             then log_metrics_thread (tod E) p s else Ret s) (\<lambda>s1.
        close_log E t c i s1))))"

definition suse_close :: "suse_env \<Rightarrow> int \<Rightarrow> ptr \<Rightarrow> suse \<Rightarrow> suse outcome" where
  "suse_close E t c s =
     obind (deref (progs s) c) (\<lambda>program.
     obind (deref (tcbs s) (exec program)) (\<lambda>e.
       if tid e \<noteq> t then Ret s
       else
         obind (unjoin_exec E c s) (\<lambda>s1.
         obind (deref (progs s1) c) (\<lambda>program1.
         obind (move_tcb_to E (exec program1) EXIT s1) (\<lambda>s2.
           close_log E t c (length (exitList s2)) s2)))))"

section \<open>The switch of the short-term scheduler\<close>

text \<open>
  What follows \<open>create_tcb\<close> for the main thread: wait until the long-term scheduler has loaded it,
  and run it.
\<close>

definition main_exec :: "suse_env \<Rightarrow> ptr \<Rightarrow> ptr \<Rightarrow> suse \<Rightarrow> suse outcome" where
  "main_exec E c p s =
     obind (deref (progs s) c) (\<lambda>program.
       if main_loaded_mutex program = Destroyed then Fault
       else if main_loaded_mutex program = Locked then Hang
       else
         obind (move_tcb_to E p EXEC (set_prog c (program\<lparr>main_loaded_mutex := Locked\<rparr>) s)) (\<lambda>s1.
         obind (deref (progs s1) c) (\<lambda>program1.
           Ret (set_prog c (program1\<lparr>main_loaded_mutex := Destroyed\<rparr>) s1))))"

definition handle :: "nat \<Rightarrow> suse_env \<Rightarrow> ptr \<Rightarrow> request \<Rightarrow> suse \<Rightarrow> suse outcome" where
  "handle n E c req s =
     obind (deref (progs s) c) (\<lambda>self.
       case req of
         Create t \<Rightarrow>
           obind (create_tcb E (prog_socket self) t s) (\<lambda>(p, s1).
             if t = 0 then main_exec E c p s1 else Ret s1)
       | ScheduleNext \<Rightarrow> schedule_next_for n E c s
       | Wait t sem \<Rightarrow> suse_wait E t sem c s
       | Signal t sem \<Rightarrow> suse_signal t sem c s
       | Join t \<Rightarrow> suse_join n (\<lambda>_ s. s) E t c s
       | Close t \<Rightarrow> suse_close E t c s
       | Disconnected \<Rightarrow> Ret (set_prog c (self\<lparr>prog_close := True\<rparr>) s)
       | Unknown _ \<Rightarrow> Ret s)"

text \<open>What every pass of its loop ends with.\<close>

definition after_request :: "suse_env \<Rightarrow> ptr \<Rightarrow> suse \<Rightarrow> suse outcome" where
  "after_request E c s =
     obind (wakeup_threads E c s) (\<lambda>(_, s1).
     obind (deref (progs s1) c) (\<lambda>self.
       Ret (if ready self = [] \<and> endsuse s1
            then set_prog c (self\<lparr>prog_close := True\<rparr>) s1 else s1)))"

definition schedule_short_term ::
  "nat \<Rightarrow> (nat \<Rightarrow> byte) \<Rightarrow> suse_env \<Rightarrow> ptr \<Rightarrow> chan \<Rightarrow> suse \<Rightarrow> (bool \<times> chan \<times> suse) outcome" where
  "schedule_short_term n indet E c ch s =
     obind (deref (progs s) c) (\<lambda>self.
       if prog_close self then Ret (False, ch, s)
       else
         obind (read_request indet (env_beyond E) ch) (\<lambda>(req, ch1).
         obind (handle n E c req s) (\<lambda>s1.
         obind (after_request E c s1) (\<lambda>s2. Ret (True, ch1, s2)))))"

end
