(* ===== verification/SuseMove.thy ===== *)
theory SuseMove
  imports SuseSync
begin

text \<open>
  The invariant of the lists of SUSE and the abstract specification of \<open>move_tcb_to\<close>: one update
  of the whole state, which the searches, removals and counting semaphores of the code implement
  whenever the invariant holds.
\<close>

section \<open>The invariant of the state lists\<close>

definition in_state :: "suse \<Rightarrow> t_state \<Rightarrow> ptr set" where
  "in_state s st = {p. \<exists>a. tcbs s p = Some a \<and> tcb_state a = st}"

definition members :: "suse \<Rightarrow> t_state \<Rightarrow> int \<Rightarrow> ptr set" where
  "members s st sock = {p. \<exists>a. tcbs s p = Some a \<and> tcb_state a = st \<and> tcb_socket a = sock}"

fun active :: "t_state \<Rightarrow> bool" where
  "active NEW = False"
| "active EXIT = False"
| "active READY = True"
| "active EXEC = True"
| "active BLOCKED = True"

definition active_set :: "suse \<Rightarrow> ptr set" where
  "active_set s = {p. \<exists>a. tcbs s p = Some a \<and> active (tcb_state a)}"

definition heap_ok :: "suse \<Rightarrow> bool" where
  "heap_ok s \<longleftrightarrow> (\<forall>p. tcbs s p \<noteq> None \<longrightarrow> 0 < p \<and> p \<le> mallocs s) \<and>
     (\<forall>c. progs s c \<noteq> None \<longrightarrow> 0 < c \<and> c \<le> mallocs s) \<and>
     (\<forall>m. sems s m \<noteq> None \<longrightarrow> 0 < m \<and> m \<le> mallocs s)"

definition keys_ok :: "(ptr \<Rightarrow> t_tcb option) \<Rightarrow> bool" where
  "keys_ok h \<longleftrightarrow> (\<forall>p q a b. h p = Some a \<longrightarrow> h q = Some b \<longrightarrow>
     tid a = tid b \<longrightarrow> tcb_socket a = tcb_socket b \<longrightarrow> p = q)"

definition progs_ok :: "(ptr \<Rightarrow> t_program option) \<Rightarrow> ptr list \<Rightarrow> bool" where
  "progs_ok h cs \<longleftrightarrow> distinct cs \<and> (\<forall>c. c \<in> set cs \<longleftrightarrow> h c \<noteq> None) \<and>
     (\<forall>c d p q. h c = Some p \<longrightarrow> h d = Some q \<longrightarrow> prog_socket p = prog_socket q \<longrightarrow> c = d)"

definition owned :: "suse \<Rightarrow> bool" where
  "owned s \<longleftrightarrow> (\<forall>p a. tcbs s p = Some a \<longrightarrow>
     (\<exists>c pr. progs s c = Some pr \<and> prog_socket pr = tcb_socket a))"

definition listed :: "suse \<Rightarrow> t_state \<Rightarrow> ptr list \<Rightarrow> bool" where
  "listed s st xs \<longleftrightarrow> distinct xs \<and> set xs = in_state s st"

definition exec_set :: "t_program \<Rightarrow> ptr set" where
  "exec_set pr = (if exec pr = NULL then {} else {exec pr})"

definition prog_listed :: "suse \<Rightarrow> t_program \<Rightarrow> bool" where
  "prog_listed s pr \<longleftrightarrow> distinct (ready pr) \<and> set (ready pr) = members s READY (prog_socket pr) \<and>
     exec_set pr = members s EXEC (prog_socket pr) \<and> length (ready pr) \<le> tcb_counter pr"

definition lists_ok :: "suse \<Rightarrow> bool" where
  "lists_ok s \<longleftrightarrow> listed s NEW (newList s) \<and> listed s BLOCKED (blockedList s) \<and>
     listed s EXIT (exitList s) \<and> (\<forall>c pr. progs s c = Some pr \<longrightarrow> prog_listed s pr)"

definition degree_ok :: "nat \<Rightarrow> suse \<Rightarrow> bool" where
  "degree_ok M s \<longleftrightarrow> multiprog_degree s = int (card (active_set s)) \<and>
     int (available_multiprog s) + multiprog_degree s = int M"

definition core_inv :: "nat \<Rightarrow> suse \<Rightarrow> bool" where
  "core_inv M s \<longleftrightarrow> heap_ok s \<and> keys_ok (tcbs s) \<and> progs_ok (progs s) (clientes s) \<and> owned s \<and>
     lists_ok s \<and> degree_ok M s"

lemma core_invD:
  assumes "core_inv M s"
  shows "heap_ok s" "keys_ok (tcbs s)" "progs_ok (progs s) (clientes s)" "owned s" "lists_ok s"
    "degree_ok M s"
  using assms by (simp_all add: core_inv_def)

lemma heap_ok_NULL:
  assumes "heap_ok s"
  shows "tcbs s NULL = None" "progs s NULL = None" "sems s NULL = None"
  using assms by (auto simp: heap_ok_def)

lemma heap_ok_finite: "heap_ok s \<Longrightarrow> finite (dom (tcbs s))"
  by (rule finite_subset [of _ "{..mallocs s}"]) (auto simp: heap_ok_def dom_def)

lemma active_set_finite: "heap_ok s \<Longrightarrow> finite (active_set s)"
  by (rule finite_subset [OF _ heap_ok_finite]) (auto simp: active_set_def)

lemma prog_unique:
  assumes "progs_ok h cs" "h c = Some pr" "h d = Some qr" "prog_socket pr = prog_socket qr"
  shows "d = c \<and> qr = pr"
  using assms unfolding progs_ok_def by (metis option.inject)

lemma owner:
  assumes "core_inv M s" "tcbs s p = Some a"
  obtains c pr where "progs s c = Some pr" "prog_socket pr = tcb_socket a"
  using core_invD(4) [OF assms(1)] assms(2) unfolding owned_def by blast

section \<open>Searching under the invariant\<close>

lemma find_tcb_from_mem:
  assumes "keys_ok h" "h p = Some a" "p \<in> set xs" "\<forall>q \<in> set xs. h q \<noteq> None"
  shows "\<exists>j < length xs. xs ! j = p \<and> find_tcb_from h i xs (tid a) (tcb_socket a) = Ret (i + int j)"
  using assms(3,4)
proof (induction xs arbitrary: i)
  case (Cons x xs)
  then obtain b where b: "h x = Some b" by auto
  show ?case
  proof (cases "tid b = tid a \<and> tcb_socket b = tcb_socket a")
    case True
    with b assms(1,2) have "x = p" unfolding keys_ok_def by blast
    with True b show ?thesis by (intro exI [of _ 0]) simp
  next
    case False
    with b assms(2) Cons.prems have "p \<in> set xs" by auto
    then obtain j where "j < length xs" "xs ! j = p"
      "find_tcb_from h (i + 1) xs (tid a) (tcb_socket a) = Ret (i + 1 + int j)"
      using Cons.IH [of "i + 1"] Cons.prems by auto
    with False b show ?thesis by (intro exI [of _ "Suc j"]) auto
  qed
qed simp

lemma find_tcb_from_none:
  assumes "\<forall>q \<in> set xs. \<exists>b. h q = Some b \<and> (tid b \<noteq> t \<or> tcb_socket b \<noteq> sock)"
  shows "find_tcb_from h i xs t sock = Ret (- 1)"
  using assms by (induction xs arbitrary: i) auto

lemma find_tcb_from_sound:
  assumes "find_tcb_from h i xs t sock = Ret r" "r \<noteq> - 1" "0 \<le> i"
  shows "\<exists>j < length xs. r = i + int j \<and> (\<exists>a. h (xs ! j) = Some a \<and> tid a = t \<and> tcb_socket a = sock)"
  using assms
proof (induction xs arbitrary: i)
  case (Cons x xs)
  from Cons.prems(1) obtain b where b: "h x = Some b" by (auto simp: obind_Ret_iff)
  show ?case
  proof (cases "tid b = t \<and> tcb_socket b = sock")
    case True
    with b Cons.prems(1) show ?thesis by (intro exI [of _ 0]) auto
  next
    case False
    then have "find_tcb_from h (i + 1) xs t sock = Ret r" using b Cons.prems(1) by auto
    from Cons.IH [OF this Cons.prems(2)] Cons.prems(3) obtain j where
      "j < length xs" "r = i + 1 + int j"
      "\<exists>a. h (xs ! j) = Some a \<and> tid a = t \<and> tcb_socket a = sock" by auto
    then show ?thesis by (intro exI [of _ "Suc j"]) auto
  qed
qed simp

lemma find_tcb_pos_mem:
  assumes "keys_ok (tcbs s)" "tcbs s p = Some a" "p \<in> set xs" "\<forall>q \<in> set xs. tcbs s q \<noteq> None"
  obtains j where "j < length xs" "xs ! j = p"
    "find_tcb_pos s xs (tid a) (tcb_socket a) = Ret (int j)"
  using find_tcb_from_mem [OF assms, of 0] by (auto simp: find_tcb_pos_def)

lemma find_list_remove:
  assumes "keys_ok (tcbs s)" "tcbs s p = Some a" "p \<in> set xs" "\<forall>q \<in> set xs. tcbs s q \<noteq> None"
    and "distinct xs"
  shows "obind (find_tcb_pos s xs (tid a) (tcb_socket a)) (list_remove xs) = Ret (p, remove1 p xs)"
proof -
  obtain j where "j < length xs" "xs ! j = p"
    "find_tcb_pos s xs (tid a) (tcb_socket a) = Ret (int j)"
    by (rule find_tcb_pos_mem [OF assms(1-4)])
  then show ?thesis
    using take_drop_remove1 [OF assms(5), of j] by (simp add: list_remove_nth)
qed

lemma remove_tcb_pos_mem:
  assumes "keys_ok (tcbs s)" "tcbs s p = Some a" "p \<in> set xs" "\<forall>q \<in> set xs. tcbs s q \<noteq> None"
    and "distinct xs"
  shows "remove_tcb_pos s xs a = Ret (remove1 p xs)"
  using find_list_remove [OF assms]
  by (auto simp: remove_tcb_pos_def obind_Ret_iff)

lemma find_program_from_mem:
  assumes "\<forall>d qr. h d = Some qr \<longrightarrow> prog_socket qr = sock \<longrightarrow> d = c" "h c = Some pr"
    "prog_socket pr = sock" "c \<in> set cs" "\<forall>d \<in> set cs. h d \<noteq> None"
  shows "\<exists>j < length cs. cs ! j = c \<and> find_program_from h i cs sock = Ret (i + int j) \<and>
    get_program_id_from h cs sock = Ret (prog_id pr)"
  using assms(4,5)
proof (induction cs arbitrary: i)
  case (Cons d cs)
  then obtain qr where qr: "h d = Some qr" by auto
  show ?case
  proof (cases "prog_socket qr = sock")
    case True
    with qr assms(1) have "d = c" by blast
    with True qr assms(2) show ?thesis by (intro exI [of _ 0]) simp
  next
    case False
    with qr assms(2,3) Cons.prems have "c \<in> set cs" by auto
    then obtain j where "j < length cs" "cs ! j = c"
      "find_program_from h (i + 1) cs sock = Ret (i + 1 + int j)"
      "get_program_id_from h cs sock = Ret (prog_id pr)"
      using Cons.IH [of "i + 1"] Cons.prems by auto
    with False qr show ?thesis by (intro exI [of _ "Suc j"]) auto
  qed
qed simp

lemma get_program_mem:
  assumes "progs_ok (progs s) (clientes s)" "progs s c = Some pr" "prog_socket pr = sock"
  shows "get_program s sock = Ret c" "get_program_id s sock = Ret (prog_id pr)"
proof -
  have u: "\<forall>d qr. progs s d = Some qr \<longrightarrow> prog_socket qr = sock \<longrightarrow> d = c"
    using prog_unique [OF assms(1,2)] assms(3) by blast
  have m: "c \<in> set (clientes s)" "\<forall>d \<in> set (clientes s). progs s d \<noteq> None"
    using assms(1,2) by (auto simp: progs_ok_def)
  have "\<exists>j < length (clientes s). clientes s ! j = c \<and>
      find_program_from (progs s) 0 (clientes s) sock = Ret (0 + int j) \<and>
      get_program_id_from (progs s) (clientes s) sock = Ret (prog_id pr)"
    by (rule find_program_from_mem [where h = "progs s", OF u assms(2,3) m])
  then obtain j where "j < length (clientes s)" "clientes s ! j = c"
    "find_program_from (progs s) 0 (clientes s) sock = Ret (int j)"
    "get_program_id_from (progs s) (clientes s) sock = Ret (prog_id pr)"
    by (elim exE conjE) simp
  then show "get_program s sock = Ret c" "get_program_id s sock = Ret (prog_id pr)"
    by (simp_all add: get_program_def get_program_id_def find_program_pos_def list_get_nth)
qed

section \<open>The abstract move\<close>

definition relist :: "t_state \<Rightarrow> t_state \<Rightarrow> t_state \<Rightarrow> ptr \<Rightarrow> ptr list \<Rightarrow> ptr list" where
  "relist of_state old new p xs =
     (if old = of_state then remove1 p xs else xs) @ (if new = of_state then [p] else [])"

definition reprog :: "t_state \<Rightarrow> t_state \<Rightarrow> ptr \<Rightarrow> t_program \<Rightarrow> t_program" where
  "reprog old new p pr = pr\<lparr>ready := relist READY old new p (ready pr),
     exec := (if new = EXEC then p else if old = EXEC then NULL else exec pr),
     tcb_counter := (if old = READY then tcb_counter pr - 1 else tcb_counter pr)
       + (if new = READY then 1 else 0)\<rparr>"

definition retime :: "clock \<Rightarrow> t_state \<Rightarrow> t_state \<Rightarrow> t_burst \<Rightarrow> nat \<Rightarrow> t_burst \<times> nat" where
  "retime clk old new b k =
     (let (b1, k1) = set_new_timings_for clk old b k in
      if new = EXIT then (b1\<lparr>finished := clk k1\<rparr>, Suc k1) else set_state_start_timing clk new b1 k1)"

definition moved :: "suse_env \<Rightarrow> ptr \<Rightarrow> t_state \<Rightarrow> suse \<Rightarrow> suse" where
  "moved E p st s =
     (case tcbs s p of
        None \<Rightarrow> s
      | Some a \<Rightarrow>
          let old = tcb_state a; (b, k) = retime (tod E) old st (tcb_time a) (ticks s) in
          if old = st then s
          else s\<lparr>tcbs := (tcbs s)(p \<mapsto> a\<lparr>tcb_time := b, tcb_state := st\<rparr>),
            progs := (\<lambda>c. map_option (\<lambda>pr.
              if prog_socket pr = tcb_socket a then reprog old st p pr else pr) (progs s c)),
            newList := relist NEW old st p (newList s),
            blockedList := relist BLOCKED old st p (blockedList s),
            exitList := relist EXIT old st p (exitList s),
            multiprog_degree := multiprog_degree s - of_bool (active old) + of_bool (active st),
            available_multiprog := available_multiprog s + of_bool (active old) - of_bool (active st),
            ticks := k\<rparr>)"

definition unlist :: "t_state \<Rightarrow> t_state \<Rightarrow> ptr \<Rightarrow> ptr list \<Rightarrow> ptr list" where
  "unlist of_state old p xs = (if old = of_state then remove1 p xs else xs)"

definition unprog :: "t_state \<Rightarrow> ptr \<Rightarrow> t_program \<Rightarrow> t_program" where
  "unprog old p pr = pr\<lparr>ready := unlist READY old p (ready pr),
     exec := (if old = EXEC then NULL else exec pr),
     tcb_counter := (if old = READY then tcb_counter pr - 1 else tcb_counter pr)\<rparr>"

lemma progs_ok_upd:
  assumes "progs_ok h cs" "h c = Some pr" "prog_socket qr = prog_socket pr"
  shows "progs_ok (h(c \<mapsto> qr)) cs"
proof -
  have "d = e" if "(h(c \<mapsto> qr)) d = Some p" "(h(c \<mapsto> qr)) e = Some q"
    "prog_socket p = prog_socket q" for d e p q
  proof -
    have "\<exists>p'. h d = Some p' \<and> prog_socket p' = prog_socket p"
      using that(1) assms(2,3) by (cases "d = c") auto
    moreover have "\<exists>q'. h e = Some q' \<and> prog_socket q' = prog_socket q"
      using that(2) assms(2,3) by (cases "e = c") auto
    ultimately show ?thesis
      using assms(1) that(3) unfolding progs_ok_def by metis
  qed
  note unique = this
  have "distinct cs" and "\<And>d. d \<in> set cs \<longleftrightarrow> h d \<noteq> None"
    using assms(1) unfolding progs_ok_def by blast+
  moreover from this have "\<And>d. d \<in> set cs \<longleftrightarrow> (h(c \<mapsto> qr)) d \<noteq> None"
    using assms(2) by simp
  ultimately show ?thesis
    unfolding progs_ok_def using unique by blast
qed

lemma keys_ok_upd:
  assumes "keys_ok h" "h p = Some a" "tid b = tid a" "tcb_socket b = tcb_socket a"
  shows "keys_ok (h(p \<mapsto> b))"
proof -
  have "q = r" if "(h(p \<mapsto> b)) q = Some x" "(h(p \<mapsto> b)) r = Some y"
    "tid x = tid y" "tcb_socket x = tcb_socket y" for q r x y
  proof -
    have "\<exists>x'. h q = Some x' \<and> tid x' = tid x \<and> tcb_socket x' = tcb_socket x"
      using that(1) assms(2-4) by (cases "q = p") auto
    moreover have "\<exists>y'. h r = Some y' \<and> tid y' = tid y \<and> tcb_socket y' = tcb_socket y"
      using that(2) assms(2-4) by (cases "r = p") auto
    ultimately show ?thesis
      using assms(1) that(3,4) unfolding keys_ok_def by metis
  qed
  then show ?thesis unfolding keys_ok_def by blast
qed

lemma set_new_timings_for_other:
  "st \<noteq> READY \<Longrightarrow> st \<noteq> EXEC \<Longrightarrow> set_new_timings_for clk st b k = (b, k)"
  by (cases st) (simp_all add: set_new_timings_for_def)

text \<open>What the first switch of \<open>move_tcb_to\<close> does.\<close>

definition left_state :: "suse_env \<Rightarrow> ptr \<Rightarrow> t_tcb \<Rightarrow> ptr \<Rightarrow> t_program \<Rightarrow> suse \<Rightarrow> suse" where
  "left_state E p a c pr s =
     (let old = tcb_state a;
        (b, k) = set_new_timings_for (tod E) old (tcb_time a) (ticks s) in
      s\<lparr>tcbs := (tcbs s)(p \<mapsto> a\<lparr>tcb_time := b\<rparr>), progs := (progs s)(c \<mapsto> unprog old p pr),
        newList := unlist NEW old p (newList s),
        blockedList := unlist BLOCKED old p (blockedList s),
        exitList := unlist EXIT old p (exitList s),
        multiprog_degree := multiprog_degree s - of_bool (active old),
        available_multiprog := available_multiprog s + of_bool (active old),
        ticks := k\<rparr>)"

lemma listed_mem:
  assumes "listed s st xs" "tcbs s p = Some a" "tcb_state a = st"
  shows "p \<in> set xs" "\<forall>q \<in> set xs. tcbs s q \<noteq> None" "distinct xs"
  using assms by (auto simp: listed_def in_state_def)

lemma prog_listed_mem:
  assumes "prog_listed s pr" "tcbs s p = Some a" "tcb_state a = READY"
    "prog_socket pr = tcb_socket a"
  shows "p \<in> set (ready pr)" "\<forall>q \<in> set (ready pr). tcbs s q \<noteq> None" "distinct (ready pr)"
    "0 < tcb_counter pr"
proof -
  show p: "p \<in> set (ready pr)" and "\<forall>q \<in> set (ready pr). tcbs s q \<noteq> None" "distinct (ready pr)"
    using assms by (auto simp: prog_listed_def members_def)
  from p have "0 < length (ready pr)" by (rule length_pos_if_in_set)
  also have "length (ready pr) \<le> tcb_counter pr" using assms(1) by (simp add: prog_listed_def)
  finally show "0 < tcb_counter pr" .
qed

lemma suse_idem: "s\<lparr>tcbs := tcbs s\<rparr> = s" "s\<lparr>progs := progs s\<rparr> = s"
  by simp_all

lemma leave_state_eq:
  assumes "core_inv M s" "tcbs s p = Some a" "progs s c = Some pr"
    "prog_socket pr = tcb_socket a"
  shows "leave_state E p s = Ret (left_state E p a c pr s)"
proof -
  note inv = core_invD [OF assms(1)]
  have ro: "prog_listed s pr"
    using inv(5) assms(3) by (auto simp: lists_ok_def)
  have upd: "(tcbs s)(p \<mapsto> a) = tcbs s" "(progs s)(c \<mapsto> pr) = progs s"
    using assms(2,3) by auto
  show ?thesis
  proof (cases "tcb_state a")
    case NEW
    have "listed s NEW (newList s)" using inv(5) by (simp add: lists_ok_def)
    then have "remove_tcb_pos s (newList s) a = Ret (remove1 p (newList s))"
      using listed_mem [OF _ assms(2) NEW] inv(2) assms(2) by (intro remove_tcb_pos_mem) auto
    with NEW assms(2) upd show ?thesis
      by (simp add: leave_state_def left_state_def set_new_timings_for_def unlist_def unprog_def)
  next
    case BLOCKED
    have "listed s BLOCKED (blockedList s)" using inv(5) by (simp add: lists_ok_def)
    then have "remove_tcb_pos s (blockedList s) a = Ret (remove1 p (blockedList s))"
      using listed_mem [OF _ assms(2) BLOCKED] inv(2) assms(2) by (intro remove_tcb_pos_mem) auto
    with BLOCKED assms(2) upd show ?thesis
      by (simp add: leave_state_def left_state_def set_new_timings_for_def unlist_def unprog_def
        decrease_multiprog_def)
  next
    case EXIT
    have "listed s EXIT (exitList s)" using inv(5) by (simp add: lists_ok_def)
    then have "remove_tcb_pos s (exitList s) a = Ret (remove1 p (exitList s))"
      using listed_mem [OF _ assms(2) EXIT] inv(2) assms(2) by (intro remove_tcb_pos_mem) auto
    with EXIT assms(2) upd show ?thesis
      by (simp add: leave_state_def left_state_def set_new_timings_for_def unlist_def unprog_def)
  next
    case EXEC
    define b k where bk: "b = fst (set_new_timings_for (tod E) EXEC (tcb_time a) (ticks s))"
      "k = snd (set_new_timings_for (tod E) EXEC (tcb_time a) (ticks s))"
    define s1 where "s1 = (set_tcb p (a\<lparr>tcb_time := b\<rparr>) s)\<lparr>ticks := k\<rparr>"
    have "get_program s1 (tcb_socket a) = Ret c"
      using inv(3) assms(3,4) by (intro get_program_mem(1)) (auto simp: s1_def set_tcb_def)
    then have "program_remove_tcb_from_state (tcb_socket a) (tid a) EXEC s1 =
        Ret (set_prog c (pr\<lparr>exec := NULL\<rparr>) s1)"
      using assms(3) by (simp add: program_remove_tcb_from_state_def s1_def set_tcb_def)
    then show ?thesis
      using EXEC assms(2)
      by (simp add: leave_state_def left_state_def unlist_def unprog_def Let_def
        decrease_multiprog_def set_prog_def set_tcb_def s1_def case_prod_beta flip: bk)
  next
    case READY
    define b k where bk: "b = fst (set_new_timings_for (tod E) READY (tcb_time a) (ticks s))"
      "k = snd (set_new_timings_for (tod E) READY (tcb_time a) (ticks s))"
    define s1 where "s1 = (set_tcb p (a\<lparr>tcb_time := b\<rparr>) s)\<lparr>ticks := k\<rparr>"
    note mem = prog_listed_mem [OF ro assms(2) READY assms(4)]
    have "get_program s1 (tcb_socket a) = Ret c"
      using inv(3) assms(3,4) by (intro get_program_mem(1)) (auto simp: s1_def set_tcb_def)
    moreover have "obind (find_tcb_pos s1 (ready pr) (tid a) (tcb_socket a)) (list_remove (ready pr))
        = Ret (p, remove1 p (ready pr))"
      using find_list_remove [of s1 p "a\<lparr>tcb_time := b\<rparr>" "ready pr"] mem
        keys_ok_upd [OF inv(2) assms(2), of "a\<lparr>tcb_time := b\<rparr>"]
      by (auto simp: s1_def set_tcb_def)
    ultimately have "program_remove_tcb_from_state (tcb_socket a) (tid a) READY s1 =
        Ret (set_prog c (pr\<lparr>ready := remove1 p (ready pr), tcb_counter := tcb_counter pr - 1\<rparr>) s1)"
      using assms(3) mem(4)
      by (auto simp: program_remove_tcb_from_state_def s1_def set_tcb_def obind_Ret_iff)
    then show ?thesis
      using READY assms(2)
      by (simp add: leave_state_def left_state_def unlist_def unprog_def Let_def
        decrease_multiprog_def set_prog_def set_tcb_def s1_def case_prod_beta flip: bk)
  qed
qed

text \<open>What the second switch does.\<close>

definition enprog :: "t_state \<Rightarrow> ptr \<Rightarrow> t_program \<Rightarrow> t_program" where
  "enprog new p pr = pr\<lparr>ready := ready pr @ (if new = READY then [p] else []),
     exec := (if new = EXEC then p else exec pr),
     tcb_counter := tcb_counter pr + (if new = READY then 1 else 0)\<rparr>"

definition entered_state :: "suse_env \<Rightarrow> ptr \<Rightarrow> t_state \<Rightarrow> t_tcb \<Rightarrow> ptr \<Rightarrow> t_program \<Rightarrow> suse \<Rightarrow> suse" where
  "entered_state E p st a c pr s =
     (let (b, k) = (if st = EXIT then ((tcb_time a)\<lparr>finished := tod E (ticks s)\<rparr>, Suc (ticks s))
            else set_state_start_timing (tod E) st (tcb_time a) (ticks s)) in
      s\<lparr>tcbs := (tcbs s)(p \<mapsto> a\<lparr>tcb_time := b\<rparr>), progs := (progs s)(c \<mapsto> enprog st p pr),
        newList := newList s @ (if st = NEW then [p] else []),
        blockedList := blockedList s @ (if st = BLOCKED then [p] else []),
        exitList := exitList s @ (if st = EXIT then [p] else []),
        multiprog_degree := multiprog_degree s + of_bool (active st),
        available_multiprog := available_multiprog s - of_bool (active st),
        ticks := k\<rparr>)"

lemma set_state_start_timing_other:
  "st \<noteq> READY \<Longrightarrow> st \<noteq> EXEC \<Longrightarrow> set_state_start_timing clk st b k = (b, k)"
  by (cases st) (simp_all add: set_state_start_timing_def)

lemma enter_state_eq:
  assumes "progs_ok (progs s) (clientes s)" "tcbs s p = Some a" "progs s c = Some pr"
    "prog_socket pr = tcb_socket a" "active st \<Longrightarrow> 0 < available_multiprog s"
  shows "enter_state E p st s = Ret (entered_state E p st a c pr s)"
proof -
  have upd: "(tcbs s)(p \<mapsto> a) = tcbs s" "(progs s)(c \<mapsto> pr) = progs s"
    using assms(2,3) by auto
  have start: "enter_state E p st s = Ret (entered_state E p st a c pr s)"
    if st: "st = READY \<or> st = EXEC"
  proof -
    define b k where bk: "b = fst (set_state_start_timing (tod E) st (tcb_time a) (ticks s))"
      "k = snd (set_state_start_timing (tod E) st (tcb_time a) (ticks s))"
    define s1 where "s1 = (set_tcb p (a\<lparr>tcb_time := b\<rparr>) s)\<lparr>ticks := k\<rparr>"
    have "get_program s1 (tcb_socket a) = Ret c"
      using assms(1,3,4) by (intro get_program_mem(1)) (auto simp: s1_def set_tcb_def)
    moreover have "tcbs s1 p = Some (a\<lparr>tcb_time := b\<rparr>)" "progs s1 c = Some pr"
      using assms(3) by (simp_all add: s1_def set_tcb_def)
    ultimately have "program_add_tcb_to_state p st s1 = Ret (set_prog c (enprog st p pr) s1)"
      using st by (auto simp: program_add_tcb_to_state_def enprog_def)
    moreover have "enter_state E p st s = obind (program_add_tcb_to_state p st s1) increase_multiprog"
      using st assms(2) by (elim disjE) (simp_all add: enter_state_def Let_def case_prod_beta s1_def bk)
    moreover have "0 < available_multiprog s1" using st assms(5) by (auto simp: s1_def set_tcb_def)
    moreover have "s1\<lparr>progs := (progs s1)(c \<mapsto> enprog st p pr),
        available_multiprog := available_multiprog s1 - 1,
        multiprog_degree := multiprog_degree s1 + 1\<rparr> = entered_state E p st a c pr s"
      using st by (intro suse.equality)
        (auto simp: entered_state_def s1_def set_tcb_def bk case_prod_beta)
    ultimately show ?thesis
      by (simp add: increase_multiprog_def set_prog_def)
  qed
  show ?thesis
  proof (cases st)
    case BLOCKED
    with assms(2,5) upd show ?thesis
      by (simp add: enter_state_def entered_state_def increase_multiprog_def enprog_def
        set_state_start_timing_def)
  qed (use start assms(2) upd in \<open>simp_all add: enter_state_def entered_state_def enprog_def
    set_state_start_timing_def set_tcb_def Let_def\<close>)
qed

lemma reprog_split: "enprog new p (unprog old p pr) = reprog old new p pr"
  by (simp add: enprog_def unprog_def reprog_def relist_def unlist_def)

lemma relist_split: "unlist st old p xs @ (if new = st then [p] else []) = relist st old new p xs"
  by (simp add: relist_def unlist_def)

lemma progs_upd_map:
  assumes "progs_ok h cs" "h c = Some pr" "prog_socket pr = sock"
  shows "(\<lambda>d. map_option (\<lambda>qr. if prog_socket qr = sock then f qr else qr) (h d)) = h(c \<mapsto> f pr)"
proof (rule ext)
  fix d
  show "map_option (\<lambda>qr. if prog_socket qr = sock then f qr else qr) (h d) = (h(c \<mapsto> f pr)) d"
    using prog_unique [OF assms(1,2), of d] assms(2,3) by (cases "h d") auto
qed

lemma moved_eq:
  assumes "progs_ok (progs s) (clientes s)" "tcbs s p = Some a" "tcb_state a \<noteq> st"
    "progs s c = Some pr" "prog_socket pr = tcb_socket a"
  shows "moved E p st s =
    (let (b, k) = retime (tod E) (tcb_state a) st (tcb_time a) (ticks s) in
     s\<lparr>tcbs := (tcbs s)(p \<mapsto> a\<lparr>tcb_time := b, tcb_state := st\<rparr>),
       progs := (progs s)(c \<mapsto> reprog (tcb_state a) st p pr),
       newList := relist NEW (tcb_state a) st p (newList s),
       blockedList := relist BLOCKED (tcb_state a) st p (blockedList s),
       exitList := relist EXIT (tcb_state a) st p (exitList s),
       multiprog_degree := multiprog_degree s - of_bool (active (tcb_state a)) + of_bool (active st),
       available_multiprog := available_multiprog s + of_bool (active (tcb_state a))
         - of_bool (active st),
       ticks := k\<rparr>)"
  using progs_upd_map [OF assms(1,4,5), of "reprog (tcb_state a) st p"] assms(2,3)
  by (simp add: moved_def Let_def case_prod_beta)

lemma move_refines:
  assumes "core_inv M s" "tcbs s p = Some a"
    "active st \<Longrightarrow> active (tcb_state a) \<or> 0 < available_multiprog s"
  shows "move_tcb_to E p st s = Ret (moved E p st s)"
proof (cases "tcb_state a = st")
  case True
  with assms(2) show ?thesis by (simp add: move_tcb_to_def moved_def case_prod_beta)
next
  case False
  obtain c pr where c: "progs s c = Some pr" "prog_socket pr = tcb_socket a"
    by (rule owner [OF assms(1,2)])
  note inv = core_invD [OF assms(1)]
  define b k where bk: "b = fst (set_new_timings_for (tod E) (tcb_state a) (tcb_time a) (ticks s))"
    "k = snd (set_new_timings_for (tod E) (tcb_state a) (tcb_time a) (ticks s))"
  define s1 where "s1 = left_state E p a c pr s"
  define a1 where "a1 = a\<lparr>tcb_time := b\<rparr>"
  have s1: "tcbs s1 p = Some a1" "progs s1 c = Some (unprog (tcb_state a) p pr)"
    "available_multiprog s1 = available_multiprog s + of_bool (active (tcb_state a))"
    "clientes s1 = clientes s" "progs s1 = (progs s)(c \<mapsto> unprog (tcb_state a) p pr)"
    by (simp_all add: s1_def a1_def left_state_def case_prod_beta bk Let_def)
  have sock1: "prog_socket (unprog (tcb_state a) p pr) = tcb_socket a1"
    by (simp add: unprog_def a1_def c(2))
  have ok1: "progs_ok (progs s1) (clientes s1)"
    using progs_ok_upd [OF inv(3) c(1), of "unprog (tcb_state a) p pr"] c(2)
    by (simp add: s1 a1_def unprog_def)
  have "enter_state E p st s1 =
      Ret (entered_state E p st a1 c (unprog (tcb_state a) p pr) s1)"
    using assms(3) by (intro enter_state_eq [OF ok1 s1(1,2) sock1]) (auto simp: s1(3))
  moreover have "leave_state E p s = Ret s1"
    unfolding s1_def by (rule leave_state_eq [OF assms(1,2) c])
  moreover have "get_program_id s (tcb_socket a) = Ret (prog_id pr)"
    by (rule get_program_mem [OF inv(3) c])
  moreover have "set_tcb p ((a1\<lparr>tcb_time := fst (if st = EXIT
        then ((tcb_time a1)\<lparr>finished := tod E (ticks s1)\<rparr>, Suc (ticks s1))
        else set_state_start_timing (tod E) st (tcb_time a1) (ticks s1))\<rparr>)\<lparr>tcb_state := st\<rparr>)
      (entered_state E p st a1 c (unprog (tcb_state a) p pr) s1) = moved E p st s"
    unfolding moved_eq [OF inv(3) assms(2) False c]
    by (intro suse.equality) (simp_all add: entered_state_def retime_def set_tcb_def s1_def a1_def
      left_state_def case_prod_beta bk reprog_split relist_split Let_def)
  ultimately show ?thesis
    using assms(2) False
    by (simp add: move_tcb_to_def entered_state_def case_prod_beta)
qed

section \<open>The abstract move keeps the invariant\<close>

lemma moved_same: "tcbs s p = Some a \<Longrightarrow> tcb_state a = st \<Longrightarrow> moved E p st s = s"
  by (simp add: moved_def case_prod_beta)

lemma moved_frame [simp]:
  "sems (moved E p st s) = sems s" "clientes (moved E p st s) = clientes s"
  "semaforos (moved E p st s) = semaforos s" "mallocs (moved E p st s) = mallocs s"
  "new_counter (moved E p st s) = new_counter s" "sent (moved E p st s) = sent s"
  "program_id_counter (moved E p st s) = program_id_counter s" "mlog (moved E p st s) = mlog s"
  "endsuse (moved E p st s) = endsuse s"
  by (simp_all add: moved_def case_prod_beta Let_def split: option.split)

lemma moved_sel:
  assumes "tcbs s p = Some a" "tcb_state a \<noteq> st"
  shows "tcbs (moved E p st s) = (tcbs s)(p \<mapsto>
      a\<lparr>tcb_time := fst (retime (tod E) (tcb_state a) st (tcb_time a) (ticks s)), tcb_state := st\<rparr>)"
    "progs (moved E p st s) c = map_option (\<lambda>pr.
      if prog_socket pr = tcb_socket a then reprog (tcb_state a) st p pr else pr) (progs s c)"
    "newList (moved E p st s) = relist NEW (tcb_state a) st p (newList s)"
    "blockedList (moved E p st s) = relist BLOCKED (tcb_state a) st p (blockedList s)"
    "exitList (moved E p st s) = relist EXIT (tcb_state a) st p (exitList s)"
    "multiprog_degree (moved E p st s) =
      multiprog_degree s - of_bool (active (tcb_state a)) + of_bool (active st)"
    "available_multiprog (moved E p st s) =
      available_multiprog s + of_bool (active (tcb_state a)) - of_bool (active st)"
  using assms by (simp_all add: moved_def case_prod_beta Let_def)

lemma reprog_frame [simp]:
  "prog_id (reprog old new p pr) = prog_id pr" "prog_socket (reprog old new p pr) = prog_socket pr"
  "wakeupList (reprog old new p pr) = wakeupList pr"
  "main_loaded_mutex (reprog old new p pr) = main_loaded_mutex pr"
  "prog_close (reprog old new p pr) = prog_close pr"
  by (simp_all add: reprog_def)

text \<open>Of a thread only its state and times change, and of a program only its own lists.\<close>

lemma moved_tcb:
  assumes "tcbs s p = Some a"
  obtains b where "tcbs (moved E p st s) = (tcbs s)(p \<mapsto> a\<lparr>tcb_time := b, tcb_state := st\<rparr>)"
proof (cases "tcb_state a = st")
  case True
  then have "tcbs (moved E p st s) = (tcbs s)(p \<mapsto> a\<lparr>tcb_time := tcb_time a, tcb_state := st\<rparr>)"
    using assms moved_same [OF assms True] by auto
  then show thesis by (rule that)
next
  case False
  show thesis by (rule that) (rule moved_sel(1) [OF assms False])
qed

lemma moved_prog:
  assumes "progs s c = Some pr"
  obtains pr' where "progs (moved E p st s) c = Some pr'" "prog_id pr' = prog_id pr"
    "prog_socket pr' = prog_socket pr" "wakeupList pr' = wakeupList pr"
    "main_loaded_mutex pr' = main_loaded_mutex pr" "prog_close pr' = prog_close pr"
proof (cases "tcbs s p")
  case None
  with assms that show thesis by (simp add: moved_def)
next
  case (Some a)
  show thesis
  proof (cases "tcb_state a = st")
    case True
    show thesis
      by (rule that [of pr]) (simp_all add: moved_same [OF Some True] assms)
  next
    case False
    show thesis
      by (rule that [of "if prog_socket pr = tcb_socket a then reprog (tcb_state a) st p pr else pr"])
        (simp_all add: moved_sel(2) [OF Some False] assms)
  qed
qed

lemma in_state_moved:
  assumes "tcbs s p = Some a"
  shows "in_state (moved E p st s) st' =
    (if st' = st then insert p (in_state s st') else in_state s st' - {p})"
proof -
  obtain b where "tcbs (moved E p st s) = (tcbs s)(p \<mapsto> a\<lparr>tcb_time := b, tcb_state := st\<rparr>)"
    by (rule moved_tcb [OF assms])
  then show ?thesis by (auto simp: in_state_def)
qed

lemma members_moved:
  assumes "tcbs s p = Some a"
  shows "members (moved E p st s) st' sock =
    (if st' = st \<and> sock = tcb_socket a then insert p (members s st' sock)
     else members s st' sock - {p})"
proof -
  obtain b where "tcbs (moved E p st s) = (tcbs s)(p \<mapsto> a\<lparr>tcb_time := b, tcb_state := st\<rparr>)"
    by (rule moved_tcb [OF assms])
  then show ?thesis by (auto simp: members_def)
qed

lemma active_set_moved:
  assumes "tcbs s p = Some a"
  shows "active_set (moved E p st s) =
    (if active st then insert p (active_set s) else active_set s - {p})"
proof -
  obtain b where "tcbs (moved E p st s) = (tcbs s)(p \<mapsto> a\<lparr>tcb_time := b, tcb_state := st\<rparr>)"
    by (rule moved_tcb [OF assms])
  then show ?thesis by (auto simp: active_set_def)
qed

lemma relist_props:
  assumes "distinct xs" "old = of_state \<longleftrightarrow> p \<in> set xs" "old \<noteq> new"
  shows "distinct (relist of_state old new p xs)"
    "set (relist of_state old new p xs) =
      (if new = of_state then insert p (set xs) else set xs - {p})"
  using assms by (auto simp: relist_def)

lemma listed_moved:
  assumes "listed s st' xs" "tcbs s p = Some a" "tcb_state a \<noteq> st"
  shows "listed (moved E p st s) st' (relist st' (tcb_state a) st p xs)"
proof -
  have "tcb_state a = st' \<longleftrightarrow> p \<in> set xs"
    using assms(1,2) by (simp add: listed_def in_state_def)
  with relist_props [OF _ this assms(3)] assms(1,2) show ?thesis
    by (simp add: listed_def in_state_moved)
qed

lemma length_relist:
  "old = of_state \<longleftrightarrow> p \<in> set xs \<Longrightarrow> length (relist of_state old new p xs) =
    (if old = of_state then length xs - 1 else length xs) + (if new = of_state then 1 else 0)"
  by (simp add: relist_def length_remove1)

lemma prog_listed_moved:
  assumes "prog_listed s pr" "tcbs s p = Some a" "tcb_state a \<noteq> st" "p \<noteq> NULL"
    "st = EXEC \<Longrightarrow> prog_socket pr = tcb_socket a \<Longrightarrow> exec pr = NULL"
  shows "prog_listed (moved E p st s)
    (if prog_socket pr = tcb_socket a then reprog (tcb_state a) st p pr else pr)"
proof (cases "prog_socket pr = tcb_socket a")
  case False
  then have "p \<notin> members s st' (prog_socket pr)" for st'
    using assms(2) by (simp add: members_def)
  with False assms(1) show ?thesis
    by (simp add: prog_listed_def members_moved [OF assms(2)])
next
  case True
  have mem: "p \<in> members s st' (prog_socket pr) \<longleftrightarrow> tcb_state a = st'" for st'
    using assms(2) True by (auto simp: members_def)
  have r: "tcb_state a = READY \<longleftrightarrow> p \<in> set (ready pr)"
    using mem [of READY] assms(1) by (simp add: prog_listed_def)
  have "exec_set (reprog (tcb_state a) st p pr) =
      (if st = EXEC then insert p (exec_set pr) else exec_set pr - {p})"
  proof (cases "tcb_state a = EXEC")
    case True
    then have "p \<in> exec_set pr" using mem [of EXEC] assms(1) by (simp add: prog_listed_def)
    with True assms(3,4) show ?thesis by (auto simp: exec_set_def reprog_def split: if_splits)
  next
    case False
    then have "p \<notin> exec_set pr" using mem [of EXEC] assms(1) by (simp add: prog_listed_def)
    with False assms(4,5) \<open>prog_socket pr = tcb_socket a\<close> show ?thesis
      by (auto simp: exec_set_def reprog_def)
  qed
  moreover have "length (ready pr) \<le> tcb_counter pr" using assms(1) by (simp add: prog_listed_def)
  then have "length (ready (reprog (tcb_state a) st p pr)) \<le> tcb_counter (reprog (tcb_state a) st p pr)"
    using length_relist [OF r, of st] by (auto simp: reprog_def)
  moreover have "distinct (ready (reprog (tcb_state a) st p pr))"
    "set (ready (reprog (tcb_state a) st p pr)) =
      (if st = READY then insert p (set (ready pr)) else set (ready pr) - {p})"
    using relist_props [OF _ r assms(3)] assms(1) by (simp_all add: reprog_def prog_listed_def)
  moreover have "prog_socket (reprog (tcb_state a) st p pr) = tcb_socket a"
    using True by (simp add: reprog_def)
  ultimately show ?thesis
    using True assms(1) by (simp add: prog_listed_def members_moved [OF assms(2)])
qed

lemma degree_ok_moved:
  assumes "degree_ok M s" "heap_ok s" "tcbs s p = Some a" "tcb_state a \<noteq> st"
    "active st \<Longrightarrow> active (tcb_state a) \<or> 0 < available_multiprog s"
  shows "degree_ok M (moved E p st s)"
proof -
  have fin: "finite (active_set s)" by (rule active_set_finite [OF assms(2)])
  have mem: "p \<in> active_set s \<longleftrightarrow> active (tcb_state a)"
    using assms(3) by (simp add: active_set_def)
  have pos: "active (tcb_state a) \<Longrightarrow> 0 < card (active_set s)"
    using fin mem by (auto simp: card_gt_0_iff)
  have card: "int (card (active_set (moved E p st s))) =
      int (card (active_set s)) - of_bool (active (tcb_state a)) + of_bool (active st)"
    using fin mem pos
    by (auto simp: active_set_moved [OF assms(3)] card_insert_if insert_absorb)
  have av: "int (available_multiprog s + of_bool (active (tcb_state a)) - of_bool (active st)) =
      int (available_multiprog s) + of_bool (active (tcb_state a)) - of_bool (active st)"
    using assms(5) by (cases "active st"; cases "active (tcb_state a)") (auto simp: of_nat_diff)
  show ?thesis
    using assms(1) card av
    by (simp add: degree_ok_def moved_sel [OF assms(3,4)])
qed

lemma core_inv_moved:
  assumes "core_inv M s" "tcbs s p = Some a"
    "active st \<Longrightarrow> active (tcb_state a) \<or> 0 < available_multiprog s"
    "\<And>c pr. st = EXEC \<Longrightarrow> tcb_state a \<noteq> EXEC \<Longrightarrow> progs s c = Some pr \<Longrightarrow>
      prog_socket pr = tcb_socket a \<Longrightarrow> exec pr = NULL"
  shows "core_inv M (moved E p st s)"
proof (cases "tcb_state a = st")
  case True
  with assms show ?thesis by (simp add: moved_same)
next
  case False
  note inv = core_invD [OF assms(1)]
  obtain b where tcbs: "tcbs (moved E p st s) = (tcbs s)(p \<mapsto> a\<lparr>tcb_time := b, tcb_state := st\<rparr>)"
    by (rule moved_tcb [OF assms(2)])
  have progs: "progs (moved E p st s) c = None \<longleftrightarrow> progs s c = None" for c
    by (simp add: moved_sel [OF assms(2) False])
  have sock: "\<exists>pr'. progs s c = Some pr' \<and> prog_socket pr' = prog_socket pr"
    if "progs (moved E p st s) c = Some pr" for c pr
    using that by (auto simp: moved_sel [OF assms(2) False] reprog_def)
  have NULL: "p \<noteq> NULL" using heap_ok_NULL [OF inv(1)] assms(2) by (cases p) auto
  have "heap_ok (moved E p st s)"
    using inv(1) assms(2) progs by (auto simp: heap_ok_def tcbs)
  moreover have "keys_ok (tcbs (moved E p st s))"
    unfolding tcbs by (rule keys_ok_upd [OF inv(2) assms(2)]) simp_all
  moreover have "progs_ok (progs (moved E p st s)) (clientes (moved E p st s))"
    using inv(3) progs sock unfolding progs_ok_def moved_frame by metis
  moreover have "owned (moved E p st s)"
    unfolding owned_def
  proof (intro allI impI)
    fix q x
    assume "tcbs (moved E p st s) q = Some x"
    then obtain y where "tcbs s q = Some y" "tcb_socket y = tcb_socket x"
      using assms(2) by (cases "q = p") (auto simp: tcbs)
    then obtain c pr where "progs s c = Some pr" "prog_socket pr = tcb_socket x"
      by (metis owner [OF assms(1)])
    then show "\<exists>c pr. progs (moved E p st s) c = Some pr \<and> prog_socket pr = tcb_socket x"
      by (metis moved_prog)
  qed
  moreover have "lists_ok (moved E p st s)"
  proof -
    have "prog_listed (moved E p st s) pr" if pr: "progs (moved E p st s) c = Some pr" for c pr
    proof -
      obtain qr where qr: "progs s c = Some qr"
        "pr = (if prog_socket qr = tcb_socket a then reprog (tcb_state a) st p qr else qr)"
        using pr by (auto simp: moved_sel(2) [OF assms(2) False])
      have "prog_listed s qr" using qr(1) inv(5) by (simp add: lists_ok_def)
      moreover have "exec qr = NULL" if "st = EXEC" "prog_socket qr = tcb_socket a"
        by (rule assms(4) [OF that(1) _ qr(1) that(2)]) (use False that(1) in simp)
      ultimately show ?thesis
        unfolding qr(2) by (intro prog_listed_moved [OF _ assms(2) False NULL])
    qed
    then show ?thesis
      using inv(5) listed_moved [OF _ assms(2) False]
      by (simp add: lists_ok_def moved_sel [OF assms(2) False])
  qed
  moreover have "degree_ok M (moved E p st s)"
    by (rule degree_ok_moved [OF inv(6,1) assms(2) False assms(3)])
  ultimately show ?thesis by (simp add: core_inv_def)
qed

end
