(* ===== verification/SuseWait.thy ===== *)
theory SuseWait
  imports SuseMove
begin

text \<open>
  Where blocked threads wait, the invariant that a blocked thread waits in exactly one place, the
  counting semaphores' invariants, and what an operation of one program leaves alone.
\<close>

section \<open>Where threads wait\<close>

datatype reason = OnSem ptr | OnWakeup ptr | OnJoin ptr

text \<open>The list \<open>joined\<close> of a thread that has ended is not read any more.\<close>

fun waiters :: "suse \<Rightarrow> reason \<Rightarrow> ptr list" where
  "waiters s (OnSem m) = (case sems s m of None \<Rightarrow> [] | Some x \<Rightarrow> blocked x)"
| "waiters s (OnWakeup c) = (case progs s c of None \<Rightarrow> [] | Some pr \<Rightarrow> wakeupList pr)"
| "waiters s (OnJoin p) = (case tcbs s p of None \<Rightarrow> []
     | Some a \<Rightarrow> if tcb_state a = EXIT then [] else joined a)"

definition waits :: "ptr set \<Rightarrow> (reason \<Rightarrow> ptr list) \<Rightarrow> bool" where
  "waits B W \<longleftrightarrow> (\<forall>r. distinct (W r)) \<and> (\<forall>r r'. r \<noteq> r' \<longrightarrow> set (W r) \<inter> set (W r') = {}) \<and>
     (\<Union>r. set (W r)) = B"

lemma waits_mem: "waits B W \<Longrightarrow> p \<in> set (W r) \<Longrightarrow> p \<in> B"
  by (auto simp: waits_def)

lemma waits_other: "waits B W \<Longrightarrow> p \<in> set (W r) \<Longrightarrow> p \<in> set (W r') \<Longrightarrow> r' = r"
  by (auto simp: waits_def)

lemma waits_unique: "waits B W \<Longrightarrow> p \<in> B \<Longrightarrow> \<exists>!r. p \<in> set (W r)"
  unfolding waits_def by blast

lemma waits_add:
  assumes "waits B W" "p \<notin> B"
  shows "waits (insert p B) (W(r := W r @ [p]))"
proof -
  have "p \<notin> set (W r')" for r'
    using assms by (auto simp: waits_def)
  with assms(1) show ?thesis
    unfolding waits_def by (auto split: if_splits)
qed

lemma waits_del:
  assumes "waits B W" "p \<in> set (W r)" "set xs = set (W r) - {p}" "distinct xs"
  shows "waits (B - {p}) (W(r := xs))"
proof -
  have "p \<notin> set (W r')" if "r' \<noteq> r" for r'
    using waits_other [OF assms(1,2)] that by blast
  then show ?thesis
    using assms unfolding waits_def by (auto split: if_splits) (metis IntI empty_iff)+
qed

section \<open>The counters\<close>

definition counters_ok :: "suse \<Rightarrow> bool" where
  "counters_ok s \<longleftrightarrow> new_counter s = length (newList s) \<and>
     (\<forall>c pr. progs s c = Some pr \<longrightarrow>
        tcb_counter pr = length (ready pr) + length (wakeupList pr))"

definition wakeup_ok :: "suse \<Rightarrow> bool" where
  "wakeup_ok s \<longleftrightarrow> (\<forall>c pr p. progs s c = Some pr \<longrightarrow> p \<in> set (wakeupList pr) \<longrightarrow>
     (\<exists>a. tcbs s p = Some a \<and> tcb_socket a = prog_socket pr))"

definition sem_ok :: "t_semaforo \<Rightarrow> bool" where
  "sem_ok x \<longleftrightarrow> int (length (blocked x)) = max 0 (- valor x) \<and> valor x \<le> max_value x \<and>
     1 \<le> max_value x"

definition sems_ok :: "suse \<Rightarrow> bool" where
  "sems_ok s \<longleftrightarrow> (\<forall>m x. sems s m = Some x \<longrightarrow> sem_ok x) \<and> (\<forall>m \<in> set (semaforos s). sems s m \<noteq> None)"

definition full_inv :: "nat \<Rightarrow> suse \<Rightarrow> bool" where
  "full_inv M s \<longleftrightarrow> core_inv M s \<and> waits (in_state s BLOCKED) (waiters s) \<and> counters_ok s \<and>
     wakeup_ok s \<and> sems_ok s"

lemma full_invD:
  assumes "full_inv M s"
  shows "core_inv M s" "waits (in_state s BLOCKED) (waiters s)" "counters_ok s" "wakeup_ok s"
    "sems_ok s"
  using assms by (simp_all add: full_inv_def)

section \<open>What an operation of one program leaves alone\<close>

text \<open>The life of a thread: \<open>EXIT\<close> is final and nothing becomes \<open>NEW\<close> again.\<close>

definition lives :: "t_state \<Rightarrow> t_state \<Rightarrow> bool" where
  "lives st st' \<longleftrightarrow> (st = EXIT \<longrightarrow> st' = EXIT) \<and> (st' = NEW \<longrightarrow> st = NEW)"

lemma lives_refl [simp]: "lives st st"
  by (simp add: lives_def)

lemma lives_trans: "lives st st' \<Longrightarrow> lives st' st'' \<Longrightarrow> lives st st''"
  unfolding lives_def by blast

definition tcb_evolves :: "int \<Rightarrow> t_tcb \<Rightarrow> t_tcb \<Rightarrow> bool" where
  "tcb_evolves sock a a' \<longleftrightarrow> tid a' = tid a \<and> tcb_socket a' = tcb_socket a \<and>
     (tcb_state a = NEW \<or> (tcb_state a = READY \<and> tcb_socket a \<noteq> sock) \<longrightarrow> tcb_state a' = tcb_state a) \<and>
     lives (tcb_state a) (tcb_state a')"

definition prog_evolves :: "int \<Rightarrow> t_program \<Rightarrow> t_program \<Rightarrow> bool" where
  "prog_evolves sock pr pr' \<longleftrightarrow> prog_id pr' = prog_id pr \<and> prog_socket pr' = prog_socket pr \<and>
     main_loaded_mutex pr' = main_loaded_mutex pr \<and>
     (prog_socket pr \<noteq> sock \<longrightarrow> exec pr' = exec pr)"

definition evolves :: "int \<Rightarrow> suse \<Rightarrow> suse \<Rightarrow> bool" where
  "evolves sock s s' \<longleftrightarrow>
     (\<forall>q. rel_option (tcb_evolves sock) (tcbs s q) (tcbs s' q)) \<and>
     (\<forall>c. rel_option (prog_evolves sock) (progs s c) (progs s' c)) \<and>
     newList s' = newList s \<and> clientes s' = clientes s \<and> semaforos s' = semaforos s \<and>
     endsuse s' = endsuse s"

lemma rel_option_trans:
  assumes "rel_option R x y" "rel_option R y z" "\<And>a b c. R a b \<Longrightarrow> R b c \<Longrightarrow> R a c"
  shows "rel_option R x z"
  using assms(1,2) by (cases x; cases y; cases z) (auto intro: assms(3))

lemma rel_evolves_refl [simp]:
  "rel_option (tcb_evolves sock) x x" "rel_option (prog_evolves sock) y y"
  by (simp_all add: option.rel_refl tcb_evolves_def prog_evolves_def)

lemma evolves_refl [simp]: "evolves sock s s"
  by (simp add: evolves_def)

lemma tcb_evolves_trans:
  assumes "tcb_evolves sock a b" "tcb_evolves sock b c"
  shows "tcb_evolves sock a c"
proof -
  have "lives (tcb_state a) (tcb_state b)" "lives (tcb_state b) (tcb_state c)"
    using assms unfolding tcb_evolves_def by blast+
  then have "lives (tcb_state a) (tcb_state c)" by (rule lives_trans)
  then show ?thesis using assms unfolding tcb_evolves_def by metis
qed

lemma evolves_trans:
  assumes "evolves sock s s'" "evolves sock s' s''"
  shows "evolves sock s s''"
proof -
  have "rel_option (tcb_evolves sock) (tcbs s q) (tcbs s'' q)" for q
  proof (rule rel_option_trans)
    show "rel_option (tcb_evolves sock) (tcbs s q) (tcbs s' q)"
      "rel_option (tcb_evolves sock) (tcbs s' q) (tcbs s'' q)"
      using assms by (simp_all add: evolves_def)
  qed (rule tcb_evolves_trans)
  moreover have "rel_option (prog_evolves sock) (progs s c) (progs s'' c)" for c
    by (rule rel_option_trans [of _ _ "progs s' c"])
      (use assms in \<open>auto simp: evolves_def prog_evolves_def\<close>)
  ultimately show ?thesis
    using assms by (simp add: evolves_def)
qed

lemma evolves_prog:
  assumes "evolves sock s s'" "progs s c = Some pr"
  obtains pr' where "progs s' c = Some pr'" "prog_socket pr' = prog_socket pr"
    "prog_id pr' = prog_id pr" "main_loaded_mutex pr' = main_loaded_mutex pr"
    "prog_socket pr \<noteq> sock \<Longrightarrow> exec pr' = exec pr"
proof -
  have "rel_option (prog_evolves sock) (Some pr) (progs s' c)"
    using assms unfolding evolves_def by metis
  then obtain pr' where "progs s' c = Some pr'" "prog_evolves sock pr pr'"
    by (auto simp: option_rel_Some1)
  then show thesis by (intro that [of pr']) (simp_all add: prog_evolves_def)
qed

lemma evolves_tcb:
  assumes "evolves sock s s'" "tcbs s p = Some a"
  obtains a' where "tcbs s' p = Some a'" "tid a' = tid a" "tcb_socket a' = tcb_socket a"
    "tcb_state a = NEW \<or> (tcb_state a = READY \<and> tcb_socket a \<noteq> sock) \<longrightarrow>
      tcb_state a' = tcb_state a"
proof -
  have "rel_option (tcb_evolves sock) (Some a) (tcbs s' p)"
    using assms unfolding evolves_def by metis
  then obtain a' where "tcbs s' p = Some a'" "tcb_evolves sock a a'"
    by (auto simp: option_rel_Some1)
  then show thesis by (intro that [of a']) (simp_all add: tcb_evolves_def)
qed

lemma evolves_lives:
  "evolves sock s s' \<Longrightarrow> rel_option (\<lambda>a a'. lives (tcb_state a) (tcb_state a')) (tcbs s p) (tcbs s' p)"
  by (rule option.rel_mono_strong [of "tcb_evolves sock"]) (simp_all add: evolves_def tcb_evolves_def)

lemma evolves_None:
  assumes "evolves sock s s'"
  shows "tcbs s' p = None \<longleftrightarrow> tcbs s p = None" "progs s' c = None \<longleftrightarrow> progs s c = None"
proof -
  have "rel_option (tcb_evolves sock) (tcbs s p) (tcbs s' p)"
    "rel_option (prog_evolves sock) (progs s c) (progs s' c)"
    using assms by (simp_all add: evolves_def)
  then show "tcbs s' p = None \<longleftrightarrow> tcbs s p = None" "progs s' c = None \<longleftrightarrow> progs s c = None"
    by (auto elim: option.rel_cases)
qed

lemma evolves_moved:
  assumes "core_inv M s" "tcbs s p = Some a" "tcb_state a \<noteq> NEW" "tcb_state a \<noteq> EXIT" "st \<noteq> NEW"
    "tcb_state a = READY \<or> tcb_state a = EXEC \<or> st = EXEC \<Longrightarrow> tcb_socket a = sock"
  shows "evolves sock s (moved E p st s)"
proof (cases "tcb_state a = st")
  case True
  with assms(2) show ?thesis by (simp add: moved_same)
next
  case False
  note sel = moved_sel [OF assms(2) False]
  have "newList (moved E p st s) = newList s"
    using assms(3,5) by (simp add: sel relist_def)
  moreover have "rel_option (tcb_evolves sock) (tcbs s q) (tcbs (moved E p st s) q)" for q
    using assms(2-6)
    by (cases "tcbs s q") (auto simp: sel(1) tcb_evolves_def lives_def)
  moreover have "exec (reprog (tcb_state a) st p pr) = exec pr"
    if "prog_socket pr = tcb_socket a" "prog_socket pr \<noteq> sock" for pr
    using that assms(6) by (auto simp: reprog_def)
  then have "rel_option (prog_evolves sock) (progs s c) (progs (moved E p st s) c)" for c
    by (cases "progs s c") (auto simp: sel(2) prog_evolves_def)
  ultimately show ?thesis by (simp add: evolves_def)
qed

section \<open>The abstract move and the waiting lists\<close>

lemma waiters_moved:
  assumes "tcbs s p = Some a" "tcb_state a \<noteq> EXIT"
  shows "waiters (moved E p st s) =
    (if st = EXIT then (waiters s)(OnJoin p := []) else waiters s)"
proof (rule ext)
  fix r
  obtain b where tcbs: "tcbs (moved E p st s) = (tcbs s)(p \<mapsto> a\<lparr>tcb_time := b, tcb_state := st\<rparr>)"
    by (rule moved_tcb [OF assms(1)])
  show "waiters (moved E p st s) r =
      (if st = EXIT then (waiters s)(OnJoin p := []) else waiters s) r"
  proof (cases r)
    case (OnWakeup c)
    have "waiters (moved E p st s) (OnWakeup c) = waiters s (OnWakeup c)"
    proof (cases "progs s c")
      case None
      then show ?thesis using assms(1) by (simp add: moved_def case_prod_beta Let_def)
    next
      case (Some pr)
      obtain pr' where "progs (moved E p st s) c = Some pr'" "wakeupList pr' = wakeupList pr"
        by (rule moved_prog [OF Some])
      with Some show ?thesis by simp
    qed
    with OnWakeup show ?thesis by simp
  qed (use assms tcbs in auto)
qed

text \<open>How far the counter of a program is ahead of its ready list.\<close>

lemma moved_slack:
  assumes "core_inv M s" "tcbs s p = Some a" "progs s c = Some pr"
    "progs (moved E p st s) c = Some pr'"
  shows "tcb_counter pr' + length (ready pr) = tcb_counter pr + length (ready pr')"
proof (cases "tcb_state a = st")
  case True
  with assms show ?thesis by (simp add: moved_same)
next
  case False
  have l: "prog_listed s pr"
    using core_invD(5) [OF assms(1)] assms(3) by (simp add: lists_ok_def)
  show ?thesis
  proof (cases "prog_socket pr = tcb_socket a")
    case True
    have r: "tcb_state a = READY \<longleftrightarrow> p \<in> set (ready pr)"
      using l assms(2) True by (auto simp: prog_listed_def members_def)
    have pr': "pr' = reprog (tcb_state a) st p pr"
      using assms(3,4) True by (simp add: moved_sel(2) [OF assms(2) False])
    have "length (ready pr) \<le> tcb_counter pr"
      using l by (simp add: prog_listed_def)
    moreover have "tcb_state a = READY \<Longrightarrow> \<exists>n. length (ready pr) = Suc n"
      using r by (cases "ready pr") auto
    ultimately show ?thesis
      using length_relist [OF r, of st] by (auto simp: pr' reprog_def)
  next
    case False
    with assms(3,4) show ?thesis
      by (simp add: moved_sel(2) [OF assms(2) \<open>tcb_state a \<noteq> st\<close>])
  qed
qed

lemma counters_moved:
  assumes "core_inv M s" "tcbs s p = Some a" "counters_ok s" "tcb_state a \<noteq> NEW" "st \<noteq> NEW"
  shows "counters_ok (moved E p st s)"
proof -
  have "newList (moved E p st s) = newList s"
    using assms(2,4,5) by (auto simp: moved_def case_prod_beta Let_def relist_def)
  moreover have "tcb_counter pr' = length (ready pr') + length (wakeupList pr')"
    if pr': "progs (moved E p st s) c = Some pr'" for c pr'
  proof (cases "progs s c")
    case None
    with pr' assms(2) show ?thesis by (auto simp: moved_def case_prod_beta Let_def split: if_splits)
  next
    case (Some pr)
    obtain pr'' where "progs (moved E p st s) c = Some pr''" "wakeupList pr'' = wakeupList pr"
      by (rule moved_prog [OF Some])
    with moved_slack [OF assms(1,2) Some pr'] pr' Some assms(3) show ?thesis
      by (simp add: counters_ok_def)
  qed
  ultimately show ?thesis
    using assms(3) by (simp add: counters_ok_def)
qed

lemma wakeup_ok_moved:
  assumes "tcbs s p = Some a" "wakeup_ok s"
  shows "wakeup_ok (moved E p st s)"
  unfolding wakeup_ok_def
proof (intro allI impI)
  fix c pr' q
  assume pr': "progs (moved E p st s) c = Some pr'" and q: "q \<in> set (wakeupList pr')"
  have "progs s c \<noteq> None"
    using pr' assms(1) by (auto simp: moved_def case_prod_beta Let_def split: if_splits)
  then obtain pr where pr: "progs s c = Some pr" by auto
  obtain pr'' where "progs (moved E p st s) c = Some pr''" "wakeupList pr'' = wakeupList pr"
    "prog_socket pr'' = prog_socket pr"
    by (rule moved_prog [OF pr])
  with pr' q pr assms(2) obtain x where "tcbs s q = Some x" "tcb_socket x = prog_socket pr'"
    unfolding wakeup_ok_def by fastforce
  moreover obtain b where
    "tcbs (moved E p st s) = (tcbs s)(p \<mapsto> a\<lparr>tcb_time := b, tcb_state := st\<rparr>)"
    by (rule moved_tcb [OF assms(1)])
  ultimately show "\<exists>x. tcbs (moved E p st s) q = Some x \<and> tcb_socket x = prog_socket pr'"
    using assms(1) by auto
qed

lemma sems_ok_moved [simp]: "sems_ok (moved E p st s) = sems_ok s"
  by (simp add: sems_ok_def)

end
