(* ===== verification/SuseOps.thy ===== *)
theory SuseOps
  imports SuseWait
begin

text \<open>
  Every operation of the scheduler, in a state that satisfies the invariant and on a program that
  may perform it, returns, keeps the invariant and leaves the other programs alone. The lemmas also
  say what each operation does.
\<close>

section \<open>Updates outside the state lists\<close>

lemma set_sem_sel [simp]:
  "tcbs (set_sem m x s) = tcbs s" "progs (set_sem m x s) = progs s"
  "sems (set_sem m x s) = (sems s)(m \<mapsto> x)" "newList (set_sem m x s) = newList s"
  "blockedList (set_sem m x s) = blockedList s" "exitList (set_sem m x s) = exitList s"
  "clientes (set_sem m x s) = clientes s" "semaforos (set_sem m x s) = semaforos s"
  "mallocs (set_sem m x s) = mallocs s" "new_counter (set_sem m x s) = new_counter s"
  "multiprog_degree (set_sem m x s) = multiprog_degree s" "endsuse (set_sem m x s) = endsuse s"
  "available_multiprog (set_sem m x s) = available_multiprog s"
  by (simp_all add: set_sem_def)

lemma set_prog_sel [simp]:
  "tcbs (set_prog c pr s) = tcbs s" "progs (set_prog c pr s) = (progs s)(c \<mapsto> pr)"
  "sems (set_prog c pr s) = sems s" "newList (set_prog c pr s) = newList s"
  "blockedList (set_prog c pr s) = blockedList s" "exitList (set_prog c pr s) = exitList s"
  "clientes (set_prog c pr s) = clientes s" "semaforos (set_prog c pr s) = semaforos s"
  "mallocs (set_prog c pr s) = mallocs s" "new_counter (set_prog c pr s) = new_counter s"
  "multiprog_degree (set_prog c pr s) = multiprog_degree s" "endsuse (set_prog c pr s) = endsuse s"
  "available_multiprog (set_prog c pr s) = available_multiprog s"
  by (simp_all add: set_prog_def)

lemma set_tcb_sel [simp]:
  "tcbs (set_tcb p a s) = (tcbs s)(p \<mapsto> a)" "progs (set_tcb p a s) = progs s"
  "sems (set_tcb p a s) = sems s" "newList (set_tcb p a s) = newList s"
  "blockedList (set_tcb p a s) = blockedList s" "exitList (set_tcb p a s) = exitList s"
  "clientes (set_tcb p a s) = clientes s" "semaforos (set_tcb p a s) = semaforos s"
  "mallocs (set_tcb p a s) = mallocs s" "new_counter (set_tcb p a s) = new_counter s"
  "multiprog_degree (set_tcb p a s) = multiprog_degree s" "endsuse (set_tcb p a s) = endsuse s"
  "available_multiprog (set_tcb p a s) = available_multiprog s"
  by (simp_all add: set_tcb_def)

text \<open>The sets of threads depend on the thread control blocks alone.\<close>

lemma sets_cong:
  assumes "tcbs s' = tcbs s"
  shows "in_state s' = in_state s" "members s' = members s" "active_set s' = active_set s"
  using assms by (auto simp: in_state_def members_def active_set_def fun_eq_iff)

lemma core_inv_set_sem:
  assumes "core_inv M s" "sems s m = Some y"
  shows "core_inv M (set_sem m x s)"
proof -
  note c = sets_cong [of "set_sem m x s" s, simplified]
  note inv = core_invD [OF assms(1)]
  have "heap_ok (set_sem m x s)" using inv(1) assms(2) by (auto simp: heap_ok_def)
  moreover have "lists_ok (set_sem m x s)"
    using inv(5) by (simp add: lists_ok_def listed_def prog_listed_def c)
  moreover have "owned (set_sem m x s)" "degree_ok M (set_sem m x s)"
    using inv(4,6) by (simp_all add: owned_def degree_ok_def c)
  ultimately show ?thesis using inv(2,3) by (simp add: core_inv_def)
qed

lemma core_inv_set_prog:
  assumes "core_inv M s" "progs s c = Some pr" "prog_socket pr' = prog_socket pr"
    "ready pr' = ready pr" "exec pr' = exec pr" "length (ready pr) \<le> tcb_counter pr'"
  shows "core_inv M (set_prog c pr' s)"
proof -
  note cong = sets_cong [of "set_prog c pr' s" s, simplified]
  note inv = core_invD [OF assms(1)]
  have "heap_ok (set_prog c pr' s)" using inv(1) assms(2) by (auto simp: heap_ok_def)
  moreover have "prog_listed s pr" using inv(5) assms(2) by (simp add: lists_ok_def)
  then have "lists_ok (set_prog c pr' s)"
    using inv(5) assms(3-6) by (auto simp: lists_ok_def listed_def prog_listed_def exec_set_def cong)
  moreover have "owned (set_prog c pr' s)"
    unfolding owned_def
  proof (intro allI impI)
    fix p a
    assume "tcbs (set_prog c pr' s) p = Some a"
    then obtain d qr where "progs s d = Some qr" "prog_socket qr = tcb_socket a"
      by (auto elim: owner [OF assms(1)])
    then show "\<exists>d qr. progs (set_prog c pr' s) d = Some qr \<and> prog_socket qr = tcb_socket a"
      using assms(2,3) by (cases "d = c") auto
  qed
  moreover have "degree_ok M (set_prog c pr' s)" using inv(6) by (simp add: degree_ok_def cong)
  ultimately show ?thesis
    using inv(2) progs_ok_upd [OF inv(3) assms(2,3)] by (simp add: core_inv_def)
qed

lemma evolves_set_sem [simp]: "evolves sock s (set_sem m x s)"
  by (simp add: evolves_def)

lemma evolves_set_prog:
  assumes "progs s c = Some pr" "prog_id pr' = prog_id pr" "prog_socket pr' = prog_socket pr"
    "main_loaded_mutex pr' = main_loaded_mutex pr" "exec pr' = exec pr"
  shows "evolves sock s (set_prog c pr' s)"
  using assms by (auto simp: evolves_def prog_evolves_def)

section \<open>The running thread\<close>

lemma exec_tcb:
  assumes "core_inv M s" "progs s c = Some pr" "exec pr \<noteq> NULL"
  obtains e where "tcbs s (exec pr) = Some e" "tcb_state e = EXEC" "tcb_socket e = prog_socket pr"
proof -
  have "exec_set pr = members s EXEC (prog_socket pr)"
    using core_invD(5) [OF assms(1)] assms(2) by (auto simp: lists_ok_def prog_listed_def)
  with assms(3) have "exec pr \<in> members s EXEC (prog_socket pr)" by (auto simp: exec_set_def)
  with that show thesis by (auto simp: members_def)
qed

lemma exec_unique:
  assumes "core_inv M s" "progs s c = Some pr" "tcbs s p = Some a" "tcb_state a = EXEC"
    "tcb_socket a = prog_socket pr"
  shows "exec pr = p"
proof -
  have "exec_set pr = members s EXEC (prog_socket pr)"
    using core_invD(5) [OF assms(1)] assms(2) by (auto simp: lists_ok_def prog_listed_def)
  moreover have "p \<in> members s EXEC (prog_socket pr)" using assms(3-5) by (simp add: members_def)
  ultimately have "p \<in> exec_set pr" by simp
  then show ?thesis by (simp add: exec_set_def split: if_splits)
qed

lemma ready_mem:
  assumes "core_inv M s" "progs s c = Some pr"
  shows "p \<in> set (ready pr) \<longleftrightarrow>
    (\<exists>a. tcbs s p = Some a \<and> tcb_state a = READY \<and> tcb_socket a = prog_socket pr)"
  using core_invD(5) [OF assms(1)] assms(2) by (auto simp: lists_ok_def prog_listed_def members_def)

section \<open>Semaphores\<close>

lemma get_semaforo_from_cases:
  assumes "\<forall>m \<in> set ms. h m \<noteq> None"
  shows "(\<exists>m x. get_semaforo_from h ms name = Ret m \<and> m \<in> set ms \<and> h m = Some x \<and> sem_id x = name) \<or>
    (get_semaforo_from h ms name = Ret NULL \<and> (\<forall>m \<in> set ms. \<forall>x. h m = Some x \<longrightarrow> sem_id x \<noteq> name))"
  using assms
proof (induction ms)
  case (Cons m ms)
  then obtain x where x: "h m = Some x" by auto
  show ?case
  proof (cases "sem_id x = name")
    case True
    with x show ?thesis by (intro disjI1 exI [of _ m] exI [of _ x]) simp
  next
    case False
    have "(\<exists>m x. get_semaforo_from h ms name = Ret m \<and> m \<in> set ms \<and> h m = Some x \<and> sem_id x = name) \<or>
      (get_semaforo_from h ms name = Ret NULL \<and> (\<forall>m \<in> set ms. \<forall>x. h m = Some x \<longrightarrow> sem_id x \<noteq> name))"
      using Cons by simp
    with False x show ?thesis by auto
  qed
qed simp

lemma get_semaforo_found:
  assumes "sems_ok s" "get_semaforo s name = Ret m" "m \<noteq> NULL"
  obtains x where "sems s m = Some x" "sem_id x = name" "sem_ok x"
  using get_semaforo_from_cases [of "semaforos s" "sems s" name] assms
  by (auto simp: get_semaforo_def sems_ok_def)

definition wait_result :: "suse_env \<Rightarrow> ptr \<Rightarrow> ptr \<Rightarrow> t_semaforo \<Rightarrow> suse \<Rightarrow> suse" where
  "wait_result E m e x s =
     (if 0 < valor x then set_sem m (x\<lparr>valor := valor x - 1\<rparr>) s
      else moved E e BLOCKED (set_sem m (x\<lparr>valor := valor x - 1, blocked := blocked x @ [e]\<rparr>) s))"

lemma full_inv_set_valor:
  assumes "full_inv M s" "sems s m = Some x" "blocked x' = blocked x" "sem_ok x'"
  shows "full_inv M (set_sem m x' s)"
proof -
  note inv = full_invD [OF assms(1)]
  have "waiters (set_sem m x' s) = waiters s"
  proof
    fix r show "waiters (set_sem m x' s) r = waiters s r" using assms(2,3) by (cases r) auto
  qed
  moreover have "sems_ok (set_sem m x' s)" using inv(5) assms(2,4) by (auto simp: sems_ok_def)
  ultimately show ?thesis
    using inv core_inv_set_sem [OF inv(1) assms(2)]
    by (simp add: full_inv_def counters_ok_def wakeup_ok_def sets_cong [of "set_sem m x' s" s])
qed

lemma block_state:
  assumes "full_inv M s" "tcbs s p = Some a" "tcb_state a = EXEC" "core_inv M s1"
    "tcbs s1 p = Some a1" "tcb_state a1 = EXEC" "in_state s1 BLOCKED = in_state s BLOCKED"
    "counters_ok s1" "wakeup_ok s1" "sems_ok s1" "waiters s1 = (waiters s)(r := waiters s r @ [p])"
  shows "full_inv M (moved E p BLOCKED s1)"
proof -
  note inv = full_invD [OF assms(1)]
  have "p \<notin> in_state s BLOCKED" using assms(2,3) by (simp add: in_state_def)
  from waits_add [OF inv(2) this]
  have "waits (in_state (moved E p BLOCKED s1) BLOCKED) (waiters (moved E p BLOCKED s1))"
    using assms(5-7,11) by (simp add: in_state_moved waiters_moved)
  moreover have "core_inv M (moved E p BLOCKED s1)"
    using assms(4-6) by (intro core_inv_moved) auto
  moreover have "counters_ok (moved E p BLOCKED s1)"
    using assms(6) by (intro counters_moved [OF assms(4,5,8)]) auto
  ultimately show ?thesis
    using wakeup_ok_moved [OF assms(5,9)] assms(10) by (simp add: full_inv_def)
qed

lemma suse_wait_ok:
  assumes "full_inv M s" "progs s c = Some pr" "tcbs s (exec pr) = Some e" "tid e = t"
    "get_semaforo s name = Ret m" "m \<noteq> NULL" "sems s m = Some x"
  shows "suse_wait E t name c s = Ret (wait_result E m (exec pr) x s)"
    "full_inv M (wait_result E m (exec pr) x s)"
    "evolves (prog_socket pr) s (wait_result E m (exec pr) x s)"
proof -
  note inv = full_invD [OF assms(1)]
  have sem: "sem_ok x"
    using get_semaforo_found [OF inv(5) assms(5,6)] assms(7) by (metis option.inject)
  have NULL: "exec pr \<noteq> NULL"
    using heap_ok_NULL(1) [OF core_invD(1) [OF inv(1)]] assms(3) by (intro notI) simp
  have e: "tcb_state e = EXEC" "tcb_socket e = prog_socket pr"
    using exec_tcb [OF inv(1) assms(2) NULL] assms(3) by auto
  let ?w = "wait_result E m (exec pr) x s"
  define y where "y = x\<lparr>valor := valor x - 1, blocked := blocked x @ [exec pr]\<rparr>"
  have s1: "core_inv M (set_sem m y s)" by (rule core_inv_set_sem [OF inv(1) assms(7)])
  have "move_tcb_to E (exec pr) BLOCKED (set_sem m y s) =
      Ret (moved E (exec pr) BLOCKED (set_sem m y s))"
    using s1 assms(3) e(1) by (intro move_refines) auto
  then show "suse_wait E t name c s = Ret ?w"
    using assms(2-7)
    by (auto simp: suse_wait_def wait_result_def block_def Let_def y_def set_sem_def)
  show "full_inv M ?w"
  proof (cases "0 < valor x")
    case True
    with sem have "sem_ok (x\<lparr>valor := valor x - 1\<rparr>)" by (simp add: sem_ok_def)
    with full_inv_set_valor [OF assms(1,7), of "x\<lparr>valor := valor x - 1\<rparr>"] True
    show ?thesis by (simp add: wait_result_def)
  next
    case False
    have "waiters (set_sem m y s) = (waiters s)(OnSem m := waiters s (OnSem m) @ [exec pr])"
    proof
      fix r
      show "waiters (set_sem m y s) r =
          ((waiters s)(OnSem m := waiters s (OnSem m) @ [exec pr])) r"
        using assms(7) by (cases r) (auto simp: y_def)
    qed
    moreover have "sem_ok y" using sem False by (auto simp: sem_ok_def y_def)
    then have "sems_ok (set_sem m y s)" using inv(5) by (auto simp: sems_ok_def)
    ultimately have "full_inv M (moved E (exec pr) BLOCKED (set_sem m y s))"
      using inv(3,4) assms(3) e s1
      by (intro block_state [where r = "OnSem m", OF assms(1,3) e(1) s1])
        (auto simp: counters_ok_def wakeup_ok_def sets_cong [of "set_sem m y s" s])
    with False show ?thesis by (simp add: wait_result_def y_def)
  qed
  have "evolves (prog_socket pr) (set_sem m y s) (moved E (exec pr) BLOCKED (set_sem m y s))"
    using assms(3) e by (intro evolves_moved [OF s1]) auto
  then show "evolves (prog_socket pr) s ?w"
    using evolves_trans [OF evolves_set_sem, of "prog_socket pr" m y s]
    by (simp add: wait_result_def y_def)
qed

text \<open>The state after a wake-up: the thread goes from the semaphore to the list of its program.\<close>

definition woken_result :: "ptr \<Rightarrow> t_semaforo \<Rightarrow> ptr \<Rightarrow> t_program \<Rightarrow> ptr \<Rightarrow> suse \<Rightarrow> suse" where
  "woken_result m x d dr q s =
     set_prog d (dr\<lparr>wakeupList := wakeupList dr @ [q], tcb_counter := tcb_counter dr + 1\<rparr>)
       (set_sem m x s)"

lemma waits_transfer:
  assumes "waits B W" "W r = q # qs" "r' \<noteq> r"
  shows "waits B (W(r := qs, r' := W r' @ [q]))"
proof -
  have d: "distinct (q # qs)" using assms(1,2) by (metis waits_def)
  have "waits (B - {q}) (W(r := qs))"
    using d assms(2) by (intro waits_del [OF assms(1)]) auto
  from waits_add [OF this, of q r'] have "waits (insert q (B - {q})) (W(r := qs, r' := W r' @ [q]))"
    using assms(3) by (simp add: fun_upd_twist)
  moreover have "q \<in> B" by (rule waits_mem [OF assms(1), of q r]) (simp add: assms(2))
  ultimately show ?thesis by (simp add: insert_absorb)
qed

lemma woken_ok:
  assumes "full_inv M s" "sems s m = Some x" "blocked x = q # qs" "blocked x' = qs" "sem_ok x'"
  obtains a d dr where "tcbs s q = Some a" "progs s d = Some dr" "prog_socket dr = tcb_socket a"
    "wakeup m (set_sem m (x'\<lparr>blocked := q # qs\<rparr>) s) = Ret (woken_result m x' d dr q s)"
    "full_inv M (woken_result m x' d dr q s)" "evolves sock s (woken_result m x' d dr q s)"
proof -
  note inv = full_invD [OF assms(1)]
  have "q \<in> in_state s BLOCKED"
    by (rule waits_mem [OF inv(2), of q "OnSem m"]) (simp add: assms(2,3))
  then obtain a where a: "tcbs s q = Some a" "tcb_state a = BLOCKED" by (auto simp: in_state_def)
  obtain d dr where d: "progs s d = Some dr" "prog_socket dr = tcb_socket a"
    by (rule owner [OF inv(1) a(1)])
  let ?w = "woken_result m x' d dr q s"
  let ?s1 = "set_sem m x' s"
  let ?dr' = "dr\<lparr>wakeupList := wakeupList dr @ [q], tcb_counter := tcb_counter dr + 1\<rparr>"
  have s1: "core_inv M ?s1" by (rule core_inv_set_sem [OF inv(1) assms(2)])
  have "get_program ?s1 (tcb_socket a) = Ret d"
    using core_invD(3) [OF s1] d by (intro get_program_mem) auto
  then have "notify_wakeup q ?s1 = Ret ?w"
    using a(1) d by (simp add: notify_wakeup_def woken_result_def)
  moreover have "set_sem m (x'\<lparr>blocked := qs\<rparr>) (set_sem m (x'\<lparr>blocked := q # qs\<rparr>) s) = ?s1"
  proof -
    have "x'\<lparr>blocked := qs\<rparr> = x'" using assms(4) by (intro t_semaforo.equality) auto
    then show ?thesis by (simp add: set_sem_def)
  qed
  ultimately have w: "wakeup m (set_sem m (x'\<lparr>blocked := q # qs\<rparr>) s) = Ret ?w"
    by (simp add: wakeup_def)
  have "waiters ?w = (waiters s)(OnSem m := qs, OnWakeup d := waiters s (OnWakeup d) @ [q])"
  proof
    fix r
    show "waiters ?w r = ((waiters s)(OnSem m := qs, OnWakeup d := waiters s (OnWakeup d) @ [q])) r"
      using assms(4) d by (cases r) (auto simp: woken_result_def)
  qed
  moreover have "waits (in_state s BLOCKED)
      ((waiters s)(OnSem m := qs, OnWakeup d := waiters s (OnWakeup d) @ [q]))"
    using assms(2,3) by (intro waits_transfer [OF inv(2)]) auto
  moreover have "in_state ?w = in_state s"
    by (rule sets_cong) (simp add: woken_result_def)
  ultimately have "waits (in_state ?w BLOCKED) (waiters ?w)" by simp
  moreover have "prog_listed s dr"
    using core_invD(5) [OF inv(1)] d(1) by (simp add: lists_ok_def)
  then have "core_inv M ?w"
    unfolding woken_result_def using d
    by (intro core_inv_set_prog [OF s1, of d dr]) (auto simp: prog_listed_def)
  moreover have "counters_ok ?w"
    using inv(3) d by (auto simp: counters_ok_def woken_result_def)
  moreover have "wakeup_ok ?w"
    unfolding wakeup_ok_def
  proof (intro allI impI)
    fix c pr p
    assume "progs ?w c = Some pr" "p \<in> set (wakeupList pr)"
    then have "(p = q \<and> prog_socket pr = tcb_socket a) \<or>
        (\<exists>pr'. progs s c = Some pr' \<and> prog_socket pr' = prog_socket pr \<and> p \<in> set (wakeupList pr'))"
      using d by (auto simp: woken_result_def split: if_splits)
    then show "\<exists>b. tcbs ?w p = Some b \<and> tcb_socket b = prog_socket pr"
      using inv(4) a(1) unfolding wakeup_ok_def woken_result_def set_prog_sel set_sem_sel by metis
  qed
  moreover have "sems_ok ?w"
    using inv(5) assms(5) by (auto simp: sems_ok_def woken_result_def)
  ultimately have full: "full_inv M ?w" by (simp add: full_inv_def)
  have "evolves sock ?s1 ?w"
    unfolding woken_result_def using d by (intro evolves_set_prog) auto
  then have "evolves sock s ?w" by (rule evolves_trans [OF evolves_set_sem])
  with a(1) d w full show thesis by (rule that)
qed

definition raised :: "t_semaforo \<Rightarrow> int" where
  "raised x = (if valor x < max_value x then valor x + 1 else valor x)"

lemma suse_signal_ok:
  assumes "full_inv M s" "progs s c = Some pr" "tcbs s (exec pr) = Some e" "tid e = t"
    "get_semaforo s name = Ret m" "sems s m = Some x"
  obtains s' where "suse_signal t name c s = Ret s'" "full_inv M s'" "evolves (prog_socket pr) s s'"
    "valor x < 0 \<Longrightarrow> \<exists>q qs d dr. blocked x = q # qs \<and> progs s d = Some dr \<and>
      s' = woken_result m (x\<lparr>valor := valor x + 1, blocked := qs\<rparr>) d dr q s"
    "0 \<le> valor x \<Longrightarrow> s' = set_sem m (x\<lparr>valor := raised x\<rparr>) s"
proof -
  note inv = full_invD [OF assms(1)]
  have sem: "sem_ok x" using inv(5) assms(6) by (auto simp: sems_ok_def)
  have def: "suse_signal t name c s = (let s1 = set_sem m (x\<lparr>valor := raised x\<rparr>) s in
      if raised x \<le> 0 then wakeup m s1 else Ret s1)"
    using assms(2-6) by (simp add: suse_signal_def raised_def Let_def)
  show thesis
  proof (cases "0 \<le> valor x")
    case True
    then have r: "0 < raised x" using sem by (auto simp: raised_def sem_ok_def)
    have "sem_ok (x\<lparr>valor := raised x\<rparr>)" using sem True by (auto simp: raised_def sem_ok_def)
    then have "full_inv M (set_sem m (x\<lparr>valor := raised x\<rparr>) s)"
      by (intro full_inv_set_valor [OF assms(1,6)]) auto
    then show thesis using True r def by (intro that) auto
  next
    case False
    then have r: "raised x = valor x + 1" "raised x \<le> 0" using sem by (auto simp: raised_def sem_ok_def)
    have "0 < length (blocked x)" using False sem by (auto simp: sem_ok_def)
    then obtain q qs where q: "blocked x = q # qs" by (cases "blocked x") auto
    let ?x = "x\<lparr>valor := valor x + 1, blocked := qs\<rparr>"
    have "sem_ok ?x" using sem False q by (auto simp: sem_ok_def)
    then obtain d dr where w: "progs s d = Some dr"
      "wakeup m (set_sem m (?x\<lparr>blocked := q # qs\<rparr>) s) = Ret (woken_result m ?x d dr q s)"
      "full_inv M (woken_result m ?x d dr q s)"
      "evolves (prog_socket pr) s (woken_result m ?x d dr q s)"
      by (elim woken_ok [OF assms(1,6) q, of ?x "prog_socket pr", rotated]) simp_all
    moreover have "?x\<lparr>blocked := q # qs\<rparr> = x\<lparr>valor := raised x\<rparr>"
      using q r by simp
    ultimately have "suse_signal t name c s = Ret (woken_result m ?x d dr q s)"
      using def r by (simp add: Let_def)
    then show thesis using w q False by (intro that) auto
  qed
qed

section \<open>Waking threads up\<close>

text \<open>
  The loop of \<open>wakeup_threads\<close> removes the element at the loop counter and then increases the
  counter: it takes every other thread.
\<close>

fun evens :: "'a list \<Rightarrow> 'a list" where
  "evens [] = []"
| "evens [x] = [x]"
| "evens (x # y # xs) = x # evens xs"

fun odds :: "'a list \<Rightarrow> 'a list" where
  "odds [] = []"
| "odds [x] = []"
| "odds (x # y # xs) = y # odds xs"

lemma length_evens: "length (evens xs) = (length xs + 1) div 2"
  by (induction xs rule: evens.induct) auto

lemma length_odds: "length (odds xs) = length xs div 2"
  by (induction xs rule: odds.induct) auto

lemma wakeup_ok_set_prog:
  assumes "wakeup_ok s" "progs s c = Some pr" "prog_socket pr' = prog_socket pr"
    "set (wakeupList pr') \<subseteq> set (wakeupList pr)"
  shows "wakeup_ok (set_prog c pr' s)"
  unfolding wakeup_ok_def
proof (intro allI impI)
  fix d dr p
  assume "progs (set_prog c pr' s) d = Some dr" "p \<in> set (wakeupList dr)"
  then obtain qr where "progs s d = Some qr" "prog_socket qr = prog_socket dr"
    "p \<in> set (wakeupList qr)"
    using assms(2-4) by (cases "d = c") auto
  with assms(1) obtain a where "tcbs s p = Some a" "tcb_socket a = prog_socket dr"
    unfolding wakeup_ok_def by metis
  then show "\<exists>a. tcbs (set_prog c pr' s) p = Some a \<and> tcb_socket a = prog_socket dr" by simp
qed

lemma wakeup_step:
  assumes "full_inv M s" "progs s c = Some pr" "wakeupList pr = keep @ p # rest"
  obtains s1 s2 where
    "move_tcb_to E p READY (set_prog c (pr\<lparr>wakeupList := keep @ rest\<rparr>) s) = Ret s1"
    "wait_tcb_counter c s1 = Ret s2" "full_inv M s2" "evolves sock s s2"
    "progs s2 = (progs s)(c \<mapsto> pr\<lparr>wakeupList := keep @ rest, ready := ready pr @ [p]\<rparr>)"
    "sems s2 = sems s" "semaforos s2 = semaforos s"
proof -
  note inv = full_invD [OF assms(1)]
  let ?pr0 = "pr\<lparr>wakeupList := keep @ rest\<rparr>"
  let ?pr2 = "pr\<lparr>wakeupList := keep @ rest, ready := ready pr @ [p]\<rparr>"
  define s0 where "s0 = set_prog c ?pr0 s"
  define s1 where "s1 = moved E p READY s0"
  have "p \<in> in_state s BLOCKED"
    by (rule waits_mem [OF inv(2), of p "OnWakeup c"]) (simp add: assms(2,3))
  then obtain a where a: "tcbs s p = Some a" "tcb_state a = BLOCKED" by (auto simp: in_state_def)
  have sock: "prog_socket pr = tcb_socket a"
    using inv(4) assms(2,3) a(1) by (fastforce simp: wakeup_ok_def)
  have cnt: "tcb_counter pr = length (ready pr) + Suc (length keep + length rest)"
    using inv(3) assms(2,3) by (simp add: counters_ok_def)
  have c0: "core_inv M s0"
    unfolding s0_def using cnt by (intro core_inv_set_prog [OF inv(1) assms(2)]) auto
  have a0: "tcbs s0 p = Some a" by (simp add: s0_def a(1))
  have move: "move_tcb_to E p READY s0 = Ret s1"
    unfolding s1_def using a(2) by (intro move_refines [OF c0 a0]) auto
  have c1: "core_inv M s1"
    unfolding s1_def using a(2) by (intro core_inv_moved [OF c0 a0]) auto
  have progs1: "progs s1 = (progs s)(c \<mapsto> ?pr2\<lparr>tcb_counter := tcb_counter pr + 1\<rparr>)"
    using a(2) sock moved_eq [OF core_invD(3) [OF c0] a0, of READY c ?pr0 E]
    by (simp add: s1_def s0_def Let_def case_prod_beta reprog_def relist_def)
  define s2 where "s2 = set_prog c ?pr2 s1"
  have wait: "wait_tcb_counter c s1 = Ret s2"
    by (simp add: wait_tcb_counter_def progs1 s2_def)
  have progs2: "progs s2 = (progs s)(c \<mapsto> ?pr2)" by (simp add: s2_def progs1)
  have c2: "core_inv M s2"
    unfolding s2_def using cnt progs1
    by (intro core_inv_set_prog [OF c1, of c "?pr2\<lparr>tcb_counter := tcb_counter pr + 1\<rparr>"]) auto
  have nl: "newList s2 = newList s" "new_counter s2 = new_counter s"
    using a0 a(2) by (simp_all add: s2_def s1_def moved_sel relist_def) (simp_all add: s0_def)
  have w2: "waiters s2 = (waiters s)(OnWakeup c := keep @ rest)"
  proof
    fix r
    have "waiters s1 = waiters s0" unfolding s1_def using a0 a(2) by (simp add: waiters_moved)
    moreover have "waiters s2 r = waiters s1 r" if "\<forall>d. r \<noteq> OnWakeup d"
      using that by (cases r) (auto simp: s2_def)
    moreover have "waiters s0 r = waiters s r" if "\<forall>d. r \<noteq> OnWakeup d"
      using that by (cases r) (auto simp: s0_def)
    ultimately show "waiters s2 r = ((waiters s)(OnWakeup c := keep @ rest)) r"
      by (cases r) (auto simp: progs2)
  qed
  have "tcbs s2 = tcbs s1" by (simp add: s2_def)
  then have "in_state s2 BLOCKED = in_state s1 BLOCKED" by (simp only: sets_cong(1) [of s2 s1])
  also have "\<dots> = in_state s BLOCKED - {p}"
    unfolding s1_def using a0 by (simp add: in_state_moved sets_cong(1) [of s0 s, unfolded s0_def] s0_def)
  finally have b2: "in_state s2 BLOCKED = in_state s BLOCKED - {p}" .
  have "distinct (waiters s (OnWakeup c))" using inv(2) unfolding waits_def by blast
  then have dist: "distinct (keep @ p # rest)" using assms(2,3) by simp
  have "waits (in_state s2 BLOCKED) (waiters s2)"
    unfolding b2 w2 using dist assms(2,3) by (intro waits_del [OF inv(2)]) auto
  moreover have "counters_ok s2"
    using inv(3) cnt assms(3) by (auto simp: counters_ok_def progs2 nl)
  moreover have "wakeup_ok s2"
  proof -
    have "wakeup_ok s0"
      unfolding s0_def using assms(3) by (intro wakeup_ok_set_prog [OF inv(4) assms(2)]) auto
    then have "wakeup_ok s1" unfolding s1_def by (rule wakeup_ok_moved [OF a0])
    then show ?thesis
      unfolding s2_def using progs1
      by (intro wakeup_ok_set_prog [of _ c "?pr2\<lparr>tcb_counter := tcb_counter pr + 1\<rparr>"]) auto
  qed
  moreover have "sems_ok s2" using inv(5) by (simp add: sems_ok_def s2_def s1_def s0_def)
  ultimately have full: "full_inv M s2" using c2 by (simp add: full_inv_def)
  have "evolves sock s s0" unfolding s0_def using assms(2) by (intro evolves_set_prog) auto
  moreover have "evolves sock s0 s1"
    unfolding s1_def using a(2) by (intro evolves_moved [OF c0 a0]) auto
  moreover have "evolves sock s1 s2"
    unfolding s2_def using progs1
    by (intro evolves_set_prog [of _ _ "?pr2\<lparr>tcb_counter := tcb_counter pr + 1\<rparr>"]) auto
  ultimately have ev: "evolves sock s s2" by (blast intro: evolves_trans)
  show thesis
    by (rule that [of s1 s2])
      (use move wait full ev progs2 in \<open>simp_all add: s0_def s1_def s2_def\<close>)
qed

lemma wakeup_loop_ok:
  assumes "full_inv M s" "progs s c = Some pr" "wakeupList pr = keep @ rest" "length rest < n"
  shows "\<exists>s'. wakeup_loop n E c (length keep) s = Ret s' \<and> full_inv M s' \<and> evolves sock s s' \<and>
    progs s' = (progs s)(c \<mapsto> pr\<lparr>wakeupList := keep @ odds rest, ready := ready pr @ evens rest\<rparr>) \<and>
    sems s' = sems s \<and> semaforos s' = semaforos s"
  using assms
proof (induction rest arbitrary: n s pr keep rule: evens.induct)
  case 1
  then obtain n' where n: "n = Suc n'" by (cases n) auto
  have "pr\<lparr>wakeupList := keep, ready := ready pr\<rparr> = pr" using "1.prems"(3) by simp
  with "1.prems" n show ?case by (auto simp: fun_upd_idem)
next
  case (2 x)
  then obtain n' where n: "n = Suc (Suc n')"
    by (cases n; cases "n - 1") auto
  obtain s1 s2 where st: "move_tcb_to E x READY (set_prog c (pr\<lparr>wakeupList := keep @ []\<rparr>) s) = Ret s1"
    "wait_tcb_counter c s1 = Ret s2" "full_inv M s2" "evolves sock s s2"
    "progs s2 = (progs s)(c \<mapsto> pr\<lparr>wakeupList := keep @ [], ready := ready pr @ [x]\<rparr>)"
    "sems s2 = sems s" "semaforos s2 = semaforos s"
    by (rule wakeup_step [OF "2.prems"(1,2), of keep x "[]" E sock]) (use "2.prems"(3) in auto)
  have "wakeup_loop n E c (length keep) s = Ret s2"
    using st(1,2,5) "2.prems"(2,3) by (simp add: n list_remove_nth)
  with st(3-7) show ?case by auto
next
  case (3 x y xs)
  then obtain n' where n: "n = Suc n'" by (cases n) auto
  obtain s1 s2 where st:
    "move_tcb_to E x READY (set_prog c (pr\<lparr>wakeupList := keep @ y # xs\<rparr>) s) = Ret s1"
    "wait_tcb_counter c s1 = Ret s2" "full_inv M s2" "evolves sock s s2"
    "progs s2 = (progs s)(c \<mapsto> pr\<lparr>wakeupList := keep @ y # xs, ready := ready pr @ [x]\<rparr>)"
    "sems s2 = sems s" "semaforos s2 = semaforos s"
    by (rule wakeup_step [OF "3.prems"(1,2), of keep x "y # xs" E sock]) (use "3.prems"(3) in auto)
  let ?pr2 = "pr\<lparr>wakeupList := keep @ y # xs, ready := ready pr @ [x]\<rparr>"
  have c: "progs s2 c = Some ?pr2" by (simp add: st(5))
  have eq: "(progs s2)(c \<mapsto> z) = (progs s)(c \<mapsto> z)" for z by (simp add: st(5))
  have "wakeupList ?pr2 = (keep @ [y]) @ xs" "length xs < n'" using "3.prems"(4) n by simp_all
  from "3.IH" [OF st(3) c this]
  obtain s' where raw: "wakeup_loop n' E c (length (keep @ [y])) s2 = Ret s'" "full_inv M s'"
    "evolves sock s2 s'" "progs s' = (progs s2)(c \<mapsto>
      ?pr2\<lparr>wakeupList := (keep @ [y]) @ odds xs, ready := ready ?pr2 @ evens xs\<rparr>)"
    "sems s' = sems s2" "semaforos s' = semaforos s2"
    by blast
  have s': "wakeup_loop n' E c (Suc (length keep)) s2 = Ret s'" "full_inv M s'" "evolves sock s2 s'"
    "progs s' = (progs s)(c \<mapsto> pr\<lparr>wakeupList := keep @ y # odds xs, ready := ready pr @ x # evens xs\<rparr>)"
    "sems s' = sems s" "semaforos s' = semaforos s"
    using raw by (simp_all add: eq st(6,7))
  have "wakeup_loop n E c (length keep) s = Ret s'"
    using st(1,2) s'(1) "3.prems"(2,3) by (simp add: n list_remove_nth)
  with s' evolves_trans [OF st(4) s'(3)] show ?case by auto
qed

lemma wakeup_threads_ok:
  assumes "full_inv M s" "progs s c = Some pr"
  obtains s' where "wakeup_threads E c s = Ret (wakeupList pr \<noteq> [], s')" "full_inv M s'"
    "evolves sock s s'"
    "progs s' = (progs s)(c \<mapsto>
      pr\<lparr>wakeupList := odds (wakeupList pr), ready := ready pr @ evens (wakeupList pr)\<rparr>)"
    "sems s' = sems s" "semaforos s' = semaforos s"
proof (cases "wakeupList pr = []")
  case True
  have "pr\<lparr>wakeupList := odds (wakeupList pr), ready := ready pr @ evens (wakeupList pr)\<rparr> = pr"
    using True by simp
  with True assms that show thesis by (auto simp: wakeup_threads_def fun_upd_idem)
next
  case False
  with wakeup_loop_ok [OF assms, of "[]" "wakeupList pr" "Suc (length (wakeupList pr))" E sock]
  show thesis using assms(2) that by (auto simp: wakeup_threads_def)
qed

end
