(* ===== verification/SuseNext.thy ===== *)
theory SuseNext
  imports SuseOps
begin

text \<open>
  The short-term scheduler: the choice of the next thread by the shortest estimate, and the states
  in which \<open>schedule_next_for\<close> returns or waits.
\<close>

section \<open>The loop over the ready list\<close>

definition est :: "cfloat \<Rightarrow> (ptr \<Rightarrow> t_tcb option) \<Rightarrow> ptr \<Rightarrow> cfloat" where
  "est alpha h p = (case h p of None \<Rightarrow> 0 | Some a \<Rightarrow> get_estimate alpha (tcb_time a))"

definition best_at :: "cfloat \<Rightarrow> (ptr \<Rightarrow> t_tcb option) \<Rightarrow> ptr list \<Rightarrow> cfloat \<Rightarrow> nat \<Rightarrow> bool" where
  "best_at alpha h ps limit j \<longleftrightarrow> j < length ps \<and> est alpha h (ps ! j) < limit \<and>
     (\<forall>k < length ps. est alpha h (ps ! j) \<le> est alpha h (ps ! k)) \<and>
     (\<forall>k < j. est alpha h (ps ! j) < est alpha h (ps ! k))"

lemma best_at_Cons_0:
  assumes "est alpha h p < limit" "\<forall>q \<in> set ps. est alpha h p \<le> est alpha h q"
  shows "best_at alpha h (p # ps) limit 0"
  using assms by (auto simp: best_at_def nth_Cons split: nat.split)

lemma best_at_Cons_Suc:
  assumes "best_at alpha h ps (min limit (est alpha h p)) j"
  shows "best_at alpha h (p # ps) limit (Suc j)"
  using assms by (auto simp: best_at_def nth_Cons split: nat.split)

lemma choose_from_cases:
  assumes "\<forall>p \<in> set ps. h p \<noteq> None"
  shows "(choose_from alpha h i ps (b, q) = Ret (b, q) \<and> (\<forall>p \<in> set ps. b \<le> est alpha h p)) \<or>
    (\<exists>j. choose_from alpha h i ps (b, q) = Ret (est alpha h (ps ! j), i + int j) \<and>
       best_at alpha h ps b j)"
  using assms
proof (induction ps arbitrary: i b q)
  case (Cons p ps)
  then obtain a where a: "h p = Some a" by auto
  have e: "get_estimate alpha (tcb_time a) = est alpha h p" by (simp add: est_def a)
  show ?case
  proof (cases "est alpha h p < b")
    case True
    have rec: "choose_from alpha h i (p # ps) (b, q) =
        choose_from alpha h (i + 1) ps (est alpha h p, i)"
      using True by (simp add: a e)
    from Cons.IH [of "i + 1" "est alpha h p" i] Cons.prems consider
      (none) "choose_from alpha h (i + 1) ps (est alpha h p, i) = Ret (est alpha h p, i)"
        "\<forall>r \<in> set ps. est alpha h p \<le> est alpha h r"
    | (some) j where "choose_from alpha h (i + 1) ps (est alpha h p, i) =
          Ret (est alpha h (ps ! j), i + 1 + int j)" "best_at alpha h ps (est alpha h p) j"
      by auto
    then show ?thesis
    proof cases
      case none
      then show ?thesis
        using rec best_at_Cons_0 [OF True none(2)] by (intro disjI2 exI [of _ 0]) simp
    next
      case some
      then show ?thesis
        using rec True best_at_Cons_Suc [of alpha h ps b p j]
        by (intro disjI2 exI [of _ "Suc j"]) (simp add: min_def)
    qed
  next
    case False
    have rec: "choose_from alpha h i (p # ps) (b, q) = choose_from alpha h (i + 1) ps (b, q)"
      using False by (simp add: a e)
    from Cons.IH [of "i + 1" b q] Cons.prems consider
      (none) "choose_from alpha h (i + 1) ps (b, q) = Ret (b, q)"
        "\<forall>r \<in> set ps. b \<le> est alpha h r"
    | (some) j where "choose_from alpha h (i + 1) ps (b, q) =
          Ret (est alpha h (ps ! j), i + 1 + int j)" "best_at alpha h ps b j"
      by auto
    then show ?thesis
    proof cases
      case none
      then show ?thesis using rec False by (intro disjI1) auto
    next
      case some
      then show ?thesis
        using rec False best_at_Cons_Suc [of alpha h ps b p j]
        by (intro disjI2 exI [of _ "Suc j"]) (simp add: min_def)
    qed
  qed
qed simp

section \<open>Changes of times\<close>

definition same_key :: "t_tcb \<Rightarrow> t_tcb \<Rightarrow> bool" where
  "same_key a b \<longleftrightarrow> tid b = tid a \<and> tcb_socket b = tcb_socket a \<and> tcb_state b = tcb_state a"

definition same_tcb :: "t_tcb \<Rightarrow> t_tcb \<Rightarrow> bool" where
  "same_tcb a b \<longleftrightarrow> same_key a b \<and> joined b = joined a"

text \<open>
  \<open>s'\<close> differs from \<open>s\<close> in fields of threads that the state lists do not depend on, the clock and
  what has been sent; \<open>retimed\<close> leaves out the lists of joined threads, too.
\<close>

definition rekeyed :: "(t_tcb \<Rightarrow> t_tcb \<Rightarrow> bool) \<Rightarrow> suse \<Rightarrow> suse \<Rightarrow> bool" where
  "rekeyed R s s' \<longleftrightarrow> (\<forall>p. rel_option R (tcbs s p) (tcbs s' p)) \<and> progs s' = progs s \<and>
     sems s' = sems s \<and> clientes s' = clientes s \<and> semaforos s' = semaforos s \<and>
     newList s' = newList s \<and> blockedList s' = blockedList s \<and> exitList s' = exitList s \<and>
     multiprog_degree s' = multiprog_degree s \<and> available_multiprog s' = available_multiprog s \<and>
     new_counter s' = new_counter s \<and> mallocs s' = mallocs s \<and> endsuse s' = endsuse s"

abbreviation retimed :: "suse \<Rightarrow> suse \<Rightarrow> bool" where
  "retimed \<equiv> rekeyed same_tcb"

lemma same_refl [simp]: "same_key a a" "same_tcb a a"
  by (simp_all add: same_key_def same_tcb_def)

lemma rel_same_refl [simp]: "rel_option same_key x x" "rel_option same_tcb x x"
  by (simp_all add: option.rel_refl)

lemma retimed_refl [simp]: "retimed s s"
  by (simp add: rekeyed_def)

lemma retimed_ticks [simp]: "retimed s (s\<lparr>ticks := k\<rparr>)" "retimed s (s\<lparr>sent := x\<rparr>)"
  by (simp_all add: rekeyed_def)

lemma retimed_trans:
  assumes "retimed s s'" "retimed s' s''"
  shows "retimed s s''"
proof -
  have "rel_option same_tcb (tcbs s p) (tcbs s'' p)" for p
    by (rule rel_option_trans [of _ _ "tcbs s' p"])
      (use assms in \<open>auto simp: rekeyed_def same_tcb_def same_key_def\<close>)
  with assms show ?thesis by (simp add: rekeyed_def)
qed

lemma retimed_set_tcb:
  assumes "tcbs s p = Some a"
  shows "retimed s (set_tcb p (a\<lparr>tcb_time := b\<rparr>) s)"
  using assms by (auto simp: rekeyed_def same_tcb_def same_key_def)

lemma rekeyed_set_tcb:
  assumes "tcbs s p = Some a" "same_key a b"
  shows "rekeyed same_key s (set_tcb p b s)"
  using assms by (auto simp: rekeyed_def)

lemma retimed_rekeyed:
  assumes "retimed s s'"
  shows "rekeyed same_key s s'"
proof -
  have "rel_option same_key (tcbs s p) (tcbs s' p)" for p
    by (rule option.rel_mono_strong [of same_tcb])
      (use assms in \<open>auto simp: rekeyed_def same_tcb_def\<close>)
  with assms show ?thesis by (simp add: rekeyed_def)
qed

lemma rekeyed_tcb:
  assumes "rekeyed R s s'"
  shows "tcbs s' p = None \<longleftrightarrow> tcbs s p = None"
    "tcbs s p = Some a \<Longrightarrow> \<exists>b. tcbs s' p = Some b \<and> R a b"
    "tcbs s' p = Some b \<Longrightarrow> \<exists>a. tcbs s p = Some a \<and> R a b"
proof -
  have r: "rel_option R (tcbs s p) (tcbs s' p)"
    using assms by (simp add: rekeyed_def)
  show "tcbs s' p = None \<longleftrightarrow> tcbs s p = None" using r by (cases "tcbs s p"; cases "tcbs s' p") auto
  show "\<exists>b. tcbs s' p = Some b \<and> R a b" if "tcbs s p = Some a"
    using r that by (auto simp: option_rel_Some1)
  show "\<exists>a. tcbs s p = Some a \<and> R a b" if "tcbs s' p = Some b"
    using r that by (auto simp: option_rel_Some2)
qed

lemmas retimed_tcb = rekeyed_tcb [of same_tcb]

lemma rekeyed_sets:
  assumes "rekeyed same_key s s'"
  shows "in_state s' = in_state s" "members s' = members s" "active_set s' = active_set s"
proof -
  have "in_state s' st = in_state s st" "members s' st k = members s st k" for st k
    unfolding in_state_def members_def
    using rekeyed_tcb(2,3) [OF assms] by (fastforce simp: same_key_def)+
  then show "in_state s' = in_state s" "members s' = members s" by (auto simp: fun_eq_iff)
  show "active_set s' = active_set s"
    unfolding active_set_def
    using rekeyed_tcb(2,3) [OF assms] by (fastforce simp: same_key_def)
qed

lemma rekeyed_core:
  assumes "rekeyed same_key s s'" "core_inv M s"
  shows "core_inv M s'"
proof -
  note inv = core_invD [OF assms(2)]
  note sets = rekeyed_sets [OF assms(1)]
  have eqs: "progs s' = progs s" "sems s' = sems s" "clientes s' = clientes s"
    "newList s' = newList s" "blockedList s' = blockedList s" "exitList s' = exitList s"
    "multiprog_degree s' = multiprog_degree s" "available_multiprog s' = available_multiprog s"
    "mallocs s' = mallocs s"
    using assms(1) by (simp_all add: rekeyed_def)
  have "heap_ok s'" using inv(1) rekeyed_tcb(1) [OF assms(1)] by (simp add: heap_ok_def eqs)
  moreover have "keys_ok (tcbs s')"
    unfolding keys_ok_def
  proof (intro allI impI)
    fix p q a b
    assume h: "tcbs s' p = Some a" "tcbs s' q = Some b" "tid a = tid b" "tcb_socket a = tcb_socket b"
    obtain x where "tcbs s p = Some x" "same_key x a" using rekeyed_tcb(3) [OF assms(1) h(1)] by blast
    moreover obtain y where "tcbs s q = Some y" "same_key y b"
      using rekeyed_tcb(3) [OF assms(1) h(2)] by blast
    ultimately show "p = q"
      using inv(2) h(3,4) unfolding keys_ok_def same_key_def by metis
  qed
  moreover have "progs_ok (progs s') (clientes s')" using inv(3) by (simp add: eqs)
  moreover have "owned s'"
    unfolding owned_def eqs
    using inv(4) rekeyed_tcb(3) [OF assms(1)] unfolding owned_def same_key_def by metis
  moreover have "lists_ok s'" "degree_ok M s'"
    using inv(5,6) by (simp_all add: lists_ok_def listed_def prog_listed_def degree_ok_def sets eqs)
  ultimately show ?thesis by (simp add: core_inv_def)
qed

lemma rekeyed_wakeup:
  assumes "rekeyed same_key s s'" "wakeup_ok s"
  shows "wakeup_ok s'"
proof -
  have "progs s' = progs s" using assms(1) by (simp add: rekeyed_def)
  then show ?thesis
    using assms(2) rekeyed_tcb(2) [OF assms(1)] unfolding wakeup_ok_def same_key_def by metis
qed

lemma rekeyed_evolves:
  assumes "rekeyed same_key s s'"
  shows "evolves sock s s'"
proof -
  have "rel_option (tcb_evolves sock) (tcbs s p) (tcbs s' p)" for p
    by (rule option.rel_mono_strong [of same_key])
      (use assms in \<open>auto simp: rekeyed_def same_key_def tcb_evolves_def\<close>)
  with assms show ?thesis by (simp add: evolves_def rekeyed_def)
qed

lemma retimed_full:
  assumes "retimed s s'" "full_inv M s"
  shows "full_inv M s'"
proof -
  note inv = full_invD [OF assms(2)]
  have eqs: "progs s' = progs s" "sems s' = sems s" "semaforos s' = semaforos s"
    "newList s' = newList s" "new_counter s' = new_counter s"
    using assms(1) by (simp_all add: rekeyed_def)
  have "waiters s' r = waiters s r" for r
  proof (cases r)
    case (OnJoin p)
    then show ?thesis
    proof (cases "tcbs s p")
      case None
      then show ?thesis using OnJoin retimed_tcb(1) [OF assms(1), of p] by simp
    next
      case (Some a)
      then show ?thesis
        using OnJoin retimed_tcb(2) [OF assms(1) Some] by (auto simp: same_tcb_def same_key_def)
    qed
  qed (simp_all add: eqs)
  then have "waiters s' = waiters s" by (auto simp: fun_eq_iff)
  moreover have "wakeup_ok s'" by (rule rekeyed_wakeup [OF retimed_rekeyed [OF assms(1)] inv(4)])
  ultimately show ?thesis
    using inv rekeyed_core [OF retimed_rekeyed [OF assms(1)] inv(1)]
      rekeyed_sets [OF retimed_rekeyed [OF assms(1)]]
    by (simp add: full_inv_def counters_ok_def sems_ok_def eqs)
qed

lemma retimed_evolves: "retimed s s' \<Longrightarrow> evolves sock s s'"
  by (rule rekeyed_evolves [OF retimed_rekeyed])

section \<open>The choice\<close>

definition limit :: "suse_env \<Rightarrow> t_program \<Rightarrow> suse \<Rightarrow> cfloat" where
  "limit E pr s = (case tcbs s (exec pr) of
     None \<Rightarrow> FLT_MAX
   | Some e \<Rightarrow> get_estimate_with_burst (alpha_sjf E) (tcb_time e)
       (fst (get_last_burst_for (tod E) EXEC (tcb_time e) (ticks s))))"

lemma ready_alloc:
  "core_inv M s \<Longrightarrow> progs s c = Some pr \<Longrightarrow> \<forall>p \<in> set (ready pr). tcbs s p \<noteq> None"
  by (auto simp: ready_mem)

lemma set_last_estimate_ok:
  assumes "tcbs s p = Some a"
  obtains s' where "set_last_estimate p best s = Ret s'" "retimed s s'" "sent s' = sent s"
  using that retimed_set_tcb [OF assms] assms
  by (simp add: set_last_estimate_def) (simp add: set_tcb_def)

lemma keep_exec_ok:
  assumes "tcbs s p = Some a"
  obtains s' where "keep_exec E p s = Ret s'" "retimed s s'" "sent s' = sent s"
proof -
  define b where "b = fst (set_state_start_timing (tod E) EXEC
    (fst (set_new_timings_for (tod E) EXEC (tcb_time a) (ticks s)))
    (snd (set_new_timings_for (tod E) EXEC (tcb_time a) (ticks s))))"
  define k where "k = snd (set_state_start_timing (tod E) EXEC
    (fst (set_new_timings_for (tod E) EXEC (tcb_time a) (ticks s)))
    (snd (set_new_timings_for (tod E) EXEC (tcb_time a) (ticks s))))"
  have "keep_exec E p s = Ret ((set_tcb p (a\<lparr>tcb_time := b\<rparr>) s)\<lparr>ticks := k\<rparr>)"
    using assms by (simp add: keep_exec_def case_prod_beta Let_def b_def k_def)
  moreover have "retimed s ((set_tcb p (a\<lparr>tcb_time := b\<rparr>) s)\<lparr>ticks := k\<rparr>)"
    by (rule retimed_trans [OF retimed_set_tcb [OF assms, of b] retimed_ticks(1)])
  ultimately show thesis by (rule that) (simp add: set_tcb_def)
qed

lemma exec_estimate_eq:
  assumes "core_inv M s" "progs s c = Some pr"
  obtains k where "exec_estimate E (exec pr) s = Ret (limit E pr s, k)"
proof (cases "exec pr = NULL")
  case True
  moreover have "tcbs s NULL = None" by (rule heap_ok_NULL) (rule core_invD [OF assms(1)])
  ultimately show thesis using that by (simp add: exec_estimate_def limit_def)
next
  case False
  obtain e where "tcbs s (exec pr) = Some e" by (rule exec_tcb [OF assms False])
  with False that show thesis by (simp add: exec_estimate_def limit_def case_prod_beta)
qed

lemma choose_next_cases:
  assumes "core_inv M s" "progs s c = Some pr"
  obtains
    (change) j s1 where "best_at (alpha_sjf E) (tcbs s) (ready pr) (limit E pr s) j"
      "choose_next E c s = Ret (ready pr ! j, True, s1)" "retimed s s1" "sent s1 = sent s"
  | (keep) s1 where "\<forall>p \<in> set (ready pr). limit E pr s \<le> est (alpha_sjf E) (tcbs s) p"
      "exec pr \<noteq> NULL" "choose_next E c s = Ret (exec pr, False, s1)" "retimed s s1"
      "sent s1 = sent s"
  | (fault) "\<forall>p \<in> set (ready pr). limit E pr s \<le> est (alpha_sjf E) (tcbs s) p"
      "exec pr = NULL" "choose_next E c s = Fault"
proof -
  obtain k where k: "exec_estimate E (exec pr) s = Ret (limit E pr s, k)"
    by (rule exec_estimate_eq [OF assms])
  let ?s = "s\<lparr>ticks := k\<rparr>"
  consider
    (none) "choose_from (alpha_sjf E) (tcbs s) 0 (ready pr) (limit E pr s, - 1) = Ret (limit E pr s, - 1)"
      "\<forall>p \<in> set (ready pr). limit E pr s \<le> est (alpha_sjf E) (tcbs s) p"
  | (some) j where "choose_from (alpha_sjf E) (tcbs s) 0 (ready pr) (limit E pr s, - 1) =
        Ret (est (alpha_sjf E) (tcbs s) (ready pr ! j), int j)"
      "best_at (alpha_sjf E) (tcbs s) (ready pr) (limit E pr s) j"
    using choose_from_cases [OF ready_alloc [OF assms], of "alpha_sjf E" 0 "limit E pr s" "- 1"] by auto
  then show thesis
  proof cases
    case some
    then have j: "j < length (ready pr)" by (simp add: best_at_def)
    then obtain a where "tcbs ?s (ready pr ! j) = Some a"
      using ready_alloc [OF assms] by fastforce
    then obtain s1 where "set_last_estimate (ready pr ! j)
        (est (alpha_sjf E) (tcbs s) (ready pr ! j)) ?s = Ret s1" "retimed ?s s1" "sent s1 = sent ?s"
      by (rule set_last_estimate_ok)
    then show thesis
      using change [OF some(2), of s1] k some(1) j assms(2) retimed_trans [OF retimed_ticks(1) [of s k], of s1]
      by (simp add: choose_next_def list_get_nth)
  next
    case none
    show thesis
    proof (cases "exec pr = NULL")
      case True
      moreover have "tcbs s NULL = None" by (rule heap_ok_NULL) (rule core_invD [OF assms(1)])
      ultimately show thesis
        using fault none k assms(2) by (simp add: choose_next_def keep_exec_def)
    next
      case False
      obtain e where "tcbs s (exec pr) = Some e" by (rule exec_tcb [OF assms False])
      then obtain s1 where s1: "keep_exec E (exec pr) ?s = Ret s1" "retimed ?s s1" "sent s1 = sent ?s"
        using keep_exec_ok [of ?s "exec pr" e E] by auto
      obtain e1 where "tcbs s1 (exec pr) = Some e1"
        using retimed_tcb(2) [OF s1(2), of "exec pr" e] \<open>tcbs s (exec pr) = Some e\<close> by auto
      then obtain s2 where s2: "set_last_estimate (exec pr) (limit E pr s) s1 = Ret s2"
        "retimed s1 s2" "sent s2 = sent s1"
        by (rule set_last_estimate_ok)
      have "retimed s s2"
        by (rule retimed_trans [OF retimed_ticks(1) retimed_trans [OF s1(2) s2(2)]])
      then show thesis
        using keep [OF none(2) False, of s2] k none(1) s1 s2 assms(2) by (simp add: choose_next_def)
    qed
  qed
qed

section \<open>The change of the running thread\<close>

lemma full_inv_moved_run:
  assumes "full_inv M s" "tcbs s p = Some a" "tcb_state a = READY \<or> tcb_state a = EXEC"
    "st = READY \<or> st = EXEC"
    "\<And>c pr. st = EXEC \<Longrightarrow> tcb_state a \<noteq> EXEC \<Longrightarrow> progs s c = Some pr \<Longrightarrow>
      prog_socket pr = tcb_socket a \<Longrightarrow> exec pr = NULL"
  shows "move_tcb_to E p st s = Ret (moved E p st s)" "full_inv M (moved E p st s)"
    "evolves (tcb_socket a) s (moved E p st s)"
proof -
  note inv = full_invD [OF assms(1)]
  have act: "active (tcb_state a)" "tcb_state a \<noteq> NEW" "st \<noteq> NEW" "tcb_state a \<noteq> EXIT" "st \<noteq> EXIT"
    "tcb_state a \<noteq> BLOCKED" "st \<noteq> BLOCKED"
    using assms(3,4) by auto
  show "move_tcb_to E p st s = Ret (moved E p st s)"
    by (intro move_refines [OF inv(1) assms(2)]) (use act in auto)
  show "evolves (tcb_socket a) s (moved E p st s)"
    using act by (intro evolves_moved [OF inv(1) assms(2)]) auto
  have "p \<notin> in_state s BLOCKED" using assms(2) act by (simp add: in_state_def)
  then have "in_state (moved E p st s) BLOCKED = in_state s BLOCKED"
    using act by (simp add: in_state_moved [OF assms(2)])
  then show "full_inv M (moved E p st s)"
    using inv act core_inv_moved [OF inv(1) assms(2), of st E] assms(5)
      counters_moved [OF inv(1) assms(2) inv(3), of st E] wakeup_ok_moved [OF assms(2) inv(4)]
    by (simp add: full_inv_def waiters_moved [OF assms(2)])
qed

lemma moved_own_prog:
  assumes "core_inv M s" "tcbs s p = Some a" "tcb_state a \<noteq> st" "progs s c = Some pr"
    "prog_socket pr = tcb_socket a"
  shows "progs (moved E p st s) = (progs s)(c \<mapsto> reprog (tcb_state a) st p pr)"
  using moved_eq [OF core_invD(3) [OF assms(1)] assms(2-5), of E] by (simp add: case_prod_beta Let_def)

lemma moved_sent [simp]: "sent (moved E p st s) = sent s"
  by (rule moved_frame)

lemma change_exec_ok:
  assumes "full_inv M s" "progs s c = Some pr" "q \<in> set (ready pr)"
  obtains s' pr' where "change_exec_tcb E c q s = Ret s'" "full_inv M s'"
    "evolves (prog_socket pr) s s'" "progs s' c = Some pr'" "exec pr' = q"
    "ready pr' = remove1 q (ready pr) @ (if exec pr = NULL then [] else [exec pr])"
    "wakeupList pr' = wakeupList pr" "sent s' = sent s"
proof -
  note inv = full_invD [OF assms(1)]
  obtain a where a: "tcbs s q = Some a" "tcb_state a = READY" "tcb_socket a = prog_socket pr"
    using assms(3) ready_mem [OF inv(1) assms(2)] by auto
  have q: "q \<noteq> NULL" using heap_ok_NULL(1) [OF core_invD(1) [OF inv(1)]] a(1) by (intro notI) simp
  \<comment> \<open>the running thread first\<close>
  obtain s1 pr1 where s1: "(if exec pr \<noteq> NULL then move_tcb_to E (exec pr) READY s else Ret s) = Ret s1"
    "full_inv M s1" "evolves (prog_socket pr) s s1" "progs s1 c = Some pr1" "exec pr1 = NULL"
    "ready pr1 = ready pr @ (if exec pr = NULL then [] else [exec pr])"
    "prog_socket pr1 = prog_socket pr" "tcbs s1 q = Some a" "wakeupList pr1 = wakeupList pr"
    "sent s1 = sent s"
  proof (cases "exec pr = NULL")
    case True
    then show thesis using that [of s pr] assms(1,2) a(1) by simp
  next
    case False
    obtain e where e: "tcbs s (exec pr) = Some e" "tcb_state e = EXEC" "tcb_socket e = prog_socket pr"
      by (rule exec_tcb [OF inv(1) assms(2) False])
    have ne: "exec pr \<noteq> q" using e(1,2) a(1,2) by auto
    note mv = full_inv_moved_run [OF assms(1) e(1), of READY E]
    have "progs (moved E (exec pr) READY s) c = Some (reprog EXEC READY (exec pr) pr)"
      using moved_own_prog [OF inv(1) e(1) _ assms(2), of READY E] e(2,3) by simp
    then show thesis
      using that [of "moved E (exec pr) READY s" "reprog EXEC READY (exec pr) pr"] mv e False ne a(1)
      by (simp add: moved_sel(1) [OF e(1)] reprog_def relist_def)
  qed
  note inv1 = full_invD [OF s1(2)]
  have null: "exec dr = NULL" if "progs s1 d = Some dr" "prog_socket dr = tcb_socket a" for d dr
    using prog_unique [OF core_invD(3) [OF inv1(1)] s1(4) that(1)] that(2) a(3) s1(5,7) by simp
  note mv = full_inv_moved_run [OF s1(2) s1(8), of EXEC E]
  have m: "move_tcb_to E q EXEC s1 = Ret (moved E q EXEC s1)" "full_inv M (moved E q EXEC s1)"
    "evolves (prog_socket pr) s1 (moved E q EXEC s1)"
    using mv a(2,3) null by auto
  have "progs (moved E q EXEC s1) c = Some (reprog READY EXEC q pr1)"
    using moved_own_prog [OF inv1(1) s1(8) _ s1(4), of EXEC E] a(2,3) s1(7) by simp
  moreover have "change_exec_tcb E c q s = Ret (moved E q EXEC s1)"
    using s1(1) m(1) assms(2) by (simp add: change_exec_tcb_def)
  moreover have "ready (reprog READY EXEC q pr1) =
      remove1 q (ready pr) @ (if exec pr = NULL then [] else [exec pr])"
    using assms(3) by (simp add: reprog_def relist_def s1(6) remove1_append)
  ultimately show thesis
    using that [of "moved E q EXEC s1" "reprog READY EXEC q pr1"] m evolves_trans [OF s1(3) m(3)]
      s1(9,10) by (simp add: reprog_def)
qed

section \<open>The scheduler\<close>

text \<open>Sending works, and there is readable memory behind the strings of so-commons.\<close>

definition env_ok :: "suse_env \<Rightarrow> bool" where
  "env_ok E \<longleftrightarrow> env_send_ok E \<and> 3 \<le> length (env_beyond E)"

lemma notify_bytes_ok:
  assumes "env_ok E"
  shows "\<exists>bytes. notify_program_bytes (env_send_ok E) (env_itoa E) (env_beyond E) t = Ret bytes"
proof -
  define m where "m = c_string (env_itoa E t) @ env_beyond E"
  define v where "v = take 4 m"
  have m: "4 \<le> length m" using assms by (simp add: env_ok_def c_string_def m_def)
  then have v: "length v = 4" by (simp add: v_def)
  then have "enviar_paquete True (packet_of (op_int SUSE_SCHEDULE_NEXT_RETURN) [v]) =
      Ret (le32 (op_int SUSE_SCHEDULE_NEXT_RETURN) @ le32 8 @ payload [v])"
    using enviar_packet_of [of "[v]" "op_int SUSE_SCHEDULE_NEXT_RETURN"] by simp
  then show ?thesis
    using assms agregar_tid [OF m, of "op_int SUSE_SCHEDULE_NEXT_RETURN"]
    by (simp add: notify_program_bytes_def env_ok_def flip: m_def v_def)
qed

definition chosen :: "suse_env \<Rightarrow> t_program \<Rightarrow> suse \<Rightarrow> t_program \<Rightarrow> bool" where
  "chosen E pr s pr' \<longleftrightarrow>
     (if \<exists>p \<in> set (ready pr). est (alpha_sjf E) (tcbs s) p < limit E pr s
      then \<exists>j. best_at (alpha_sjf E) (tcbs s) (ready pr) (limit E pr s) j \<and>
        exec pr' = ready pr ! j \<and>
        ready pr' = remove1 (ready pr ! j) (ready pr) @ (if exec pr = NULL then [] else [exec pr])
      else exec pr' = exec pr \<and> ready pr' = ready pr)"

lemma schedule_body:
  assumes "full_inv M s" "progs s c = Some pr" "ready pr \<noteq> [] \<or> exec pr \<noteq> NULL"
  obtains
    (ok) s2 pr2 e where "schedule_next_for (Suc n) E c s = notify_program E c SUSE_SCHEDULE_NEXT s2"
      "full_inv M s2" "evolves (prog_socket pr) s s2" "progs s2 c = Some pr2" "exec pr2 \<noteq> NULL"
      "tcbs s2 (exec pr2) = Some e" "prog_socket pr2 = prog_socket pr" "sent s2 = sent s"
      "chosen E pr s pr2"
  | (fault) "schedule_next_for (Suc n) E c s = Fault" "exec pr = NULL"
      "\<forall>p \<in> set (ready pr). limit E pr s \<le> est (alpha_sjf E) (tcbs s) p"
proof -
  note inv = full_invD [OF assms(1)]
  have start: "schedule_next_for (Suc n) E c s =
      obind (choose_next E c s) (\<lambda>(tcb, change, s1).
        obind (if change then change_exec_tcb E c tcb s1 else Ret s1) (\<lambda>s2.
        obind (deref (progs s2) c) (\<lambda>program2.
        obind (deref (tcbs s2) (exec program2)) (\<lambda>_.
          notify_program E c SUSE_SCHEDULE_NEXT s2))))"
    using assms(2,3) by auto
  show thesis
  proof (cases rule: choose_next_cases [OF inv(1) assms(2), of E])
    case (1 j s1)
    have f1: "full_inv M s1" by (rule retimed_full [OF 1(3) assms(1)])
    have p1: "progs s1 c = Some pr" using 1(3) assms(2) by (simp add: rekeyed_def)
    have j: "ready pr ! j \<in> set (ready pr)" using 1(1) by (simp add: best_at_def)
    obtain s2 pr2 where s2: "change_exec_tcb E c (ready pr ! j) s1 = Ret s2" "full_inv M s2"
      "evolves (prog_socket pr) s1 s2" "progs s2 c = Some pr2" "exec pr2 = ready pr ! j"
      "ready pr2 = remove1 (ready pr ! j) (ready pr) @ (if exec pr = NULL then [] else [exec pr])"
      "sent s2 = sent s1"
      by (rule change_exec_ok [OF f1 p1 j])
    obtain a where "tcbs s (ready pr ! j) = Some a"
      using j ready_mem [OF inv(1) assms(2)] by auto
    moreover have "tcbs s NULL = None" by (rule heap_ok_NULL) (rule core_invD [OF inv(1)])
    ultimately have nn: "ready pr ! j \<noteq> NULL" by (intro notI) simp
    obtain e where e: "tcbs s2 (exec pr2) = Some e"
      by (rule exec_tcb [OF full_invD(1) [OF s2(2)] s2(4)]) (use nn s2(5) in auto)
    have "prog_socket pr2 = prog_socket pr"
      by (rule evolves_prog [OF s2(3) p1]) (use s2(4) in simp)
    moreover have "\<exists>p \<in> set (ready pr). est (alpha_sjf E) (tcbs s) p < limit E pr s"
      using 1(1) j by (auto simp: best_at_def)
    then have "chosen E pr s pr2" using 1(1) s2(5,6) by (auto simp: chosen_def)
    moreover have "schedule_next_for (Suc n) E c s = notify_program E c SUSE_SCHEDULE_NEXT s2"
      unfolding start using 1(2) s2(1,4) e by simp
    moreover have "evolves (prog_socket pr) s s2"
      by (rule evolves_trans [OF retimed_evolves [OF 1(3)] s2(3)])
    ultimately show thesis
      using ok [of s2 pr2 e] s2 nn e 1(4) by simp
  next
    case (2 s1)
    have f1: "full_inv M s1" by (rule retimed_full [OF 2(4) assms(1)])
    have p1: "progs s1 c = Some pr" using 2(4) assms(2) by (simp add: rekeyed_def)
    obtain e where e: "tcbs s1 (exec pr) = Some e"
      by (rule exec_tcb [OF full_invD(1) [OF f1] p1 2(2)])
    have "schedule_next_for (Suc n) E c s = notify_program E c SUSE_SCHEDULE_NEXT s1"
      unfolding start using 2(3) p1 e by simp
    moreover have "chosen E pr s pr" using 2(1) by (auto simp: chosen_def)
    ultimately show thesis
      using ok [of s1 pr e] f1 p1 2(2,5) e retimed_evolves [OF 2(4)] by simp
  next
    case 3
    then show thesis using fault start by simp
  qed
qed

lemma schedule_next_inv:
  assumes "schedule_next_for n E c s = Ret s'" "full_inv M s" "progs s c = Some pr"
  shows "full_inv M s' \<and> evolves (prog_socket pr) s s' \<and>
    (\<exists>pr'. progs s' c = Some pr' \<and> exec pr' \<noteq> NULL)"
  using assms
proof (induction n arbitrary: s pr)
  case (Suc n)
  show ?case
  proof (cases "ready pr = [] \<and> exec pr = NULL")
    case True
    obtain s1 where s1: "wakeup_threads E c s = Ret (wakeupList pr \<noteq> [], s1)" "full_inv M s1"
      "evolves (prog_socket pr) s s1"
      "progs s1 = (progs s)(c \<mapsto>
        pr\<lparr>wakeupList := odds (wakeupList pr), ready := ready pr @ evens (wakeupList pr)\<rparr>)"
      by (rule wakeup_threads_ok [OF Suc.prems(2,3)])
    have c0: "tcb_counter pr = length (wakeupList pr)"
      using full_invD(3) [OF Suc.prems(2)] Suc.prems(3) True by (simp add: counters_ok_def)
    have "wakeupList pr \<noteq> []"
    proof
      assume e: "wakeupList pr = []"
      then have "wait_for_threads E c s1 = Hang"
        using c0 s1(4) by (simp add: wait_for_threads_def)
      with Suc.prems(1,3) True s1(1) e show False by simp
    qed
    then have "schedule_next_for n E c s1 = Ret s'"
      using Suc.prems(1,3) True s1(1) by simp
    from Suc.IH [OF this s1(2)] s1(4) evolves_trans [OF s1(3)] show ?thesis by auto
  next
    case False
    then have ne: "ready pr \<noteq> [] \<or> exec pr \<noteq> NULL" by auto
    show ?thesis
    proof (cases rule: schedule_body [OF Suc.prems(2,3) ne, where E = E and n = n])
      case (1 s2 pr2 e)
      then obtain bytes where "s' = s2\<lparr>sent := sent s2 @ [(prog_socket pr2, bytes)]\<rparr>"
        using Suc.prems(1) by (auto simp: notify_program_def obind_Ret_iff)
      then have r: "retimed s2 s'" "progs s' = progs s2" by simp_all
      from retimed_full [OF r(1) 1(2)] evolves_trans [OF 1(3) retimed_evolves [OF r(1)]] 1(4,5) r(2)
      show ?thesis by simp
    next
      case 2
      with Suc.prems(1) show ?thesis by simp
    qed
  qed
qed simp

lemma notify_returns:
  "notify_program_bytes ok itoa beyond t \<noteq> Hang" "notify_program_bytes ok itoa beyond t \<noteq> OutOfFuel"
  by (auto simp: notify_program_bytes_def agregar_a_paquete_def enviar_paquete_def
    serializar_paquete_def mem_read_def Let_def)

end
