(* ===== verification/SuseJoin.thy ===== *)
theory SuseJoin
  imports SuseNext
begin

text \<open>
  Join and close: when a join ends, the states in which it goes round for ever, and the end of a
  thread, which wakes up every thread that has joined it. Logging the metrics never fails.
\<close>

section \<open>Logging\<close>

lemma retimed_mlog [simp]: "retimed s (s\<lparr>ticks := k, mlog := l\<rparr>)"
  by (simp add: rekeyed_def)

lemma sum_exec_ok:
  "\<forall>p \<in> set ps. h p \<noteq> None \<Longrightarrow> \<exists>r. sum_exec h t ps acc = Ret r"
  by (induction h t ps acc rule: sum_exec.induct) auto

lemma get_total_for_ok:
  "st = READY \<or> st = EXEC \<Longrightarrow> \<exists>x k'. get_total_for clk st b k = Ret (x, k')"
  by (auto simp: get_total_for_def case_prod_beta)

lemma filter_socket_ok:
  "\<forall>p \<in> set ps. h p \<noteq> None \<Longrightarrow>
   \<exists>qs. filter_socket h sock ps = Ret qs \<and> set qs \<subseteq> set ps"
  by (induction ps) auto

lemma list_alloc:
  assumes "core_inv M s"
  shows "\<forall>p \<in> set (newList s). tcbs s p \<noteq> None" "\<forall>p \<in> set (blockedList s). tcbs s p \<noteq> None"
    "\<forall>p \<in> set (exitList s). tcbs s p \<noteq> None"
  using core_invD(5) [OF assms] by (auto simp: lists_ok_def listed_def in_state_def)

lemma shared_ok:
  assumes "core_inv M s"
  obtains qs where "find_all_my_shared_threads s pr = Ret qs" "\<forall>p \<in> set qs. tcbs s p \<noteq> None"
proof -
  note l = list_alloc [OF assms]
  obtain a b d where
    "filter_socket (tcbs s) (prog_socket pr) (newList s) = Ret a" "set a \<subseteq> set (newList s)"
    "filter_socket (tcbs s) (prog_socket pr) (blockedList s) = Ret b" "set b \<subseteq> set (blockedList s)"
    "filter_socket (tcbs s) (prog_socket pr) (exitList s) = Ret d" "set d \<subseteq> set (exitList s)"
    using filter_socket_ok [OF l(1)] filter_socket_ok [OF l(2)] filter_socket_ok [OF l(3)] by metis
  then show thesis
    using l by (intro that [of "a @ b @ d"]) (auto simp: find_all_my_shared_threads_def)
qed

lemma get_exec_percentage_ok:
  assumes "core_inv M s" "progs s c = Some pr" "\<forall>p \<in> set qs. tcbs s p \<noteq> None"
  shows "\<exists>x k'. get_exec_percentage clk s pr t qs k = Ret (x, k')"
proof -
  obtain acc k' where acc: "(if exec pr \<noteq> NULL then
      obind (deref (tcbs s) (exec pr)) (\<lambda>e.
      obind (get_total_for clk EXEC (tcb_time e) k) (\<lambda>(suma, k').
        Ret (if tid e = t then suma else 0, suma, k')))
      else Ret (0, 0, k)) = Ret (fst acc, snd acc, k')"
  proof (cases "exec pr = NULL")
    case True
    then show thesis using that [of "(0, 0)" k] by simp
  next
    case False
    obtain e where e: "tcbs s (exec pr) = Some e" by (rule exec_tcb [OF assms(1,2) False])
    obtain x k' where "get_total_for clk EXEC (tcb_time e) k = Ret (x, k')"
      using get_total_for_ok by blast
    then show thesis using that [of "(if tid e = t then x else 0, x)" k'] e False by simp
  qed
  obtain r where r: "sum_exec (tcbs s) t (ready pr) (fst acc, snd acc) = Ret r"
    using sum_exec_ok [OF ready_alloc [OF assms(1,2)]] by blast
  obtain r' where "sum_exec (tcbs s) t qs r = Ret r'"
    using sum_exec_ok [OF assms(3)] by blast
  with acc r show ?thesis
    unfolding get_exec_percentage_def by (cases r') simp
qed

lemma print_thread_metrics_ok:
  assumes "core_inv M s" "progs s c = Some pr" "tcbs s p = Some a" "prog_socket pr = tcb_socket a"
    "\<forall>p \<in> set qs. tcbs s p \<noteq> None"
  shows "\<exists>l k'. print_thread_metrics clk s a pr qs k = Ret (l, k') \<and> m_tid l = tid a \<and>
    m_prog l = prog_id pr"
proof (cases "tcb_state a")
  case NEW
  then show ?thesis by (simp add: print_thread_metrics_def)
next
  case READY
  obtain x k1 where t: "get_total_for clk READY (tcb_time a) (Suc k) = Ret (x, k1)"
    using get_total_for_ok by blast
  obtain y k2 where "get_exec_percentage clk s pr (tid a) qs k1 = Ret (y, k2)"
    using get_exec_percentage_ok [OF assms(1,2,5)] by blast
  with READY t show ?thesis by (simp add: print_thread_metrics_def)
next
  case EXEC
  have e: "exec pr = p" by (rule exec_unique [OF assms(1,2,3) EXEC]) (simp add: assms(4))
  obtain x k1 where t: "get_total_for clk EXEC (tcb_time a) (Suc k) = Ret (x, k1)"
    using get_total_for_ok by blast
  obtain y k2 where "get_exec_percentage clk s pr (tid a) qs k1 = Ret (y, k2)"
    using get_exec_percentage_ok [OF assms(1,2,5)] by blast
  with EXEC t e assms(3) show ?thesis by (simp add: print_thread_metrics_def)
next
  case BLOCKED
  obtain y k2 where "get_exec_percentage clk s pr (tid a) qs (Suc k) = Ret (y, k2)"
    using get_exec_percentage_ok [OF assms(1,2,5)] by blast
  with BLOCKED show ?thesis by (simp add: print_thread_metrics_def)
next
  case EXIT
  obtain y k2 where "get_exec_percentage clk s pr (tid a) qs k = Ret (y, k2)"
    using get_exec_percentage_ok [OF assms(1,2,5)] by blast
  with EXIT show ?thesis by (simp add: print_thread_metrics_def)
qed

lemma log_metrics_thread_ok:
  assumes "core_inv M s" "tcbs s p = Some a"
  obtains s' l where "log_metrics_thread clk p s = Ret s'" "retimed s s'" "sent s' = sent s"
    "mlog s' = mlog s @ [ThreadFinished, ThreadMetric l]" "m_tid l = tid a"
proof -
  obtain c pr where c: "progs s c = Some pr" "prog_socket pr = tcb_socket a"
    by (rule owner [OF assms])
  obtain qs where qs: "find_all_my_shared_threads s pr = Ret qs" "\<forall>p \<in> set qs. tcbs s p \<noteq> None"
    by (rule shared_ok [OF assms(1)])
  obtain l k where "print_thread_metrics clk s a pr qs (ticks s) = Ret (l, k)" "m_tid l = tid a"
    using print_thread_metrics_ok [OF assms(1) c(1) assms(2) c(2) qs(2)] by blast
  moreover have "get_program s (tcb_socket a) = Ret c"
    by (rule get_program_mem [OF core_invD(3) [OF assms(1)] c])
  ultimately show thesis
    using that [of "s\<lparr>ticks := k, mlog := mlog s @ [ThreadFinished, ThreadMetric l]\<rparr>" l] assms(2) c qs
    by (simp add: log_metrics_thread_def)
qed

section \<open>Join\<close>

lemma find_tcb_pos_cases:
  assumes "\<forall>q \<in> set xs. tcbs s q \<noteq> None"
  obtains
    (none) "find_tcb_pos s xs t sock = Ret (- 1)"
      "\<forall>q \<in> set xs. \<forall>a. tcbs s q = Some a \<longrightarrow> \<not> (tid a = t \<and> tcb_socket a = sock)"
  | (some) j a where "find_tcb_pos s xs t sock = Ret (int j)" "j < length xs"
      "tcbs s (xs ! j) = Some a" "tid a = t" "tcb_socket a = sock"
proof (cases "\<exists>q \<in> set xs. \<exists>a. tcbs s q = Some a \<and> tid a = t \<and> tcb_socket a = sock")
  case False
  then have "find_tcb_from (tcbs s) 0 xs t sock = Ret (- 1)"
    using assms by (intro find_tcb_from_none) fastforce
  with False none show thesis by (auto simp: find_tcb_pos_def)
next
  case True
  have "\<exists>j < length xs. \<exists>a. find_tcb_from (tcbs s) i xs t sock = Ret (i + int j) \<and>
      tcbs s (xs ! j) = Some a \<and> tid a = t \<and> tcb_socket a = sock" for i
    using assms True
  proof (induction xs arbitrary: i)
    case (Cons x xs)
    then obtain b where b: "tcbs s x = Some b" by auto
    show ?case
    proof (cases "tid b = t \<and> tcb_socket b = sock")
      case True
      with b show ?thesis by (intro exI [of _ 0]) simp
    next
      case False
      with Cons.prems b have "\<exists>q \<in> set xs. \<exists>a. tcbs s q = Some a \<and> tid a = t \<and> tcb_socket a = sock"
        by auto
      with Cons.IH [of "i + 1"] Cons.prems(1) obtain j a where "j < length xs"
        "find_tcb_from (tcbs s) (i + 1) xs t sock = Ret (i + 1 + int j)"
        "tcbs s (xs ! j) = Some a" "tid a = t" "tcb_socket a = sock" by auto
      with False b show ?thesis by (intro exI [of _ "Suc j"]) auto
    qed
  qed simp
  from this [of 0] some show thesis by (auto simp: find_tcb_pos_def)
qed

definition joined_to :: "suse_env \<Rightarrow> ptr \<Rightarrow> t_tcb \<Rightarrow> ptr \<Rightarrow> suse \<Rightarrow> suse" where
  "joined_to E p a e s = moved E e BLOCKED (set_tcb p (a\<lparr>joined := joined a @ [e]\<rparr>) s)"

lemma join_found_ok:
  assumes "full_inv M s" "progs s c = Some pr" "exec pr \<noteq> NULL" "tcbs s p = Some a"
    "tcb_state a = READY \<or> tcb_state a = BLOCKED"
  shows "join_found E p c s = Ret (joined_to E p a (exec pr) s)"
    "full_inv M (joined_to E p a (exec pr) s)"
    "evolves (prog_socket pr) s (joined_to E p a (exec pr) s)"
proof -
  note inv = full_invD [OF assms(1)]
  obtain e where e: "tcbs s (exec pr) = Some e" "tcb_state e = EXEC" "tcb_socket e = prog_socket pr"
    by (rule exec_tcb [OF inv(1) assms(2,3)])
  have ne: "exec pr \<noteq> p" using e(1,2) assms(4,5) by auto
  define s1 where "s1 = set_tcb p (a\<lparr>joined := joined a @ [exec pr]\<rparr>) s"
  have rk: "rekeyed same_key s s1"
    unfolding s1_def by (rule rekeyed_set_tcb [OF assms(4)]) (simp add: same_key_def)
  have c1: "core_inv M s1" by (rule rekeyed_core [OF rk inv(1)])
  have e1: "tcbs s1 (exec pr) = Some e" using e(1) ne by (simp add: s1_def)
  have "move_tcb_to E (exec pr) BLOCKED s1 = Ret (moved E (exec pr) BLOCKED s1)"
    by (rule move_refines [OF c1 e1]) (simp add: e(2))
  then show "join_found E p c s = Ret (joined_to E p a (exec pr) s)"
    using assms(2,4) by (simp add: join_found_def joined_to_def s1_def Let_def)
  have "waiters s1 = (waiters s)(OnJoin p := waiters s (OnJoin p) @ [exec pr])"
  proof
    fix r
    show "waiters s1 r = ((waiters s)(OnJoin p := waiters s (OnJoin p) @ [exec pr])) r"
      using assms(4,5) by (cases r) (auto simp: s1_def)
  qed
  moreover have "in_state s1 BLOCKED = in_state s BLOCKED"
    using rekeyed_sets(1) [OF rk] by simp
  moreover have "counters_ok s1" "sems_ok s1" "wakeup_ok s1"
    using inv(3,5) rekeyed_wakeup [OF rk inv(4)] by (simp_all add: counters_ok_def sems_ok_def s1_def)
  ultimately have "full_inv M (moved E (exec pr) BLOCKED s1)"
    by (intro block_state [where r = "OnJoin p", OF assms(1) e(1,2) c1 e1 e(2)])
  then show "full_inv M (joined_to E p a (exec pr) s)" by (simp add: joined_to_def s1_def)
  have "evolves (prog_socket pr) s1 (moved E (exec pr) BLOCKED s1)"
    using e by (intro evolves_moved [OF c1 e1]) auto
  from evolves_trans [OF rekeyed_evolves [OF rk] this]
  show "evolves (prog_socket pr) s (joined_to E p a (exec pr) s)"
    by (simp add: joined_to_def s1_def)
qed

lemma state_mem:
  assumes "core_inv M s"
  shows "p \<in> set (exitList s) \<longleftrightarrow> (\<exists>a. tcbs s p = Some a \<and> tcb_state a = EXIT)"
    "p \<in> set (blockedList s) \<longleftrightarrow> (\<exists>a. tcbs s p = Some a \<and> tcb_state a = BLOCKED)"
    "p \<in> set (newList s) \<longleftrightarrow> (\<exists>a. tcbs s p = Some a \<and> tcb_state a = NEW)"
  using core_invD(5) [OF assms] by (auto simp: lists_ok_def listed_def in_state_def)

text \<open>
  What one pass does depends on the state of the thread with the id: it blocks the caller on a ready
  or a blocked thread, is over for one that has ended, and otherwise wakes threads up.
\<close>

lemma suse_join_pass_ok:
  assumes "full_inv M s" "progs s c = Some pr"
  obtains
    (joined) p a where "tcbs s p = Some a" "tid a = t" "tcb_socket a = prog_socket pr"
      "tcb_state a = READY \<or> tcb_state a = BLOCKED"
      "suse_join_pass E t c s = obind (join_found E p c s) (\<lambda>s1. Ret (True, s1))"
  | (ended) p a where "tcbs s p = Some a" "tid a = t" "tcb_socket a = prog_socket pr"
      "tcb_state a = EXIT" "suse_join_pass E t c s = Ret (True, s)"
  | (again) s' b where "\<forall>p a. tcbs s p = Some a \<longrightarrow> tid a = t \<longrightarrow> tcb_socket a = prog_socket pr \<longrightarrow>
        tcb_state a = NEW \<or> tcb_state a = EXEC"
      "wakeup_threads E c s = Ret (b, s')" "suse_join_pass E t c s = Ret (False, s')"
proof -
  note inv = full_invD [OF assms(1)]
  note alloc = list_alloc [OF inv(1)]
  let ?sock = "prog_socket pr"
  show thesis
  proof (cases rule: find_tcb_pos_cases [OF ready_alloc [OF inv(1) assms(2)], of t ?sock])
    case (2 j a)
    then have st: "tcb_state a = READY"
      using ready_mem [OF inv(1) assms(2), of "ready pr ! j"] by auto
    from joined [OF 2(3-5)] st 2(1,2) assms(2) show thesis
      by (simp add: suse_join_pass_def list_get_nth)
  next
    case 1
    note nready = this
    show thesis
    proof (cases rule: find_tcb_pos_cases [OF alloc(3), of t ?sock])
      case (2 j a)
      then have st: "tcb_state a = EXIT"
        using state_mem(1) [OF inv(1), of "exitList s ! j"] by auto
      from ended [OF 2(3-5) st] nready(1) 2(1) assms(2) show thesis
        by (simp add: suse_join_pass_def)
    next
      case 1
      note nexit = this
      show thesis
      proof (cases rule: find_tcb_pos_cases [OF alloc(2), of t ?sock])
        case (2 j a)
        then have st: "tcb_state a = BLOCKED"
          using state_mem(2) [OF inv(1), of "blockedList s ! j"] by auto
        from joined [OF 2(3-5)] st 2(1,2) nready(1) nexit(1) assms(2) show thesis
          by (simp add: suse_join_pass_def list_get_nth)
      next
        case 1
        obtain s' where w: "wakeup_threads E c s = Ret (wakeupList pr \<noteq> [], s')"
          by (rule wakeup_threads_ok [OF assms(1,2)])
        have "tcb_state a = NEW \<or> tcb_state a = EXEC"
          if a: "tcbs s p = Some a" "tid a = t" "tcb_socket a = ?sock" for p a
        proof (cases "tcb_state a")
          case READY
          then have "p \<in> set (ready pr)" using ready_mem [OF inv(1) assms(2)] a by auto
          with nready(2) a show ?thesis by blast
        next
          case EXIT
          then have "p \<in> set (exitList s)" using state_mem(1) [OF inv(1)] a by auto
          with nexit(2) a show ?thesis by blast
        next
          case BLOCKED
          then have "p \<in> set (blockedList s)" using state_mem(2) [OF inv(1)] a by auto
          with 1(2) a show ?thesis by blast
        qed simp_all
        then show thesis
          using again [of "wakeupList pr \<noteq> []" s'] w nready(1) nexit(1) 1(1) assms(2)
          by (simp add: suse_join_pass_def)
      qed
    qed
  qed
qed

text \<open>
  A state in which \<open>suse_join\<close> on \<open>t\<close> finds nothing: the thread is running or new, or there is none.
\<close>

definition join_stuck :: "nat \<Rightarrow> int \<Rightarrow> ptr \<Rightarrow> suse \<Rightarrow> bool" where
  "join_stuck M t c s \<longleftrightarrow> full_inv M s \<and> (\<exists>pr. progs s c = Some pr \<and> exec pr \<noteq> NULL \<and>
     (\<forall>p a. tcbs s p = Some a \<longrightarrow> tid a = t \<longrightarrow> tcb_socket a = prog_socket pr \<longrightarrow>
        tcb_state a = NEW \<or> tcb_state a = EXEC))"

lemma join_stuck_pass:
  assumes "join_stuck M t c s"
  obtains s' where "suse_join_pass E t c s = Ret (False, s')" "join_stuck M t c s'"
proof -
  obtain pr where pr: "full_inv M s" "progs s c = Some pr" "exec pr \<noteq> NULL"
    "\<And>p a. tcbs s p = Some a \<Longrightarrow> tid a = t \<Longrightarrow> tcb_socket a = prog_socket pr \<Longrightarrow>
       tcb_state a = NEW \<or> tcb_state a = EXEC"
    using assms by (auto simp: join_stuck_def)
  note inv = full_invD [OF pr(1)]
  obtain s' where w: "wakeup_threads E c s = Ret (wakeupList pr \<noteq> [], s')" "full_inv M s'"
    "evolves (prog_socket pr) s s'" "progs s' = (progs s)(c \<mapsto>
      pr\<lparr>wakeupList := odds (wakeupList pr), ready := ready pr @ evens (wakeupList pr)\<rparr>)"
    by (rule wakeup_threads_ok [OF pr(1,2)])
  let ?pr' = "pr\<lparr>wakeupList := odds (wakeupList pr), ready := ready pr @ evens (wakeupList pr)\<rparr>"
  have p': "progs s' c = Some ?pr'" by (simp add: w(4))
  have "suse_join_pass E t c s = Ret (False, s')"
    by (cases rule: suse_join_pass_ok [OF pr(1,2), of t E]) (use pr(4) w(1) in fastforce)+
  moreover have "tcb_state b = NEW \<or> tcb_state b = EXEC"
    if b: "tcbs s' p = Some b" "tid b = t" "tcb_socket b = prog_socket pr" for p b
  proof -
    have "tcbs s p \<noteq> None" using evolves_None(1) [OF w(3)] b(1) by (metis option.distinct(1))
    then obtain a where a: "tcbs s p = Some a" by auto
    obtain b' where "tcbs s' p = Some b'" "tid b' = tid a" "tcb_socket b' = tcb_socket a"
      "tcb_state a = NEW \<or> (tcb_state a = READY \<and> tcb_socket a \<noteq> prog_socket pr) \<longrightarrow>
        tcb_state b' = tcb_state a"
      by (rule evolves_tcb [OF w(3) a])
    then have ab: "tid a = t" "tcb_socket a = prog_socket pr" "tcb_state a = NEW \<Longrightarrow> tcb_state b = NEW"
      using b by auto
    have "tcb_state b = EXEC" if "tcb_state a = EXEC"
    proof -
      have "exec pr = p" by (rule exec_unique [OF inv(1) pr(2) a that ab(2)])
      moreover obtain e where "tcbs s' (exec ?pr') = Some e" "tcb_state e = EXEC"
        by (rule exec_tcb [OF full_invD(1) [OF w(2)] p']) (use pr(3) in simp)
      ultimately show ?thesis using b(1) by simp
    qed
    with pr(4) [OF a ab(1,2)] ab(3) show ?thesis by blast
  qed
  then have "join_stuck M t c s'" using w(2) p' pr(3) by (auto simp: join_stuck_def)
  ultimately show thesis by (rule that)
qed

lemma join_never_returns:
  assumes "join_stuck M t c s" "\<And>k s. join_stuck M t c s \<Longrightarrow> join_stuck M t c (other k s)"
  shows "suse_join n other E t c s = OutOfFuel"
  using assms(1)
proof (induction n arbitrary: s)
  case (Suc n)
  obtain s' where "suse_join_pass E t c s = Ret (False, s')" "join_stuck M t c s'"
    by (rule join_stuck_pass [OF Suc.prems])
  with Suc.IH [OF assms(2)] show ?case by simp
qed simp

lemma self_join_stuck:
  assumes "full_inv M s" "progs s c = Some pr" "tcbs s (exec pr) = Some e" "tid e = t"
  shows "join_stuck M t c s"
proof -
  note inv = full_invD [OF assms(1)]
  have nn: "exec pr \<noteq> NULL"
    using heap_ok_NULL(1) [OF core_invD(1) [OF inv(1)]] assms(3) by (intro notI) simp
  obtain e' where e': "tcbs s (exec pr) = Some e'" "tcb_state e' = EXEC" "tcb_socket e' = prog_socket pr"
    by (rule exec_tcb [OF inv(1) assms(2) nn])
  have "tcb_state a = EXEC" if "tcbs s p = Some a" "tid a = t" "tcb_socket a = prog_socket pr" for p a
  proof -
    have "p = exec pr"
      using core_invD(2) [OF inv(1)] that e' assms(3,4) unfolding keys_ok_def by (metis option.inject)
    with that e' show ?thesis by simp
  qed
  with assms(1,2) nn show ?thesis by (auto simp: join_stuck_def)
qed

text \<open>When it comes back, the join has found the thread, in one of the states it looks for.\<close>

lemma suse_join_inv:
  assumes "suse_join n (\<lambda>_ s. s) E t c s = Ret s'" "full_inv M s" "progs s c = Some pr"
  shows "full_inv M s' \<and> evolves (prog_socket pr) s s'"
  using assms
proof (induction n arbitrary: s pr)
  case (Suc n)
  note inv = full_invD [OF Suc.prems(2)]
  show ?case
  proof (cases rule: suse_join_pass_ok [OF Suc.prems(2,3), of t E])
    case (1 p a)
    show ?thesis
    proof (cases "exec pr = NULL")
      case True
      have "tcbs s NULL = None" by (rule heap_ok_NULL) (rule core_invD [OF inv(1)])
      then have "tcbs (set_tcb p (a\<lparr>joined := joined a @ [NULL]\<rparr>) s) NULL = None"
        using 1(1) by (cases "p = NULL") auto
      then have "join_found E p c s = Fault"
        using True 1(1) Suc.prems(3) by (simp add: join_found_def move_tcb_to_def Let_def)
      with Suc.prems(1) 1(5) show ?thesis by simp
    next
      case False
      note jf = join_found_ok [OF Suc.prems(2,3) False 1(1,4), of E]
      with Suc.prems(1) 1(5) show ?thesis by auto
    qed
  next
    case (2 p a)
    with Suc.prems(1,2) show ?thesis by simp
  next
    case (3 s1 b)
    obtain s1' where w: "wakeup_threads E c s = Ret (wakeupList pr \<noteq> [], s1')" "full_inv M s1'"
      "evolves (prog_socket pr) s s1'" "progs s1' = (progs s)(c \<mapsto>
        pr\<lparr>wakeupList := odds (wakeupList pr), ready := ready pr @ evens (wakeupList pr)\<rparr>)"
      by (rule wakeup_threads_ok [OF Suc.prems(2,3)])
    with 3 have s1: "s1' = s1" by simp
    have "suse_join n (\<lambda>_ s. s) E t c s1 = Ret s'" using Suc.prems(1) 3(3) by simp
    from Suc.IH [OF this w(2) [unfolded s1]] w(3,4) evolves_trans [of "prog_socket pr" s s1 s']
    show ?thesis by (simp add: s1)
  qed
qed simp

section \<open>Close\<close>

text \<open>The invariant while the threads that wait for the running thread \<open>e\<close> are woken up.\<close>

definition unjoining :: "nat \<Rightarrow> ptr \<Rightarrow> ptr \<Rightarrow> ptr list \<Rightarrow> ptr list \<Rightarrow> suse \<Rightarrow> bool" where
  "unjoining M c e js left s \<longleftrightarrow> core_inv M s \<and>
     waits (in_state s BLOCKED) ((waiters s)(OnJoin e := left)) \<and> counters_ok s \<and> wakeup_ok s \<and>
     sems_ok s \<and> (\<exists>pr a. progs s c = Some pr \<and> exec pr = e \<and> tcbs s e = Some a \<and>
       tcb_state a = EXEC \<and> tcb_socket a = prog_socket pr \<and> joined a = js)"

lemma unjoining_step:
  assumes "unjoining M c e js (q # left) s"
  shows "move_tcb_to E q READY s = Ret (moved E q READY s)"
    "unjoining M c e js left (moved E q READY s)" "evolves sock s (moved E q READY s)"
proof -
  obtain pr a where pr: "progs s c = Some pr" "exec pr = e" "tcbs s e = Some a" "tcb_state a = EXEC"
    "tcb_socket a = prog_socket pr" "joined a = js"
    and inv: "core_inv M s" "waits (in_state s BLOCKED) ((waiters s)(OnJoin e := q # left))"
      "counters_ok s" "wakeup_ok s" "sems_ok s"
    using assms by (auto simp: unjoining_def)
  let ?s = "moved E q READY s"
  have "q \<in> in_state s BLOCKED" by (rule waits_mem [OF inv(2), of q "OnJoin e"]) simp
  then obtain x where x: "tcbs s q = Some x" "tcb_state x = BLOCKED" by (auto simp: in_state_def)
  have ne: "q \<noteq> e" using x pr(3,4) by auto
  show "move_tcb_to E q READY s = Ret ?s"
    using x(2) by (intro move_refines [OF inv(1) x(1)]) simp
  have core: "core_inv M ?s" using x(2) by (intro core_inv_moved [OF inv(1) x(1)]) auto
  show "evolves sock s ?s" using x(2) by (intro evolves_moved [OF inv(1) x(1)]) auto
  have "distinct (q # left)"
    using inv(2) unfolding waits_def by (metis fun_upd_same)
  then have "waits (in_state s BLOCKED - {q}) (((waiters s)(OnJoin e := q # left))(OnJoin e := left))"
    by (intro waits_del [OF inv(2)]) auto
  then have "waits (in_state ?s BLOCKED) ((waiters ?s)(OnJoin e := left))"
    using x by (simp add: in_state_moved waiters_moved)
  moreover have "counters_ok ?s" using x(2) by (intro counters_moved [OF inv(1) x(1) inv(3)]) auto
  moreover have "wakeup_ok ?s" by (rule wakeup_ok_moved [OF x(1) inv(4)])
  moreover have "\<exists>pr a. progs ?s c = Some pr \<and> exec pr = e \<and> tcbs ?s e = Some a \<and>
       tcb_state a = EXEC \<and> tcb_socket a = prog_socket pr \<and> joined a = js"
  proof -
    have "tcbs ?s e = Some a" using ne pr(3) x by (simp add: moved_sel)
    moreover obtain pr' where pr': "progs ?s c = Some pr'" "prog_socket pr' = prog_socket pr"
      by (rule moved_prog [OF pr(1)])
    moreover have "exec pr' = e"
      by (rule exec_unique [OF core pr'(1)]) (use \<open>tcbs ?s e = Some a\<close> pr(4,5) pr'(2) in auto)
    ultimately show ?thesis using pr(4-6) by auto
  qed
  ultimately show "unjoining M c e js left ?s"
    using core inv(5) by (simp add: unjoining_def)
qed

lemma unjoin_loop_ok:
  assumes "unjoining M c e js left s" "js = done @ left" "length left < n"
  shows "\<exists>s'. unjoin_loop n E c (length done) s = Ret s' \<and> unjoining M c e js [] s' \<and>
    evolves sock s s' \<and> (\<forall>q. q \<notin> set left \<longrightarrow> tcbs s' q = tcbs s q) \<and>
    (\<forall>q \<in> set left. \<exists>x. tcbs s' q = Some x \<and> tcb_state x = READY) \<and>
    exitList s' = exitList s \<and> sent s' = sent s \<and> mlog s' = mlog s"
  using assms
proof (induction left arbitrary: "done" s n)
  case Nil
  then obtain n' where "n = Suc n'" by (cases n) auto
  with Nil show ?case by (auto simp: unjoining_def)
next
  case (Cons q left)
  then obtain n' where n: "n = Suc n'" by (cases n) auto
  note st = unjoining_step(1,2) [where E = E, OF Cons.prems(1)]
    and ev = unjoining_step(3) [where E = E and sock = sock, OF Cons.prems(1)]
  let ?s = "moved E q READY s"
  have w: "waits (in_state s BLOCKED) ((waiters s)(OnJoin e := q # left))"
    using Cons.prems(1) by (simp add: unjoining_def)
  then have nin: "q \<notin> set left" unfolding waits_def by (metis distinct.simps(2) fun_upd_same)
  have "q \<in> in_state s BLOCKED" by (rule waits_mem [OF w, of q "OnJoin e"]) simp
  then obtain x where x: "tcbs s q = Some x" "tcb_state x = BLOCKED" by (auto simp: in_state_def)
  have sel: "\<exists>y. tcbs ?s q = Some y \<and> tcb_state y = READY" "r \<noteq> q \<Longrightarrow> tcbs ?s r = tcbs s r"
    "exitList ?s = exitList s" for r
    using x by (simp_all add: moved_sel relist_def)
  have "js = (done @ [q]) @ left" "length left < n'" using Cons.prems(2,3) n by simp_all
  from Cons.IH [OF st(2) this] obtain s' where s': "unjoin_loop n' E c (Suc (length done)) ?s = Ret s'"
    "unjoining M c e js [] s'" "evolves sock ?s s'" "\<forall>r. r \<notin> set left \<longrightarrow> tcbs s' r = tcbs ?s r"
    "\<forall>r \<in> set left. \<exists>x. tcbs s' r = Some x \<and> tcb_state x = READY"
    "exitList s' = exitList ?s" "sent s' = sent ?s" "mlog s' = mlog ?s"
    by auto
  have "unjoin_loop n E c (length done) s = Ret s'"
    using s'(1) st(1) Cons.prems(1,2) n by (auto simp: unjoining_def)
  moreover have "\<forall>r. r \<notin> set (q # left) \<longrightarrow> tcbs s' r = tcbs s r" using s'(4) sel(2) by simp
  moreover have "\<forall>r \<in> set (q # left). \<exists>x. tcbs s' r = Some x \<and> tcb_state x = READY"
    using s'(4,5) sel(1) nin by auto
  ultimately show ?case
    using s'(2,6-8) evolves_trans [OF ev s'(3)] sel(3) by auto
qed

lemma unjoin_exec_ok:
  assumes "full_inv M s" "progs s c = Some pr" "tcbs s (exec pr) = Some e" "exec pr \<noteq> NULL"
  obtains s' where "unjoin_exec E c s = Ret s'" "unjoining M c (exec pr) (joined e) [] s'"
    "evolves (prog_socket pr) s s'" "tcbs s' (exec pr) = Some e"
    "\<forall>q \<in> set (joined e). \<exists>x. tcbs s' q = Some x \<and> tcb_state x = READY"
    "exitList s' = exitList s" "sent s' = sent s" "mlog s' = mlog s"
proof -
  note inv = full_invD [OF assms(1)]
  have st: "tcb_state e = EXEC" "tcb_socket e = prog_socket pr"
    using exec_tcb [OF inv(1) assms(2,4)] assms(3) by auto
  have "(waiters s)(OnJoin (exec pr) := joined e) = waiters s" using assms(3) st by auto
  then have u: "unjoining M c (exec pr) (joined e) (joined e) s"
    using inv assms(2,3) st by (simp add: unjoining_def)
  have "exec pr \<notin> in_state s BLOCKED" using assms(3) st by (simp add: in_state_def)
  then have nin: "exec pr \<notin> set (joined e)"
    using waits_mem [OF inv(2), of "exec pr" "OnJoin (exec pr)"] assms(3) st by auto
  from unjoin_loop_ok [OF u, of "[]" "Suc (length (joined e))" E "prog_socket pr"] nin assms(2,3)
  show thesis by (auto simp: unjoin_exec_def intro: that)
qed

lemma close_log_none:
  assumes "progs s c = Some pr" "i \<le> length (exitList s)"
    "\<forall>k < i. \<exists>a. tcbs s (exitList s ! k) = Some a \<and> \<not> (tcb_socket a = prog_socket pr \<and> tid a = t)"
  shows "close_log E t c i s = Ret s"
  using assms(2,3)
proof (induction i)
  case (Suc i)
  then obtain a where "tcbs s (exitList s ! i) = Some a"
    "\<not> (tcb_socket a = prog_socket pr \<and> tid a = t)" by auto
  with Suc assms(1) show ?case by (auto simp: list_get_nth)
qed simp

lemma suse_close_ok:
  assumes "full_inv M s" "progs s c = Some pr" "tcbs s (exec pr) = Some e" "tid e = t"
  obtains s' pr' x l where "suse_close E t c s = Ret s'" "full_inv M s'"
    "evolves (prog_socket pr) s s'" "progs s' c = Some pr'" "exec pr' = NULL"
    "tcbs s' (exec pr) = Some x" "tcb_state x = EXIT"
    "\<forall>q \<in> set (joined e). \<exists>y. tcbs s' q = Some y \<and> tcb_state y = READY"
    "mlog s' = mlog s @ [ThreadFinished, ThreadMetric l]" "m_tid l = t"
proof -
  note inv = full_invD [OF assms(1)]
  let ?e = "exec pr"
  have nn: "?e \<noteq> NULL"
    using heap_ok_NULL(1) [OF core_invD(1) [OF inv(1)]] assms(3) by (intro notI) simp
  obtain s1 where s1: "unjoin_exec E c s = Ret s1" "unjoining M c ?e (joined e) [] s1"
    "evolves (prog_socket pr) s s1" "tcbs s1 ?e = Some e"
    "\<forall>q \<in> set (joined e). \<exists>x. tcbs s1 q = Some x \<and> tcb_state x = READY"
    "mlog s1 = mlog s"
    by (rule unjoin_exec_ok [OF assms(1-3) nn])
  obtain pr1 where pr1: "progs s1 c = Some pr1" "exec pr1 = ?e" "tcb_state e = EXEC"
      "tcb_socket e = prog_socket pr1"
    and inv1: "core_inv M s1" "waits (in_state s1 BLOCKED) ((waiters s1)(OnJoin ?e := []))"
      "counters_ok s1" "wakeup_ok s1" "sems_ok s1"
    using s1(2,4) by (auto simp: unjoining_def)
  have sock1: "prog_socket pr1 = prog_socket pr"
    by (rule evolves_prog [OF s1(3) assms(2)]) (use pr1(1) in simp)
  define s2 where "s2 = moved E ?e EXIT s1"
  have move: "move_tcb_to E ?e EXIT s1 = Ret s2"
    unfolding s2_def by (rule move_refines [OF inv1(1) s1(4)]) simp
  have core2: "core_inv M s2"
    unfolding s2_def by (rule core_inv_moved [OF inv1(1) s1(4)]) simp_all
  have sel: "\<exists>x. tcbs s2 ?e = Some x \<and> tcb_state x = EXIT \<and> tid x = t \<and> tcb_socket x = prog_socket pr"
    "\<And>q. q \<noteq> ?e \<Longrightarrow> tcbs s2 q = tcbs s1 q" "exitList s2 = exitList s1 @ [?e]"
    using s1(4) pr1(3,4) assms(4) sock1 by (simp_all add: s2_def moved_sel relist_def)
  obtain pr2 where pr2: "progs s2 c = Some pr2" "prog_socket pr2 = prog_socket pr" "exec pr2 = NULL"
    using moved_own_prog [OF inv1(1) s1(4) _ pr1(1), of EXIT E] pr1(3,4) sock1
    by (auto simp: s2_def reprog_def)
  have "?e \<notin> in_state s1 BLOCKED" using s1(4) pr1(3) by (simp add: in_state_def)
  then have "waits (in_state s2 BLOCKED) (waiters s2)"
    using inv1(2) s1(4) pr1(3) by (simp add: s2_def in_state_moved waiters_moved)
  moreover have "counters_ok s2" "wakeup_ok s2" "sems_ok s2"
    using counters_moved [OF inv1(1) s1(4) inv1(3), of EXIT E] wakeup_ok_moved [OF s1(4) inv1(4)]
      inv1(5) pr1(3) by (simp_all add: s2_def)
  ultimately have full2: "full_inv M s2" using core2 by (simp add: full_inv_def)
  have ev2: "evolves (prog_socket pr) s1 s2"
    unfolding s2_def using pr1(3,4) sock1 by (intro evolves_moved [OF inv1(1) s1(4)]) auto
  obtain x where x: "tcbs s2 ?e = Some x" "tcb_state x = EXIT" "tid x = t"
    "tcb_socket x = prog_socket pr" using sel(1) by blast
  obtain s3 l where s3: "log_metrics_thread (tod E) ?e s2 = Ret s3" "retimed s2 s3"
    "mlog s3 = mlog s2 @ [ThreadFinished, ThreadMetric l]" "m_tid l = tid x"
    by (rule log_metrics_thread_ok [OF core2 x(1)])
  have eqs: "progs s3 = progs s2" "exitList s3 = exitList s2"
    using s3(2) by (simp_all add: rekeyed_def)
  have "close_log E t c (length (exitList s1)) s3 = Ret s3"
  proof (rule close_log_none)
    show "progs s3 c = Some pr2" by (simp add: eqs pr2(1))
    show "length (exitList s1) \<le> length (exitList s3)" by (simp add: eqs sel(3))
    show "\<forall>k < length (exitList s1). \<exists>a. tcbs s3 (exitList s3 ! k) = Some a \<and>
        \<not> (tcb_socket a = prog_socket pr2 \<and> tid a = t)"
    proof (intro allI impI)
      fix k assume k: "k < length (exitList s1)"
      let ?q = "exitList s1 ! k"
      have q: "exitList s3 ! k = ?q" using k by (simp add: eqs sel(3) nth_append)
      have "?q \<in> set (exitList s2)" "distinct (exitList s2)"
        using k core_invD(5) [OF core2] by (auto simp: sel(3) lists_ok_def listed_def)
      moreover have "?q \<in> set (exitList s1)" using k by simp
      ultimately have "?q \<noteq> ?e" "\<exists>y. tcbs s2 ?q = Some y"
        using state_mem(1) [OF core2] by (auto simp: sel(3))
      then obtain y where y: "tcbs s2 ?q = Some y" "?q \<noteq> ?e" by blast
      have "\<not> (tcb_socket y = prog_socket pr2 \<and> tid y = t)"
        using core_invD(2) [OF core2] x y pr2(2) unfolding keys_ok_def by metis
      moreover obtain z where "tcbs s3 ?q = Some z" "same_tcb y z"
        using retimed_tcb(2) [OF s3(2) y(1)] by blast
      ultimately show "\<exists>a. tcbs s3 (exitList s3 ! k) = Some a \<and>
          \<not> (tcb_socket a = prog_socket pr2 \<and> tid a = t)"
        by (auto simp: q same_tcb_def same_key_def)
    qed
  qed
  then have "close_log E t c (length (exitList s2)) s2 = Ret s3"
    using s3(1) x pr2(1,2) by (simp add: sel(3) list_get_nth)
  then have "suse_close E t c s = Ret s3"
    using assms(2-4) s1(1) pr1(1,2) move by (simp add: suse_close_def)
  moreover have "full_inv M s3" by (rule retimed_full [OF s3(2) full2])
  moreover have "evolves (prog_socket pr) s s3"
    by (rule evolves_trans [OF s1(3) evolves_trans [OF ev2 retimed_evolves [OF s3(2)]]])
  moreover obtain x3 where "tcbs s3 ?e = Some x3" "tcb_state x3 = EXIT"
    using retimed_tcb(2) [OF s3(2) x(1)] x(2) by (auto simp: same_tcb_def same_key_def)
  moreover have "\<forall>q \<in> set (joined e). \<exists>y. tcbs s3 q = Some y \<and> tcb_state y = READY"
  proof
    fix q assume "q \<in> set (joined e)"
    then obtain y where y: "tcbs s1 q = Some y" "tcb_state y = READY" using s1(5) by blast
    then have "q \<noteq> ?e" using s1(4) pr1(3) by auto
    then have "tcbs s2 q = Some y" using sel(2) y(1) by simp
    from retimed_tcb(2) [OF s3(2) this] y(2)
    show "\<exists>y. tcbs s3 q = Some y \<and> tcb_state y = READY" by (auto simp: same_tcb_def same_key_def)
  qed
  ultimately show thesis
    using that [of s3 pr2 x3 l] pr2(1,3) s3(3,4) x(3) s1(6) by (simp add: eqs s2_def)
qed

end
