(* ===== verification/SuseSystem.thy ===== *)
theory SuseSystem
  imports SuseJoin
begin

text \<open>
  SUSE as a transition system: programs connect, their requests are handled one after the other,
  the long-term scheduler runs, metrics are written. A step is a whole pass of one of the process's
  threads; it happens when the pass returns, so a pass that would wait is a step that is not
  enabled yet. The guards of the steps are the protocol that hilolay keeps: the main thread with id
  0 is created first, ids are not used twice, and nothing else is asked for before the main thread
  runs.
\<close>

section \<open>Creation\<close>

lemma full_inv_mallocs:
  assumes "full_inv M s" "mallocs s \<le> k"
  shows "full_inv M (s\<lparr>mallocs := k\<rparr>)"
proof -
  let ?s = "s\<lparr>mallocs := k\<rparr>"
  note inv = full_invD [OF assms(1)]
  note cinv = core_invD [OF inv(1)]
  have sets: "in_state ?s = in_state s" "members ?s = members s" "active_set ?s = active_set s"
    by (rule sets_cong, simp)+
  have "waiters ?s r = waiters s r" for r by (cases r) auto
  then have w: "waiters ?s = waiters s" by (auto simp: fun_eq_iff)
  have "heap_ok ?s" using cinv(1) assms(2) by (fastforce simp: heap_ok_def)
  then have "core_inv M ?s"
    using cinv by (simp add: core_inv_def owned_def lists_ok_def listed_def prog_listed_def
      degree_ok_def sets)
  then show ?thesis
    using inv by (simp add: full_inv_def counters_ok_def wakeup_ok_def sems_ok_def sets w)
qed

definition fresh_key :: "suse \<Rightarrow> int \<Rightarrow> int \<Rightarrow> bool" where
  "fresh_key s t sock \<longleftrightarrow> (\<forall>p a. tcbs s p = Some a \<longrightarrow> \<not> (tid a = t \<and> tcb_socket a = sock))"

text \<open>A new thread is in the state NEW, at the end of \<open>newList\<close>, and waits for nothing.\<close>

definition added :: "ptr \<Rightarrow> t_tcb \<Rightarrow> suse \<Rightarrow> suse" where
  "added p a s = (set_tcb p a s)\<lparr>newList := newList s @ [p], new_counter := Suc (new_counter s)\<rparr>"

lemma added_ok:
  assumes "full_inv M s" "0 < p" "p \<le> mallocs s" "tcbs s p = None" "tcb_state a = NEW"
    "joined a = []" "fresh_key s (tid a) (tcb_socket a)" "progs s c = Some pr"
    "prog_socket pr = tcb_socket a"
  shows "full_inv M (added p a s)"
proof -
  let ?s = "added p a s"
  note inv = full_invD [OF assms(1)]
  note cinv = core_invD [OF inv(1)]
  have sel: "tcbs ?s = (tcbs s)(p \<mapsto> a)" "progs ?s = progs s" "sems ?s = sems s"
    "newList ?s = newList s @ [p]" "blockedList ?s = blockedList s" "exitList ?s = exitList s"
    "clientes ?s = clientes s" "semaforos ?s = semaforos s" "mallocs ?s = mallocs s"
    "new_counter ?s = Suc (new_counter s)" "multiprog_degree ?s = multiprog_degree s"
    "available_multiprog ?s = available_multiprog s"
    by (simp_all add: added_def)
  have ins: "in_state ?s st = (if st = NEW then insert p (in_state s st) else in_state s st)"
    "st \<noteq> NEW \<Longrightarrow> members ?s st k = members s st k" for st k
    using assms(4,5) by (auto simp: in_state_def members_def sel)
  have as: "active_set ?s = active_set s"
    using assms(4,5) by (auto simp: active_set_def sel)
  have notin: "p \<notin> in_state s st" for st using assms(4) by (simp add: in_state_def)
  have "heap_ok ?s" using cinv(1) assms(2,3) by (simp add: heap_ok_def sel)
  moreover have "keys_ok (tcbs ?s)"
    unfolding keys_ok_def sel
  proof (intro allI impI)
    fix q r x y
    assume h: "((tcbs s)(p \<mapsto> a)) q = Some x" "((tcbs s)(p \<mapsto> a)) r = Some y" "tid x = tid y"
      "tcb_socket x = tcb_socket y"
    show "q = r"
    proof (cases "q = p \<or> r = p")
      case True
      then show ?thesis
        using h assms(7) unfolding fresh_key_def by (cases "q = p"; cases "r = p") auto
    next
      case False
      then show ?thesis using h cinv(2) unfolding keys_ok_def by auto
    qed
  qed
  moreover have "progs_ok (progs ?s) (clientes ?s)" using cinv(3) by (simp add: sel)
  moreover have "owned ?s" using cinv(4) assms(8,9) by (auto simp: owned_def sel)
  moreover have "lists_ok ?s"
    using cinv(5) notin
    by (auto simp: lists_ok_def listed_def prog_listed_def sel ins)
  moreover have "degree_ok M ?s" using cinv(6) by (simp add: degree_ok_def sel as)
  ultimately have "core_inv M ?s" by (simp add: core_inv_def)
  moreover have "waiters ?s r = waiters s r" for r
    using assms(4,6) by (cases r) (auto simp: sel)
  then have "waiters ?s = waiters s" by (auto simp: fun_eq_iff)
  moreover have "wakeup_ok ?s"
    unfolding wakeup_ok_def sel
  proof (intro allI impI)
    fix d dr q
    assume "progs s d = Some dr" "q \<in> set (wakeupList dr)"
    then obtain b where "tcbs s q = Some b" "tcb_socket b = prog_socket dr"
      using inv(4) unfolding wakeup_ok_def by metis
    then show "\<exists>b. ((tcbs s)(p \<mapsto> a)) q = Some b \<and> tcb_socket b = prog_socket dr"
      using assms(4) by (cases "q = p") auto
  qed
  moreover have "counters_ok ?s" "sems_ok ?s"
    using inv(3,5) by (simp_all add: counters_ok_def sems_ok_def sel)
  ultimately show ?thesis using inv(2) by (simp add: full_inv_def ins)
qed

lemma heap_fresh:
  assumes "core_inv M s" "mallocs s < p"
  shows "tcbs s p = None" "progs s p = None" "sems s p = None"
  using core_invD(1) [OF assms(1)] assms(2) unfolding heap_ok_def by (metis linorder_not_le)+

text \<open>What \<open>create_tcb\<close> returns, in all three cases of the two allocations.\<close>

lemma create_tcb_ok:
  assumes "full_inv M s" "progs s c = Some pr" "prog_socket pr = sock" "fresh_key s t sock"
  obtains
    (none) "create_tcb E sock t s = Ret (NULL, s\<lparr>mallocs := Suc (mallocs s)\<rparr>)" "oom E (mallocs s)"
  | (fault) "create_tcb E sock t s = Fault" "oom E (Suc (mallocs s))"
  | (some) a s' where "create_tcb E sock t s = Ret (Suc (mallocs s), s')"
      "tid a = t" "tcb_socket a = sock" "tcb_state a = NEW" "joined a = []" "full_inv M s'"
      "tcbs s' = (tcbs s)(Suc (mallocs s) \<mapsto> a)" "progs s' = progs s" "sems s' = sems s"
      "newList s' = newList s @ [Suc (mallocs s)]" "clientes s' = clientes s"
      "semaforos s' = semaforos s" "endsuse s' = endsuse s"
proof -
  consider (a) "oom E (mallocs s)" | (b) "\<not> oom E (mallocs s)" "oom E (Suc (mallocs s))"
    | (c) "\<not> oom E (mallocs s)" "\<not> oom E (Suc (mallocs s))" by blast
  then show thesis
  proof cases
    case a
    then show thesis using none by (simp add: create_tcb_def alloc_def)
  next
    case b
    then show thesis using fault by (simp add: create_tcb_def alloc_def)
  next
    case c
    define b where "b = fst (create_burst (tod E) (uninit_burst E) (ticks s))"
    define k where "k = snd (create_burst (tod E) (uninit_burst E) (ticks s))"
    define a where "a = \<lparr>tcb_socket = sock, tid = t, tcb_state = NEW, tcb_time = b, joined = []\<rparr>"
    define p where "p = Suc (mallocs s)"
    define s1 where "s1 = s\<lparr>mallocs := Suc (Suc (mallocs s))\<rparr>"
    define s2 where "s2 = (added p a s1)\<lparr>ticks := k\<rparr>"
    have f1: "full_inv M s1" unfolding s1_def by (rule full_inv_mallocs [OF assms(1)]) simp
    have "full_inv M (added p a s1)"
      using heap_fresh(1) [OF full_invD(1) [OF assms(1)], of p] assms(2-4)
      by (intro added_ok [OF f1]) (auto simp: s1_def p_def a_def fresh_key_def)
    then have f2: "full_inv M s2" unfolding s2_def by (rule retimed_full [OF retimed_ticks(1)])
    have "get_program_id s2 sock = Ret (prog_id pr)"
      by (rule get_program_mem [OF core_invD(3) [OF full_invD(1) [OF f2]]])
        (use assms(2,3) in \<open>simp_all add: s2_def added_def s1_def\<close>)
    moreover have "s2 = (set_tcb p a s1)\<lparr>ticks := k, newList := newList s1 @ [p],
        new_counter := Suc (new_counter s1)\<rparr>"
      unfolding s2_def added_def by (intro suse.equality) simp_all
    ultimately have "create_tcb E sock t s = Ret (p, s2)"
      using c by (simp add: create_tcb_def alloc_def case_prod_beta Let_def s1_def
        p_def a_def b_def k_def)
    then show thesis
      using some [of s2 a] f2 by (simp add: p_def s2_def added_def s1_def a_def)
  qed
qed

lemma progs_ok_new:
  assumes "progs_ok h cs" "h c = None" "\<forall>d qr. h d = Some qr \<longrightarrow> prog_socket qr \<noteq> prog_socket pr"
  shows "progs_ok (h(c \<mapsto> pr)) (cs @ [c])"
  unfolding progs_ok_def
proof (intro conjI allI impI)
  have cs: "d \<in> set cs \<longleftrightarrow> h d \<noteq> None" "distinct cs" for d
    using assms(1) by (simp_all add: progs_ok_def)
  show "distinct (cs @ [c])" using cs(1) [of c] cs(2) assms(2) by simp
  show "d \<in> set (cs @ [c]) \<longleftrightarrow> (h(c \<mapsto> pr)) d \<noteq> None" for d
    by (cases "d = c") (simp_all add: cs(1))
next
  fix d e x y
  assume h: "(h(c \<mapsto> pr)) d = Some x" "(h(c \<mapsto> pr)) e = Some y" "prog_socket x = prog_socket y"
  have x: "(d = c \<and> prog_socket x = prog_socket pr) \<or> (d \<noteq> c \<and> h d = Some x)"
    using h(1) by (cases "d = c") auto
  have y: "(e = c \<and> prog_socket y = prog_socket pr) \<or> (e \<noteq> c \<and> h e = Some y)"
    using h(2) by (cases "e = c") auto
  from x y h(3) assms(3) show "d = e"
    using prog_unique [OF assms(1), of d x e y] by metis
qed

lemma create_program_ok:
  assumes "full_inv M s" "is_program_loaded s sock = Ret False"
  obtains
    (none) "create_program E sock s = (NULL, s\<lparr>mallocs := Suc (mallocs s)\<rparr>)"
  | (some) pr s' where "create_program E sock s = (Suc (mallocs s), s')" "full_inv M s'"
      "progs s' = (progs s)(Suc (mallocs s) \<mapsto> pr)" "prog_socket pr = sock" "exec pr = NULL"
      "ready pr = []" "main_loaded_mutex pr = Locked" "tcbs s' = tcbs s" "newList s' = newList s"
      "\<forall>c qr. progs s c = Some qr \<longrightarrow> prog_socket qr \<noteq> sock" "endsuse s' = endsuse s"
proof (cases "oom E (mallocs s)")
  case True
  then show thesis using none by (simp add: create_program_def alloc_def)
next
  case False
  note inv = full_invD [OF assms(1)]
  note cinv = core_invD [OF inv(1)]
  define c where "c = Suc (mallocs s)"
  define pr where "pr = \<lparr>prog_id = program_id_counter s + 1, prog_socket = sock, ready = [],
    exec = NULL, tcb_counter = 0, wakeupList = [], main_loaded_mutex = Locked,
    prog_close = uninit_close E\<rparr>"
  define s' where "s' = (set_prog c pr (s\<lparr>mallocs := Suc (mallocs s)\<rparr>))
    \<lparr>program_id_counter := program_id_counter s + 1, clientes := clientes s @ [c]\<rparr>"
  have new: "\<forall>d qr. progs s d = Some qr \<longrightarrow> prog_socket qr \<noteq> sock"
  proof (intro allI impI notI)
    fix d qr
    assume d: "progs s d = Some qr" "prog_socket qr = sock"
    have u: "\<forall>e er. progs s e = Some er \<longrightarrow> prog_socket er = sock \<longrightarrow> e = d"
      using prog_unique [OF cinv(3) d(1)] d(2) by blast
    have m: "d \<in> set (clientes s)" "\<forall>e \<in> set (clientes s). progs s e \<noteq> None"
      using cinv(3) d(1) by (auto simp: progs_ok_def)
    have "find_program_pos s sock \<noteq> Ret (- 1)"
      using find_program_from_mem [where h = "progs s" and i = 0, OF u d m]
      by (auto simp: find_program_pos_def)
    moreover have "find_program_pos s sock = Ret (- 1)"
      using assms(2) by (auto simp: is_program_loaded_def obind_Ret_iff)
    ultimately show False by simp
  qed
  have none: "tcbs s c = None" "progs s c = None"
    by (rule heap_fresh [OF inv(1)], simp add: c_def)+
  have sel: "tcbs s' = tcbs s" "progs s' = (progs s)(c \<mapsto> pr)" "sems s' = sems s"
    "newList s' = newList s" "blockedList s' = blockedList s" "exitList s' = exitList s"
    "clientes s' = clientes s @ [c]" "semaforos s' = semaforos s" "mallocs s' = Suc (mallocs s)"
    "new_counter s' = new_counter s" "multiprog_degree s' = multiprog_degree s"
    "available_multiprog s' = available_multiprog s"
    by (simp_all add: s'_def)
  note sets = sets_cong [OF sel(1)]
  have nothr: "tcb_socket a \<noteq> sock" if "tcbs s p = Some a" for p a
    using owner [OF inv(1) that] new by metis
  then have mem: "members s st sock = {}" for st by (auto simp: members_def)
  have "heap_ok s'" using cinv(1) by (fastforce simp: heap_ok_def sel c_def)
  moreover have "progs_ok (progs s') (clientes s')"
    unfolding sel using new by (intro progs_ok_new [OF cinv(3) none(2)]) (auto simp: pr_def)
  moreover have "owned s'"
    unfolding owned_def sel
  proof (intro allI impI)
    fix p a assume "tcbs s p = Some a"
    then obtain d dr where "progs s d = Some dr" "prog_socket dr = tcb_socket a"
      by (rule owner [OF inv(1)])
    then show "\<exists>d dr. ((progs s)(c \<mapsto> pr)) d = Some dr \<and> prog_socket dr = tcb_socket a"
      using none(2) by (intro exI [of _ d] exI [of _ dr]) auto
  qed
  moreover have "lists_ok s'" "degree_ok M s'"
    using cinv(5,6) mem
    by (auto simp: lists_ok_def listed_def prog_listed_def degree_ok_def sel sets pr_def exec_set_def)
  ultimately have "core_inv M s'" using cinv(2) by (simp add: core_inv_def sel)
  moreover have "waiters s' r = waiters s r" for r
    using none(2) by (cases r) (auto simp: sel pr_def)
  then have "waiters s' = waiters s" by (auto simp: fun_eq_iff)
  moreover have "counters_ok s'" "wakeup_ok s'" "sems_ok s'"
    using inv(3-5) by (auto simp: counters_ok_def wakeup_ok_def sems_ok_def sel pr_def)
  ultimately have "full_inv M s'" using inv(2) by (simp add: full_inv_def sets)
  moreover have "create_program E sock s = (c, s')"
    using False by (simp add: create_program_def alloc_def c_def s'_def pr_def set_prog_def)
  ultimately show thesis
    using some [of s' pr] new by (simp add: c_def sel pr_def) (simp add: s'_def)
qed

section \<open>The long-term scheduler and the main thread\<close>

lemma full_inv_set_flags:
  assumes "full_inv M s" "progs s c = Some pr" "prog_socket pr' = prog_socket pr"
    "ready pr' = ready pr" "exec pr' = exec pr" "tcb_counter pr' = tcb_counter pr"
    "wakeupList pr' = wakeupList pr"
  shows "full_inv M (set_prog c pr' s)"
proof -
  let ?s = "set_prog c pr' s"
  note inv = full_invD [OF assms(1)]
  have "prog_listed s pr" using core_invD(5) [OF inv(1)] assms(2) by (simp add: lists_ok_def)
  then have "core_inv M ?s"
    using assms by (intro core_inv_set_prog [OF inv(1) assms(2)]) (auto simp: prog_listed_def)
  moreover have "waiters ?s r = waiters s r" for r using assms(2,7) by (cases r) auto
  then have "waiters ?s = waiters s" by (auto simp: fun_eq_iff)
  moreover have "in_state ?s = in_state s" by (rule sets_cong) simp
  moreover have "counters_ok ?s" "sems_ok ?s"
    using inv(3,5) assms(2,4,6,7) by (simp_all add: counters_ok_def sems_ok_def)
  moreover have "wakeup_ok ?s"
    using assms(3,7) by (intro wakeup_ok_set_prog [OF inv(4) assms(2)]) simp_all
  ultimately show ?thesis using inv(2) by (simp add: full_inv_def)
qed

text \<open>The thread at the head of \<open>newList\<close> becomes ready.\<close>

definition admitted :: "suse_env \<Rightarrow> ptr \<Rightarrow> suse \<Rightarrow> suse" where
  "admitted E p s = moved E p READY (s\<lparr>new_counter := new_counter s - 1\<rparr>)"

lemma admitted_ok:
  assumes "full_inv M s" "newList s = p # rest" "0 < available_multiprog s"
  obtains a where "tcbs s p = Some a" "tcb_state a = NEW"
    "move_tcb_to E p READY (s\<lparr>new_counter := new_counter s - 1\<rparr>) = Ret (admitted E p s)"
    "full_inv M (admitted E p s)"
proof -
  note inv = full_invD [OF assms(1)]
  note cinv = core_invD [OF inv(1)]
  obtain a where a: "tcbs s p = Some a" "tcb_state a = NEW"
    using state_mem(3) [OF inv(1), of p] assms(2) by auto
  define s1 where "s1 = s\<lparr>new_counter := new_counter s - 1\<rparr>"
  have sets: "in_state s1 = in_state s" "members s1 = members s" "active_set s1 = active_set s"
    by (rule sets_cong, simp add: s1_def)+
  have "waiters s1 r = waiters s r" for r by (cases r) (auto simp: s1_def)
  then have w1: "waiters s1 = waiters s" by (auto simp: fun_eq_iff)
  have c1: "core_inv M s1"
    using cinv sets by (simp add: core_inv_def heap_ok_def owned_def lists_ok_def listed_def
      prog_listed_def degree_ok_def s1_def)
  have a1: "tcbs s1 p = Some a" using a by (simp add: s1_def)
  have av: "0 < available_multiprog s1" using assms(3) by (simp add: s1_def)
  let ?s = "moved E p READY s1"
  have move: "move_tcb_to E p READY s1 = Ret ?s" using av by (intro move_refines [OF c1 a1]) simp
  have "core_inv M ?s" using av by (intro core_inv_moved [OF c1 a1]) auto
  moreover have "p \<notin> in_state s BLOCKED" using a by (simp add: in_state_def)
  then have "waits (in_state ?s BLOCKED) (waiters ?s)"
    using inv(2) a a1 by (simp add: in_state_moved waiters_moved sets w1)
  moreover have "counters_ok ?s"
  proof -
    have "new_counter ?s = length (newList ?s)"
      using inv(3) a assms(2) moved_sel(3) [OF a1, of READY E] moved_frame(5) [of E p READY s1]
      by (simp add: relist_def counters_ok_def s1_def)
    moreover have "tcb_counter pr' = length (ready pr') + length (wakeupList pr')"
      if pr': "progs ?s c = Some pr'" for c pr'
    proof -
      have "progs s1 c \<noteq> None" using pr' a by (auto simp: moved_sel(2) [OF a1])
      then obtain pr where pr: "progs s1 c = Some pr" by auto
      obtain pr'' where "progs ?s c = Some pr''" "wakeupList pr'' = wakeupList pr"
        by (rule moved_prog [OF pr])
      moreover have "tcb_counter pr = length (ready pr) + length (wakeupList pr)"
        using pr inv(3) by (simp add: counters_ok_def s1_def)
      ultimately show ?thesis using moved_slack [OF c1 a1 pr pr'] pr' by simp
    qed
    ultimately show ?thesis by (simp add: counters_ok_def)
  qed
  moreover have "wakeup_ok s1" using inv(4) by (simp add: wakeup_ok_def s1_def)
  then have "wakeup_ok ?s" by (rule wakeup_ok_moved [OF a1])
  moreover have "sems_ok ?s" using inv(5) by (simp add: sems_ok_def s1_def)
  ultimately have "full_inv M ?s" by (simp add: full_inv_def)
  with that a move show thesis by (simp add: admitted_def s1_def)
qed

text \<open>
  What a pass of the long-term scheduler does while there is a new thread: it waits as long as the
  degree of multiprogramming is exhausted, and otherwise admits the oldest new thread; for a main
  thread it also opens the mutex its program waits at.
\<close>

definition unlocked :: "ptr \<Rightarrow> suse \<Rightarrow> suse" where
  "unlocked c s = (case progs s c of None \<Rightarrow> s
     | Some pr \<Rightarrow> set_prog c (pr\<lparr>main_loaded_mutex := Unlocked\<rparr>) s)"

lemma full_inv_unlocked: "full_inv M s \<Longrightarrow> full_inv M (unlocked c s)"
  by (auto simp: unlocked_def full_inv_set_flags split: option.split)

lemma long_term_cases:
  assumes "full_inv M s" "\<not> endsuse s"
  obtains
    (idle) "newList s = []" "schedule_long_term E s = Hang"
  | (full) "newList s \<noteq> []" "available_multiprog s = 0" "schedule_long_term E s = Hang"
  | (admit) p rest a c pr where "newList s = p # rest" "0 < available_multiprog s"
      "tcbs s p = Some a" "tcb_state a = NEW" "full_inv M (admitted E p s)"
      "progs s c = Some pr" "prog_socket pr = tcb_socket a"
      "schedule_long_term E s =
         (if tid a \<noteq> 0 then Ret (True, admitted E p s)
          else if main_loaded_mutex pr = Destroyed then Fault
          else Ret (True, unlocked c (admitted E p s)))"
proof -
  note inv = full_invD [OF assms(1)]
  have nc: "new_counter s = length (newList s)" using inv(3) by (simp add: counters_ok_def)
  consider "newList s = []" | "newList s \<noteq> []" "available_multiprog s = 0"
    | p rest where "newList s = p # rest" "0 < available_multiprog s"
    by (cases "newList s") auto
  then show thesis
  proof cases
    case 1
    then show thesis using idle nc assms(2) by (simp add: schedule_long_term_def)
  next
    case 2
    then show thesis
      using full nc assms(2) by (simp add: schedule_long_term_def check_multiprog_def Let_def)
  next
    case (3 p rest)
    obtain a where a: "tcbs s p = Some a" "tcb_state a = NEW"
      "move_tcb_to E p READY (s\<lparr>new_counter := new_counter s - 1\<rparr>) = Ret (admitted E p s)"
      "full_inv M (admitted E p s)"
      by (rule admitted_ok [OF assms(1) 3])
    obtain c pr where c: "progs s c = Some pr" "prog_socket pr = tcb_socket a"
      by (rule owner [OF inv(1) a(1)])
    have a1: "tcbs (s\<lparr>new_counter := new_counter s - 1\<rparr>) p = Some a" using a(1) by simp
    obtain b where b: "tcbs (admitted E p s) p = Some b" "tid b = tid a" "tcb_socket b = tcb_socket a"
      using a(2) moved_sel(1) [OF a1, of READY E] by (auto simp: admitted_def)
    obtain pr' where pr': "progs (admitted E p s) c = Some pr'" "prog_socket pr' = prog_socket pr"
      "main_loaded_mutex pr' = main_loaded_mutex pr"
      using moved_prog [of "s\<lparr>new_counter := new_counter s - 1\<rparr>" c pr E p READY] c(1)
      by (auto simp: admitted_def)
    have g: "get_program (admitted E p s) (tcb_socket a) = Ret c"
      by (rule get_program_mem [OF core_invD(3) [OF full_invD(1) [OF a(4)]] pr'(1)])
        (simp add: pr'(2) c(2))
    have nn: "p \<noteq> NULL"
      using heap_ok_NULL(1) [OF core_invD(1) [OF inv(1)]] a(1) by (intro notI) simp
    have "schedule_long_term E s =
         (if tid a \<noteq> 0 then Ret (True, admitted E p s)
          else if main_loaded_mutex pr = Destroyed then Fault
          else Ret (True, unlocked c (admitted E p s)))"
      using 3 nc assms(2) nn a(3) b g pr'
      by (simp add: schedule_long_term_def check_multiprog_def Let_def get_new_tcb_def
        main_exec_signal_def unlocked_def)
    with admit 3 a c show thesis by blast
  qed
qed

text \<open>The main thread starts when it has been loaded and no other thread of its program runs.\<close>

lemma main_exec_ok:
  assumes "full_inv M s" "progs s c = Some pr" "main_loaded_mutex pr = Unlocked" "exec pr = NULL"
    "tcbs s p = Some a" "tcb_state a = READY" "tcb_socket a = prog_socket pr"
  obtains s' pr' where "main_exec E c p s = Ret s'" "full_inv M s'" "progs s' c = Some pr'"
    "main_loaded_mutex pr' = Destroyed" "exec pr' = p" "prog_socket pr' = prog_socket pr"
    "\<forall>d. d \<noteq> c \<longrightarrow> progs s' d = progs s d"
    "tcbs s' = tcbs (moved E p EXEC (set_prog c (pr\<lparr>main_loaded_mutex := Locked\<rparr>) s))"
    "newList s' = newList s"
proof -
  define s0 where "s0 = set_prog c (pr\<lparr>main_loaded_mutex := Locked\<rparr>) s"
  have f0: "full_inv M s0" unfolding s0_def by (rule full_inv_set_flags [OF assms(1,2)]) simp_all
  have a0: "tcbs s0 p = Some a" "progs s0 c = Some (pr\<lparr>main_loaded_mutex := Locked\<rparr>)"
    using assms(5) by (simp_all add: s0_def)
  have null: "exec dr = NULL" if "progs s0 d = Some dr" "prog_socket dr = tcb_socket a" for d dr
    using prog_unique [OF core_invD(3) [OF full_invD(1) [OF f0]] a0(2) that(1)] that(2) assms(4,7)
    by simp
  note mv = full_inv_moved_run [OF f0 a0(1), of EXEC E]
  let ?s1 = "moved E p EXEC s0"
  let ?pr1 = "reprog READY EXEC p (pr\<lparr>main_loaded_mutex := Locked\<rparr>)"
  have m: "move_tcb_to E p EXEC s0 = Ret ?s1" "full_inv M ?s1" using mv assms(6) null by auto
  have p1: "progs ?s1 = (progs s0)(c \<mapsto> ?pr1)"
    using moved_own_prog [OF full_invD(1) [OF f0] a0(1) _ a0(2), of EXEC E] assms(6,7) by simp
  let ?s2 = "set_prog c (?pr1\<lparr>main_loaded_mutex := Destroyed\<rparr>) ?s1"
  have "full_inv M ?s2" using p1 by (intro full_inv_set_flags [OF m(2), of c ?pr1]) simp_all
  moreover have "main_exec E c p s = Ret ?s2"
    using assms(2,3) m(1) p1 by (simp add: main_exec_def s0_def)
  moreover have "newList ?s1 = newList s"
    using assms(6) by (simp add: moved_sel(3) [OF a0(1)] relist_def) (simp add: s0_def)
  ultimately show thesis
    using that [of ?s2 "?pr1\<lparr>main_loaded_mutex := Destroyed\<rparr>"] p1
    by (simp add: s0_def reprog_def)
qed

section \<open>Main threads\<close>

text \<open>
  Until its main thread runs, a program has no other thread, and the mutex says how far the loading
  has come; afterwards the mutex is gone and the main thread is not new.
\<close>

definition load_ok :: "mutex \<Rightarrow> t_tcb \<Rightarrow> bool" where
  "load_ok m a \<longleftrightarrow> tid a = 0 \<and>
     (tcb_state a = NEW \<and> m = Locked \<or> tcb_state a = READY \<and> m = Unlocked)"

definition loading :: "suse \<Rightarrow> t_program \<Rightarrow> bool" where
  "loading s pr \<longleftrightarrow> exec pr = NULL \<and> (\<forall>p a. tcbs s p = Some a \<longrightarrow> tcb_socket a = prog_socket pr \<longrightarrow>
     load_ok (main_loaded_mutex pr) a)"

definition running :: "suse \<Rightarrow> t_program \<Rightarrow> bool" where
  "running s pr \<longleftrightarrow> main_loaded_mutex pr = Destroyed \<and> (\<forall>p a. tcbs s p = Some a \<longrightarrow>
     tcb_socket a = prog_socket pr \<longrightarrow> tid a = 0 \<longrightarrow> tcb_state a \<noteq> NEW)"

definition main_ok :: "suse \<Rightarrow> bool" where
  "main_ok s \<longleftrightarrow> (\<forall>c pr. progs s c = Some pr \<longrightarrow>
     (if main_loaded_mutex pr = Destroyed then running s pr else loading s pr))"

definition sys_inv :: "nat \<Rightarrow> suse \<Rightarrow> bool" where
  "sys_inv M s \<longleftrightarrow> full_inv M s \<and> main_ok s"

lemma evolves_back_prog:
  assumes "evolves sock s s'" "progs s' c = Some pr'"
  obtains pr where "progs s c = Some pr" "prog_socket pr' = prog_socket pr"
    "main_loaded_mutex pr' = main_loaded_mutex pr" "prog_socket pr \<noteq> sock \<longrightarrow> exec pr' = exec pr"
proof -
  have "progs s c \<noteq> None" using evolves_None(2) [OF assms(1), of c] assms(2) by simp
  then obtain pr where pr: "progs s c = Some pr" by auto
  obtain pr'' where "progs s' c = Some pr''" "prog_socket pr'' = prog_socket pr"
    "main_loaded_mutex pr'' = main_loaded_mutex pr" "prog_socket pr \<noteq> sock \<longrightarrow> exec pr'' = exec pr"
    by (rule evolves_prog [OF assms(1) pr]) blast
  with that [OF pr] assms(2) show thesis by simp
qed

lemma evolves_back_tcb:
  assumes "evolves sock s s'" "tcbs s' p = Some b"
  obtains a where "tcbs s p = Some a" "tid b = tid a" "tcb_socket b = tcb_socket a"
    "tcb_state a = NEW \<or> (tcb_state a = READY \<and> tcb_socket a \<noteq> sock) \<longrightarrow> tcb_state b = tcb_state a"
proof -
  have "tcbs s p \<noteq> None" using evolves_None(1) [OF assms(1), of p] assms(2) by simp
  then obtain a where a: "tcbs s p = Some a" by auto
  obtain b' where "tcbs s' p = Some b'" "tid b' = tid a" "tcb_socket b' = tcb_socket a"
    "tcb_state a = NEW \<or> (tcb_state a = READY \<and> tcb_socket a \<noteq> sock) \<longrightarrow> tcb_state b' = tcb_state a"
    by (rule evolves_tcb [OF assms(1) a])
  with that [OF a] assms(2) show thesis by simp
qed

lemma main_ok_evolves:
  assumes "sys_inv M s" "full_inv M s'" "progs s c = Some pr" "main_loaded_mutex pr = Destroyed"
    "evolves (prog_socket pr) s s'"
  shows "main_ok s'"
  unfolding main_ok_def
proof (intro allI impI)
  fix d dr'
  assume d': "progs s' d = Some dr'"
  have inv: "full_inv M s" "main_ok s" using assms(1) by (simp_all add: sys_inv_def)
  note core = full_invD(1) [OF inv(1)] and core' = full_invD(1) [OF assms(2)]
  obtain dr where d: "progs s d = Some dr" "prog_socket dr' = prog_socket dr"
    "main_loaded_mutex dr' = main_loaded_mutex dr"
    "prog_socket dr \<noteq> prog_socket pr \<longrightarrow> exec dr' = exec dr"
    by (rule evolves_back_prog [OF assms(5) d'])
  show "if main_loaded_mutex dr' = Destroyed then running s' dr' else loading s' dr'"
  proof (cases "main_loaded_mutex dr = Destroyed")
    case True
    then have r: "running s dr" using inv(2) d(1) by (auto simp: main_ok_def)
    have "tcb_state b \<noteq> NEW"
      if b: "tcbs s' p = Some b" "tcb_socket b = prog_socket dr'" "tid b = 0" for p b
    proof
      assume "tcb_state b = NEW"
      then have "p \<in> set (newList s)"
        using state_mem(3) [OF core'] b(1) assms(5) by (auto simp: evolves_def)
      then obtain a where a: "tcbs s p = Some a" "tcb_state a = NEW"
        using state_mem(3) [OF core] by blast
      moreover obtain a' where "tcbs s p = Some a'" "tid b = tid a'" "tcb_socket b = tcb_socket a'"
        by (rule evolves_back_tcb [OF assms(5) b(1)])
      ultimately show False using r b d(2) by (auto simp: running_def)
    qed
    with True d(3) show ?thesis by (auto simp: running_def)
  next
    case False
    then have l: "loading s dr" using inv(2) d(1) by (auto simp: main_ok_def)
    have ne: "prog_socket dr \<noteq> prog_socket pr"
      using prog_unique [OF core_invD(3) [OF core] assms(3) d(1)] assms(4) False by auto
    have "tid b = 0 \<and> (tcb_state b = NEW \<and> main_loaded_mutex dr' = Locked \<or>
        tcb_state b = READY \<and> main_loaded_mutex dr' = Unlocked)"
      if b: "tcbs s' p = Some b" "tcb_socket b = prog_socket dr'" for p b
    proof -
      obtain a where a: "tcbs s p = Some a" "tid b = tid a" "tcb_socket b = tcb_socket a"
        "tcb_state a = NEW \<or> (tcb_state a = READY \<and> tcb_socket a \<noteq> prog_socket pr) \<longrightarrow>
           tcb_state b = tcb_state a"
        by (rule evolves_back_tcb [OF assms(5) b(1)])
      then have "tid a = 0 \<and> (tcb_state a = NEW \<and> main_loaded_mutex dr = Locked \<or>
          tcb_state a = READY \<and> main_loaded_mutex dr = Unlocked)"
        using l b(2) d(2) by (simp add: loading_def load_ok_def)
      with a b(2) d(2,3) ne show ?thesis by auto
    qed
    moreover have "exec dr' = NULL" using l d(4) ne by (simp add: loading_def load_ok_def)
    ultimately show ?thesis using False d(3) by (simp add: loading_def load_ok_def)
  qed
qed

section \<open>The handlers as an interface\<close>

text \<open>
  What the loop of \<open>schedule_short_term\<close> asks of a handler: when it returns, the invariant still
  holds and the other programs are as they were.
\<close>

locale program_handler =
  fixes M :: nat and E :: suse_env and handler :: "ptr \<Rightarrow> suse \<Rightarrow> suse outcome"
  assumes keeps: "handler c s = Ret s' \<Longrightarrow> full_inv M s \<Longrightarrow> progs s c = Some pr \<Longrightarrow>
    full_inv M s' \<and> evolves (prog_socket pr) s s'"
begin

lemma sys_inv:
  assumes "handler c s = Ret s'" "sys_inv M s" "progs s c = Some pr"
    "main_loaded_mutex pr = Destroyed"
  shows "sys_inv M s'"
proof -
  have "full_inv M s'" "evolves (prog_socket pr) s s'"
    using keeps [OF assms(1) _ assms(3)] assms(2) by (simp_all add: sys_inv_def)
  then show ?thesis using main_ok_evolves [OF assms(2) _ assms(3,4)] by (simp add: sys_inv_def)
qed

lemma composed:
  assumes "handler c s = Ret s1" "full_inv M s" "progs s c = Some pr"
    "program_handler M h'" "h' c s1 = Ret s'"
  shows "full_inv M s' \<and> evolves (prog_socket pr) s s'"
proof -
  have k: "full_inv M s1" "evolves (prog_socket pr) s s1" using keeps [OF assms(1-3)] by simp_all
  obtain pr1 where "progs s1 c = Some pr1" "prog_socket pr1 = prog_socket pr"
    by (rule evolves_prog [OF k(2) assms(3)])
  with program_handler.keeps [OF assms(4,5) k(1)] evolves_trans [OF k(2)] show ?thesis by metis
qed

end

interpretation scheduling: program_handler M E "schedule_next_for n E" for M E n
  by unfold_locales (use schedule_next_inv in blast)

interpretation joining: program_handler M E "\<lambda>c. suse_join n (\<lambda>_ s. s) E t c" for M E n t
  by unfold_locales (use suse_join_inv in blast)

lemma wait_keeps:
  assumes "suse_wait E t name c s = Ret s'" "full_inv M s" "progs s c = Some pr"
  shows "full_inv M s' \<and> evolves (prog_socket pr) s s'"
proof -
  obtain e where e: "tcbs s (exec pr) = Some e"
    using assms(1,3) by (auto simp: suse_wait_def obind_Ret_iff)
  show ?thesis
  proof (cases "tid e = t")
    case False
    with assms e show ?thesis by (simp add: suse_wait_def)
  next
    case True
    with assms(1,3) e obtain m x where m: "get_semaforo s name = Ret m" "sems s m = Some x"
      by (auto simp: suse_wait_def obind_Ret_iff)
    then have "m \<noteq> NULL"
      using heap_ok_NULL(3) [OF core_invD(1) [OF full_invD(1) [OF assms(2)]]] by (intro notI) simp
    with suse_wait_ok [OF assms(2,3) e True m(1) _ m(2), of E] assms(1) show ?thesis by simp
  qed
qed

interpretation waiting: program_handler M E "suse_wait E t name" for M E t name
  by unfold_locales (use wait_keeps in blast)

lemma signal_keeps:
  assumes "suse_signal t name c s = Ret s'" "full_inv M s" "progs s c = Some pr"
  shows "full_inv M s' \<and> evolves (prog_socket pr) s s'"
proof -
  obtain e where e: "tcbs s (exec pr) = Some e"
    using assms(1,3) by (auto simp: suse_signal_def obind_Ret_iff)
  show ?thesis
  proof (cases "tid e = t")
    case False
    with assms e show ?thesis by (simp add: suse_signal_def)
  next
    case True
    with assms(1,3) e obtain m x where m: "get_semaforo s name = Ret m" "sems s m = Some x"
      by (auto simp: suse_signal_def obind_Ret_iff)
    obtain s'' where "suse_signal t name c s = Ret s''" "full_inv M s''"
      "evolves (prog_socket pr) s s''"
      by (rule suse_signal_ok [OF assms(2,3) e True m])
    with assms(1) show ?thesis by simp
  qed
qed

interpretation signalling: program_handler M E "suse_signal t name" for M E t name
  by unfold_locales (use signal_keeps in blast)

lemma close_keeps:
  assumes "suse_close E t c s = Ret s'" "full_inv M s" "progs s c = Some pr"
  shows "full_inv M s' \<and> evolves (prog_socket pr) s s'"
proof -
  obtain e where e: "tcbs s (exec pr) = Some e"
    using assms(1,3) by (auto simp: suse_close_def obind_Ret_iff)
  show ?thesis
  proof (cases "tid e = t")
    case False
    with assms e show ?thesis by (simp add: suse_close_def)
  next
    case True
    obtain s'' where "suse_close E t c s = Ret s''" "full_inv M s''" "evolves (prog_socket pr) s s''"
      by (rule suse_close_ok [OF assms(2,3) e True])
    with assms(1) show ?thesis by simp
  qed
qed

interpretation closing: program_handler M E "suse_close E t" for M E t
  by unfold_locales (use close_keeps in blast)

lemma after_keeps:
  assumes "after_request E c s = Ret s'" "full_inv M s" "progs s c = Some pr"
  shows "full_inv M s' \<and> evolves (prog_socket pr) s s'"
proof -
  obtain s1 where s1: "wakeup_threads E c s = Ret (wakeupList pr \<noteq> [], s1)" "full_inv M s1"
    "evolves (prog_socket pr) s s1" "progs s1 = (progs s)(c \<mapsto>
      pr\<lparr>wakeupList := odds (wakeupList pr), ready := ready pr @ evens (wakeupList pr)\<rparr>)"
    by (rule wakeup_threads_ok [OF assms(2,3)])
  let ?pr1 = "pr\<lparr>wakeupList := odds (wakeupList pr), ready := ready pr @ evens (wakeupList pr)\<rparr>"
  have p1: "progs s1 c = Some ?pr1" by (simp add: s1(4))
  have "s' = s1 \<or> s' = set_prog c (?pr1\<lparr>prog_close := True\<rparr>) s1"
    using assms(1) s1(1) p1 by (auto simp: after_request_def split: if_splits)
  then show ?thesis
  proof
    assume s': "s' = set_prog c (?pr1\<lparr>prog_close := True\<rparr>) s1"
    have "full_inv M s'" unfolding s' by (rule full_inv_set_flags [OF s1(2) p1]) simp_all
    moreover have "evolves (prog_socket pr) s1 s'"
      unfolding s' by (rule evolves_set_prog [OF p1]) simp_all
    ultimately show ?thesis using evolves_trans [OF s1(3)] by blast
  qed (use s1 in simp)
qed

interpretation after: program_handler M E "after_request E" for M E
  by unfold_locales (use after_keeps in blast)

lemma handle_keeps:
  assumes "handle n E c req s = Ret s'" "\<forall>t. req \<noteq> Create t" "full_inv M s" "progs s c = Some pr"
  shows "full_inv M s' \<and> evolves (prog_socket pr) s s'"
proof (cases req)
  case ScheduleNext
  with assms show ?thesis
    using scheduling.keeps [of n E c s s' M pr] by (simp add: handle_def)
next
  case (Wait t sem)
  with assms show ?thesis using waiting.keeps [of E t sem c s s' M pr] by (simp add: handle_def)
next
  case (Signal t sem)
  with assms show ?thesis using signalling.keeps [of t sem c s s' M pr] by (simp add: handle_def)
next
  case (Join t)
  with assms show ?thesis using joining.keeps [of n E t c s s' M pr] by (simp add: handle_def)
next
  case (Close t)
  with assms show ?thesis using closing.keeps [of E t c s s' M pr] by (simp add: handle_def)
next
  case Disconnected
  with assms(1,4) have s': "s' = set_prog c (pr\<lparr>prog_close := True\<rparr>) s" by (simp add: handle_def)
  have "full_inv M s'" unfolding s' by (rule full_inv_set_flags [OF assms(3,4)]) simp_all
  moreover have "evolves (prog_socket pr) s s'"
    unfolding s' by (rule evolves_set_prog [OF assms(4)]) simp_all
  ultimately show ?thesis by blast
qed (use assms in \<open>simp_all add: handle_def\<close>)

section \<open>The transition system\<close>

inductive sys_step :: "suse_env \<Rightarrow> suse \<Rightarrow> suse \<Rightarrow> bool" for E where
  connect: "wait_for_client E cliente s = Ret s' \<Longrightarrow> sys_step E s s'"
| create_main:
    "progs s c = Some pr \<Longrightarrow> main_loaded_mutex pr = Locked \<Longrightarrow>
     \<forall>p a. tcbs s p = Some a \<longrightarrow> tcb_socket a \<noteq> prog_socket pr \<Longrightarrow>
     create_tcb E (prog_socket pr) 0 s = Ret (p, s') \<Longrightarrow> p \<noteq> NULL \<Longrightarrow> sys_step E s s'"
| run_main:
    "progs s c = Some pr \<Longrightarrow> tcbs s p = Some a \<Longrightarrow> tid a = 0 \<Longrightarrow> tcb_socket a = prog_socket pr \<Longrightarrow>
     main_exec E c p s = Ret s1 \<Longrightarrow> after_request E c s1 = Ret s' \<Longrightarrow> sys_step E s s'"
| create:
    "progs s c = Some pr \<Longrightarrow> main_loaded_mutex pr = Destroyed \<Longrightarrow> t \<noteq> 0 \<Longrightarrow>
     fresh_key s t (prog_socket pr) \<Longrightarrow> handle n E c (Create t) s = Ret s1 \<Longrightarrow>
     after_request E c s1 = Ret s' \<Longrightarrow> sys_step E s s'"
| request:
    "progs s c = Some pr \<Longrightarrow> main_loaded_mutex pr = Destroyed \<Longrightarrow> \<forall>t. req \<noteq> Create t \<Longrightarrow>
     handle n E c req s = Ret s1 \<Longrightarrow> after_request E c s1 = Ret s' \<Longrightarrow> sys_step E s s'"
| wake:
    "progs s c = Some pr \<Longrightarrow> main_loaded_mutex pr = Destroyed \<Longrightarrow>
     wakeup_threads E c s = Ret (b, s') \<Longrightarrow> sys_step E s s'"
| long_term: "schedule_long_term E s = Ret (go, s') \<Longrightarrow> sys_step E s s'"
| metrics: "log_metrics_all (tod E) s = Ret s' \<Longrightarrow> sys_step E s s'"
| shutdown: "sys_step E s (s\<lparr>endsuse := True\<rparr>)"

inductive reach :: "suse_env \<Rightarrow> nat \<Rightarrow> t_config_semaforo list \<Rightarrow> suse \<Rightarrow> bool" for E M cfs where
  init: "init_suse E (int M) cfs = Ret s \<Longrightarrow> reach E M cfs s"
| step: "reach E M cfs s \<Longrightarrow> sys_step E s s' \<Longrightarrow> reach E M cfs s'"

text \<open>The configuration: semaphores with a maximum of at least one, and memory to create them.\<close>

definition config_ok :: "suse_env \<Rightarrow> t_config_semaforo list \<Rightarrow> bool" where
  "config_ok E cfs \<longleftrightarrow> (\<forall>cf \<in> set cfs. 0 \<le> conf_init cf \<and> conf_init cf \<le> conf_max cf \<and>
     1 \<le> conf_max cf) \<and> (\<forall>k < length cfs. \<not> oom E k)"

section \<open>The initial state\<close>

lemma full_inv_boot: "full_inv M (boot\<lparr>available_multiprog := M\<rparr>)"
proof -
  have "waits {} (waiters (boot\<lparr>available_multiprog := M\<rparr>))"
    unfolding waits_def
  proof (intro conjI allI impI)
    have "waiters (boot\<lparr>available_multiprog := M\<rparr>) r = []" for r
      by (cases r) (simp_all add: boot_def)
    then show "distinct (waiters (boot\<lparr>available_multiprog := M\<rparr>) r)"
      "set (waiters (boot\<lparr>available_multiprog := M\<rparr>) r) \<inter>
        set (waiters (boot\<lparr>available_multiprog := M\<rparr>) r') = {}"
      "(\<Union>r. set (waiters (boot\<lparr>available_multiprog := M\<rparr>) r)) = {}" for r r' by simp_all
  qed
  then show ?thesis
    by (simp add: full_inv_def core_inv_def heap_ok_def keys_ok_def progs_ok_def owned_def
      lists_ok_def listed_def degree_ok_def in_state_def active_set_def counters_ok_def
      wakeup_ok_def sems_ok_def boot_def)
qed

lemma add_sem_ok:
  assumes "full_inv M s" "sems s m = None" "0 < m" "m \<le> mallocs s" "sem_ok x" "blocked x = []"
  shows "full_inv M (s\<lparr>sems := (sems s)(m \<mapsto> x), semaforos := semaforos s @ [m]\<rparr>)"
proof -
  let ?s = "s\<lparr>sems := (sems s)(m \<mapsto> x), semaforos := semaforos s @ [m]\<rparr>"
  note inv = full_invD [OF assms(1)]
  note cinv = core_invD [OF inv(1)]
  have sets: "in_state ?s = in_state s" "members ?s = members s" "active_set ?s = active_set s"
    by (rule sets_cong, simp)+
  have "waiters ?s r = waiters s r" for r using assms(2,6) by (cases r) auto
  then have w: "waiters ?s = waiters s" by (auto simp: fun_eq_iff)
  have "core_inv M ?s"
    using cinv assms(3,4)
    by (auto simp: core_inv_def heap_ok_def owned_def lists_ok_def listed_def prog_listed_def
      degree_ok_def sets)
  moreover have "sems_ok ?s" using inv(5) assms(5) by (auto simp: sems_ok_def)
  ultimately show ?thesis
    using inv by (simp add: full_inv_def counters_ok_def wakeup_ok_def sets w)
qed

lemma init_semaforos_ok:
  assumes "full_inv M s" "\<forall>cf \<in> set cfs. 0 \<le> conf_init cf \<and> conf_init cf \<le> conf_max cf \<and>
    1 \<le> conf_max cf" "\<forall>k < length cfs. \<not> oom E (mallocs s + k)"
  shows "full_inv M (init_semaforos_from E cfs s) \<and> progs (init_semaforos_from E cfs s) = progs s \<and>
    clientes (init_semaforos_from E cfs s) = clientes s"
  using assms
proof (induction cfs arbitrary: s)
  case (Cons cf cfs)
  define m where "m = Suc (mallocs s)"
  define x where "x = \<lparr>sem_id = conf_id cf, valor = conf_init cf, max_value = conf_max cf, blocked = []\<rparr>"
  define s1 where "s1 = s\<lparr>mallocs := m\<rparr>"
  define s2 where "s2 = s1\<lparr>sems := (sems s1)(m \<mapsto> x), semaforos := semaforos s1 @ [m]\<rparr>"
  have "\<not> oom E (mallocs s)" using Cons.prems(3) by fastforce
  then have eq: "init_semaforos_from E (cf # cfs) s = init_semaforos_from E cfs s2"
    by (simp add: create_semaforo_def alloc_def s2_def s1_def m_def x_def)
  have "full_inv M s1" unfolding s1_def by (rule full_inv_mallocs [OF Cons.prems(1)]) (simp add: m_def)
  then have "full_inv M s2"
    unfolding s2_def using Cons.prems(2) heap_fresh(3) [OF full_invD(1) [OF Cons.prems(1)], of m]
    by (intro add_sem_ok) (simp_all add: s1_def m_def x_def sem_ok_def)
  moreover have "\<forall>k < length cfs. \<not> oom E (mallocs s2 + k)"
    using Cons.prems(3) by (fastforce simp: s2_def s1_def m_def)
  ultimately have "full_inv M (init_semaforos_from E cfs s2) \<and>
      progs (init_semaforos_from E cfs s2) = progs s2 \<and>
      clientes (init_semaforos_from E cfs s2) = clientes s2"
    using Cons.prems(2) by (intro Cons.IH) simp_all
  then show ?case unfolding eq by (simp add: s2_def s1_def)
qed simp

lemma init_sys_inv:
  assumes "init_suse E (int M) cfs = Ret s" "config_ok E cfs"
  shows "sys_inv M s"
proof -
  let ?b = "boot\<lparr>available_multiprog := M\<rparr>"
  have "boot\<lparr>program_id_counter := 0, multiprog_degree := 0, newList := [], blockedList := [],
      exitList := [], new_counter := 0, available_multiprog := M, semaforos := []\<rparr> = ?b"
    by (simp add: boot_def)
  then have s: "s = (init_semaforos_from E cfs ?b)\<lparr>clientes := []\<rparr>"
    using assms(1) by (simp add: init_suse_def init_scheduler_def init_semaforos_def)
  have i: "full_inv M (init_semaforos_from E cfs ?b)" "progs (init_semaforos_from E cfs ?b) = progs ?b"
    "clientes (init_semaforos_from E cfs ?b) = clientes ?b"
    using init_semaforos_ok [OF full_inv_boot [of M], of cfs E] assms(2)
    by (simp_all add: config_ok_def boot_def)
  have "(init_semaforos_from E cfs ?b)\<lparr>clientes := []\<rparr> = init_semaforos_from E cfs ?b"
    using i(3) by (intro suse.equality) (simp_all add: boot_def)
  then show ?thesis
    using i(1,2) by (simp add: sys_inv_def s main_ok_def boot_def)
qed

section \<open>Every step keeps the invariant\<close>

lemma main_ok_cong: "tcbs s' = tcbs s \<Longrightarrow> progs s' = progs s \<Longrightarrow> main_ok s' = main_ok s"
  by (simp add: main_ok_def running_def loading_def)

lemma full_inv_endsuse: "full_inv M (s\<lparr>endsuse := b\<rparr>) = full_inv M s"
proof -
  let ?s = "s\<lparr>endsuse := b\<rparr>"
  have sets: "in_state ?s = in_state s" "members ?s = members s" "active_set ?s = active_set s"
    by (rule sets_cong, simp)+
  have "waiters ?s r = waiters s r" for r by (cases r) auto
  then have "waiters ?s = waiters s" by (auto simp: fun_eq_iff)
  then show ?thesis
    by (simp add: full_inv_def core_inv_def heap_ok_def owned_def lists_ok_def listed_def
      prog_listed_def degree_ok_def counters_ok_def wakeup_ok_def sems_ok_def sets)
qed

lemma create_main_keeps:
  assumes "sys_inv M s" "progs s c = Some pr" "main_loaded_mutex pr = Locked"
    "\<forall>p a. tcbs s p = Some a \<longrightarrow> tcb_socket a \<noteq> prog_socket pr"
    "create_tcb E (prog_socket pr) 0 s = Ret (p, s')" "p \<noteq> NULL"
  shows "sys_inv M s'"
proof -
  have inv: "full_inv M s" "main_ok s" using assms(1) by (simp_all add: sys_inv_def)
  have "fresh_key s 0 (prog_socket pr)" using assms(4) by (auto simp: fresh_key_def)
  then show ?thesis
  proof (cases rule: create_tcb_ok [OF inv(1) assms(2) refl, of 0 E, consumes 1])
    case (3 a s'')
    then have s': "s' = s''" using assms(5) by simp
    have "main_ok s'"
      unfolding main_ok_def s'
    proof (intro allI impI)
      fix d dr
      assume "progs s'' d = Some dr"
      then have d: "progs s d = Some dr" using 3(8) by simp
      have old: "if main_loaded_mutex dr = Destroyed then running s dr else loading s dr"
        using inv(2) d by (simp add: main_ok_def)
      show "if main_loaded_mutex dr = Destroyed then running s'' dr else loading s'' dr"
      proof (cases "prog_socket dr = prog_socket pr")
        case True
        then have "dr = pr"
          using prog_unique [OF core_invD(3) [OF full_invD(1) [OF inv(1)]] assms(2) d] by simp
        with old assms(3,4) 3(2-4,7) show ?thesis by (auto simp: loading_def load_ok_def)
      next
        case False
        with old 3(3,7) show ?thesis by (auto simp: loading_def running_def)
      qed
    qed
    with 3(6) s' show ?thesis by (simp add: sys_inv_def)
  qed (use assms(5,6) in simp_all)
qed

lemma create_keeps:
  assumes "sys_inv M s" "progs s c = Some pr" "main_loaded_mutex pr = Destroyed" "t \<noteq> 0"
    "fresh_key s t (prog_socket pr)" "create_tcb E (prog_socket pr) t s = Ret (p, s')"
  shows "sys_inv M s' \<and> progs s' = progs s"
proof -
  have inv: "full_inv M s" "main_ok s" using assms(1) by (simp_all add: sys_inv_def)
  from assms(5) show ?thesis
  proof (cases rule: create_tcb_ok [OF inv(1) assms(2) refl, of t E, consumes 1])
    case 1
    then have s': "s' = s\<lparr>mallocs := Suc (mallocs s)\<rparr>" using assms(6) by simp
    have "full_inv M s'" unfolding s' by (rule full_inv_mallocs [OF inv(1)]) simp
    with inv(2) main_ok_cong [of s' s] show ?thesis by (simp add: sys_inv_def s')
  next
    case 2
    with assms(6) show ?thesis by simp
  next
    case (3 a s'')
    then have s': "s' = s''" using assms(6) by simp
    have "main_ok s'"
      unfolding main_ok_def s'
    proof (intro allI impI)
      fix d dr
      assume "progs s'' d = Some dr"
      then have d: "progs s d = Some dr" using 3(8) by simp
      have old: "if main_loaded_mutex dr = Destroyed then running s dr else loading s dr"
        using inv(2) d by (simp add: main_ok_def)
      show "if main_loaded_mutex dr = Destroyed then running s'' dr else loading s'' dr"
      proof (cases "prog_socket dr = prog_socket pr")
        case True
        then have "dr = pr"
          using prog_unique [OF core_invD(3) [OF full_invD(1) [OF inv(1)]] assms(2) d] by simp
        with old 3(2,3,7) assms(3,4) show ?thesis by (auto simp: running_def)
      next
        case False
        with old 3(3,7) show ?thesis by (auto simp: loading_def running_def)
      qed
    qed
    with 3(6,8) s' show ?thesis by (simp add: sys_inv_def)
  qed
qed

lemma run_main_keeps:
  assumes "sys_inv M s" "progs s c = Some pr" "tcbs s p = Some a" "tid a = 0"
    "tcb_socket a = prog_socket pr" "main_exec E c p s = Ret s'"
  shows "sys_inv M s' \<and> (\<exists>pr'. progs s' c = Some pr' \<and> main_loaded_mutex pr' = Destroyed)"
proof -
  have inv: "full_inv M s" "main_ok s" using assms(1) by (simp_all add: sys_inv_def)
  have mu: "main_loaded_mutex pr = Unlocked"
    using assms(2,6) by (cases "main_loaded_mutex pr") (simp_all add: main_exec_def)
  then have l: "loading s pr" using inv(2) assms(2) by (auto simp: main_ok_def)
  then have ex: "exec pr = NULL" and st: "tcb_state a = READY"
    using assms(3,5) mu by (auto simp: loading_def load_ok_def)
  obtain s'' pr' where m: "main_exec E c p s = Ret s''" "full_inv M s''" "progs s'' c = Some pr'"
    "main_loaded_mutex pr' = Destroyed" "exec pr' = p" "prog_socket pr' = prog_socket pr"
    "\<forall>d. d \<noteq> c \<longrightarrow> progs s'' d = progs s d"
    "tcbs s'' = tcbs (moved E p EXEC (set_prog c (pr\<lparr>main_loaded_mutex := Locked\<rparr>) s))"
    by (rule main_exec_ok [where E = E, OF inv(1) assms(2) mu ex assms(3) st assms(5)])
  have s': "s' = s''" using assms(6) m(1) by simp
  obtain b where tcbs: "tcbs s'' = (tcbs s)(p \<mapsto> a\<lparr>tcb_time := b, tcb_state := EXEC\<rparr>)"
    using moved_tcb [of "set_prog c (pr\<lparr>main_loaded_mutex := Locked\<rparr>) s" p a E EXEC] assms(3) m(8)
    by auto
  have "main_ok s''"
    unfolding main_ok_def
  proof (intro allI impI)
    fix d dr
    assume d: "progs s'' d = Some dr"
    show "if main_loaded_mutex dr = Destroyed then running s'' dr else loading s'' dr"
    proof (cases "d = c")
      case True
      with d m(3) have dr: "dr = pr'" by simp
      have "tcb_state x \<noteq> NEW"
        if x: "tcbs s'' q = Some x" "tcb_socket x = prog_socket pr" "tid x = 0" for q x
      proof (cases "q = p")
        case True
        with x tcbs show ?thesis by auto
      next
        case False
        with x tcbs l mu show ?thesis by (auto simp: loading_def load_ok_def)
      qed
      then show ?thesis by (simp add: dr m(4,6) running_def)
    next
      case False
      then have d0: "progs s d = Some dr" using d m(7) by simp
      have ne: "prog_socket dr \<noteq> prog_socket pr"
        using prog_unique [OF core_invD(3) [OF full_invD(1) [OF inv(1)]] assms(2) d0] False by auto
      have "if main_loaded_mutex dr = Destroyed then running s dr else loading s dr"
        using inv(2) d0 by (simp add: main_ok_def)
      with ne assms(5) show ?thesis by (auto simp: running_def loading_def tcbs)
    qed
  qed
  with m s' show ?thesis by (auto simp: sys_inv_def)
qed

lemma long_term_keeps:
  assumes "sys_inv M s" "schedule_long_term E s = Ret (go, s')"
  shows "sys_inv M s'"
proof (cases "endsuse s")
  case True
  with assms show ?thesis by (simp add: schedule_long_term_def)
next
  case False
  have inv: "full_inv M s" "main_ok s" using assms(1) by (simp_all add: sys_inv_def)
  note pu = prog_unique [OF core_invD(3) [OF full_invD(1) [OF inv(1)]]]
  from inv(1) False show ?thesis
  proof (cases rule: long_term_cases [where E = E])
    case (admit p rest a c pr)
    let ?s1 = "s\<lparr>new_counter := new_counter s - 1\<rparr>"
    have a1: "tcbs ?s1 p = Some a" using admit(3) by simp
    have adm: "admitted E p s = moved E p READY ?s1" by (simp add: admitted_def)
    obtain b where tcbs: "tcbs (admitted E p s) = (tcbs s)(p \<mapsto> a\<lparr>tcb_time := b, tcb_state := READY\<rparr>)"
      using moved_tcb [OF a1, of E READY] by (auto simp: adm)
    have progs: "\<exists>dr. progs s d = Some dr \<and> prog_socket dr' = prog_socket dr \<and>
        main_loaded_mutex dr' = main_loaded_mutex dr \<and> exec dr' = exec dr"
      if "progs (admitted E p s) d = Some dr'" for d dr'
      using that admit(4) moved_sel(2) [OF a1, of READY E d]
      by (cases "progs s d") (auto simp: adm reprog_def)
    have old: "if main_loaded_mutex pr = Destroyed then running s pr else loading s pr"
      using inv(2) admit(6) by (simp add: main_ok_def)
    define s'' where "s'' = (if tid a = 0 then unlocked c (admitted E p s) else admitted E p s)"
    have la: "main_loaded_mutex pr \<noteq> Destroyed \<Longrightarrow> load_ok (main_loaded_mutex pr) a"
      using old admit(3,7) by (simp add: loading_def)
    have ra: "main_loaded_mutex pr = Destroyed \<Longrightarrow> tid a \<noteq> 0"
      using old admit(3,4,7) by (auto simp: running_def)
    have mu: "tid a = 0 \<Longrightarrow> main_loaded_mutex pr = Locked" "tid a \<noteq> 0 \<Longrightarrow> main_loaded_mutex pr = Destroyed"
      using la ra admit(4) by (auto simp: load_ok_def)
    have s': "s' = s''" using assms(2) admit(8) mu by (auto simp: s''_def split: if_splits)
    have t: "tcbs s'' = tcbs (admitted E p s)"
      by (simp add: s''_def unlocked_def split: option.split)
    have "main_ok s''"
      unfolding main_ok_def
    proof (intro allI impI)
      fix d dr'
      assume d': "progs s'' d = Some dr'"
      have "\<exists>dr. progs s d = Some dr \<and> prog_socket dr' = prog_socket dr \<and> exec dr' = exec dr \<and>
          main_loaded_mutex dr' = (if tid a = 0 \<and> d = c then Unlocked else main_loaded_mutex dr)"
      proof (cases "tid a = 0 \<and> d = c")
        case True
        obtain qr where qr: "progs (admitted E p s) c = Some qr"
          using d' True by (auto simp: s''_def unlocked_def split: option.splits)
        with d' True have "dr' = qr\<lparr>main_loaded_mutex := Unlocked\<rparr>"
          by (simp add: s''_def unlocked_def)
        with progs [OF qr] True show ?thesis by auto
      next
        case False
        then have "progs (admitted E p s) d = Some dr'"
          using d' by (auto simp: s''_def unlocked_def split: if_splits option.splits)
        from progs [OF this] False show ?thesis by auto
      qed
      then obtain dr where dr: "progs s d = Some dr" "prog_socket dr' = prog_socket dr"
        "exec dr' = exec dr"
        "main_loaded_mutex dr' = (if tid a = 0 \<and> d = c then Unlocked else main_loaded_mutex dr)"
        by blast
      have od: "if main_loaded_mutex dr = Destroyed then running s dr else loading s dr"
        using inv(2) dr(1) by (simp add: main_ok_def)
      show "if main_loaded_mutex dr' = Destroyed then running s'' dr' else loading s'' dr'"
      proof (cases "d = c")
        case False
        then have "prog_socket dr \<noteq> prog_socket pr" using pu [OF admit(6) dr(1)] by auto
        with od dr False admit(7) show ?thesis
          by (auto simp: running_def loading_def t tcbs)
      next
        case True
        with dr(1) admit(6) have e: "dr = pr" by simp
        show ?thesis
        proof (cases "tid a = 0")
          case False
          with True od dr e mu(2) show ?thesis by (auto simp: running_def t tcbs)
        next
          case tid0: True
          have only: "q = p" if "tcbs s q = Some x" "tcb_socket x = prog_socket pr" for q x
          proof -
            have "tid x = 0" using od e mu(1) [OF tid0] that by (auto simp: loading_def load_ok_def)
            then show ?thesis
              using core_invD(2) [OF full_invD(1) [OF inv(1)]] that admit(3,7) tid0
              unfolding keys_ok_def by metis
          qed
          with True od dr e mu(1) [OF tid0] tid0 show ?thesis
            by (auto simp: loading_def load_ok_def t tcbs)
        qed
      qed
    qed
    moreover have "full_inv M s''"
      using admit(5) full_inv_unlocked by (simp add: s''_def)
    ultimately show ?thesis using s' by (simp add: sys_inv_def)
  qed (use assms(2) in simp_all)
qed

lemma connect_keeps:
  assumes "sys_inv M s" "wait_for_client E cliente s = Ret s'"
  shows "sys_inv M s'"
proof -
  have inv: "full_inv M s" "main_ok s" using assms(1) by (simp_all add: sys_inv_def)
  show ?thesis
  proof (cases "cliente > 0 \<and> is_program_loaded s cliente = Ret False")
    case False
    have "s' = s"
      using assms(2) False by (auto simp: wait_for_client_def obind_Ret_iff split: if_splits)
    with assms(1) show ?thesis by simp
  next
    case True
    then have s': "s' = snd (create_program E cliente s)"
      using assms(2) by (simp add: wait_for_client_def)
    show ?thesis
    proof (cases rule: create_program_ok [OF inv(1), of cliente E])
      case 2
      then have "full_inv M s'" using s' full_inv_mallocs [OF inv(1)] by simp
      with inv(2) main_ok_cong [of s' s] s' 2 show ?thesis by (simp add: sys_inv_def)
    next
      case (3 pr s'')
      have nothr: "tcb_socket a \<noteq> cliente" if "tcbs s p = Some a" for p a
        using owner [OF full_invD(1) [OF inv(1)] that] 3(10) by metis
      have "main_ok s''"
        unfolding main_ok_def
      proof (intro allI impI)
        fix d dr
        assume d: "progs s'' d = Some dr"
        have "loading s'' pr" using nothr 3(4,5,8) by (auto simp: loading_def)
        moreover have "running s'' dr = running s dr" "loading s'' dr = loading s dr"
          using 3(8) by (simp_all add: running_def loading_def)
        moreover have "dr = pr \<or> progs s d = Some dr" using d 3(3) by (auto split: if_splits)
        ultimately show "if main_loaded_mutex dr = Destroyed then running s'' dr else loading s'' dr"
          using inv(2) 3(7) unfolding main_ok_def by auto
      qed
      with 3 s' show ?thesis by (simp add: sys_inv_def)
    qed (use True in simp)
  qed
qed

lemma sys_step_inv:
  assumes "sys_step E s s'" "sys_inv M s"
  shows "sys_inv M s'"
  using assms
proof cases
  case (connect cliente)
  then show ?thesis using connect_keeps [OF assms(2)] by blast
next
  case (create_main c pr p)
  then show ?thesis using create_main_keeps [OF assms(2)] by blast
next
  case (run_main c pr p a s1)
  with run_main_keeps [OF assms(2), of c pr p a E s1] obtain pr' where
    "sys_inv M s1" "progs s1 c = Some pr'" "main_loaded_mutex pr' = Destroyed" by blast
  with after.sys_inv [of E c s1 s' M pr'] run_main show ?thesis by blast
next
  case (create c pr t n s1)
  then obtain p where "create_tcb E (prog_socket pr) t s = Ret (p, s1)"
    by (auto simp: handle_def obind_Ret_iff)
  with create_keeps [OF assms(2) create(1-4), of E p s1] have "sys_inv M s1" "progs s1 c = Some pr"
    using create(1) by simp_all
  with after.sys_inv [of E c s1 s' M pr] create show ?thesis by blast
next
  case (request c pr req n s1)
  have inv: "full_inv M s" using assms(2) by (simp add: sys_inv_def)
  have k: "full_inv M s1" "evolves (prog_socket pr) s s1"
    using handle_keeps [OF request(4,3) inv request(1)] by simp_all
  have "sys_inv M s1"
    using main_ok_evolves [OF assms(2) k(1) request(1,2) k(2)] k(1) by (simp add: sys_inv_def)
  moreover obtain pr1 where "progs s1 c = Some pr1" "main_loaded_mutex pr1 = main_loaded_mutex pr"
    by (rule evolves_prog [OF k(2) request(1)])
  ultimately show ?thesis
    using after.sys_inv [of E c s1 s' M pr1] request(2,5) by simp
next
  case (wake c pr b)
  have inv: "full_inv M s" using assms(2) by (simp add: sys_inv_def)
  obtain s'' where "wakeup_threads E c s = Ret (wakeupList pr \<noteq> [], s'')" "full_inv M s''"
    "evolves (prog_socket pr) s s''"
    by (rule wakeup_threads_ok [OF inv wake(1)])
  with wake(2,3) main_ok_evolves [OF assms(2) _ wake(1,2)] show ?thesis by (simp add: sys_inv_def)
next
  case (long_term go)
  then show ?thesis using long_term_keeps [OF assms(2)] by blast
next
  case metrics
  then obtain k l where s': "s' = s\<lparr>ticks := k, mlog := l\<rparr>"
    by (auto simp: log_metrics_all_def obind_Ret_iff case_prod_beta)
  have "full_inv M s'"
    unfolding s' using assms(2) by (intro retimed_full [OF retimed_mlog]) (simp add: sys_inv_def)
  with assms(2) main_ok_cong [of s' s] show ?thesis by (simp add: sys_inv_def s')
next
  case shutdown
  with assms(2) main_ok_cong [of s' s] full_inv_endsuse show ?thesis by (simp add: sys_inv_def)
qed

lemma reach_inv:
  assumes "reach E M cfs s" "config_ok E cfs"
  shows "sys_inv M s"
  using assms
proof induction
  case (init s)
  then show ?case using init_sys_inv by blast
next
  case (step s s')
  then show ?case using sys_step_inv by blast
qed

end
