(* ===== verification/SuseDemo.thy ===== *)
theory SuseDemo
  imports SuseSystem
begin

text \<open>
  A run of SUSE, to apply the theorems to: one semaphore, one program on socket 5 whose main thread
  runs and which has created one more thread. The clock stands still, so that all times are zero.
\<close>

definition demo_env :: suse_env where
  "demo_env = \<lparr>tod = (\<lambda>k. zero_tv), alpha_sjf = 1 / 2, env_itoa = dec_int,
     env_beyond = [0, 0, 0], uninit_burst = zero_burst, uninit_close = False, oom = (\<lambda>_. False),
     env_send_ok = True\<rparr>"

definition demo_sem :: t_config_semaforo where
  "demo_sem = \<lparr>conf_id = [97], conf_init = 0, conf_max = 1\<rparr>"

definition sem_a :: t_semaforo where
  "sem_a = \<lparr>sem_id = [97], valor = 0, max_value = 1, blocked = []\<rparr>"

definition thread :: "int \<Rightarrow> t_state \<Rightarrow> t_tcb" where
  "thread t st = \<lparr>tcb_socket = 5, tid = t, tcb_state = st, tcb_time = zero_burst, joined = []\<rparr>"

definition prog_a :: "ptr list \<Rightarrow> ptr \<Rightarrow> mutex \<Rightarrow> t_program" where
  "prog_a rdy e m = \<lparr>prog_id = 1, prog_socket = 5, ready = rdy, exec = e, tcb_counter = length rdy,
     wakeupList = [], main_loaded_mutex = m, prog_close = False\<rparr>"

definition demo0 :: suse where
  "demo0 = boot\<lparr>sems := [1 \<mapsto> sem_a], semaforos := [1], available_multiprog := 2, mallocs := 1\<rparr>"

definition demo1 :: suse where
  "demo1 = demo0\<lparr>progs := [2 \<mapsto> prog_a [] NULL Locked], clientes := [2], program_id_counter := 1,
     mallocs := 2\<rparr>"

definition demo2 :: suse where
  "demo2 = demo1\<lparr>tcbs := [3 \<mapsto> thread 0 NEW], newList := [3], new_counter := 1, ticks := 1,
     mallocs := 4\<rparr>"

definition demo3 :: suse where
  "demo3 = demo2\<lparr>tcbs := [3 \<mapsto> thread 0 READY], progs := [2 \<mapsto> prog_a [3] NULL Unlocked],
     newList := [], new_counter := 0, ticks := 2, multiprog_degree := 1, available_multiprog := 1\<rparr>"

definition demo4 :: suse where
  "demo4 = demo3\<lparr>tcbs := [3 \<mapsto> thread 0 EXEC], progs := [2 \<mapsto> prog_a [] 3 Destroyed], ticks := 4\<rparr>"

definition demo5 :: suse where
  "demo5 = demo4\<lparr>tcbs := [3 \<mapsto> thread 0 EXEC, 5 \<mapsto> thread 1 NEW], newList := [5],
     new_counter := 1, ticks := 5, mallocs := 6\<rparr>"

definition demo6 :: suse where
  "demo6 = demo5\<lparr>tcbs := [3 \<mapsto> thread 0 EXEC, 5 \<mapsto> thread 1 READY],
     progs := [2 \<mapsto> prog_a [5] 3 Destroyed], newList := [], new_counter := 0, ticks := 6,
     multiprog_degree := 2, available_multiprog := 0\<rparr>"

lemma ms_difference_zero: "get_ms_difference_between zero_tv zero_tv = 0"
  by (simp add: get_ms_difference_between_def zero_tv_def fadd_def fmul_def fdiv_def)

lemma demo_times [simp]:
  "create_burst (tod demo_env) (uninit_burst demo_env) k = (zero_burst, Suc k)"
  "set_state_start_timing (tod demo_env) st zero_burst k =
     (zero_burst, if st = READY \<or> st = EXEC then Suc k else k)"
  "set_new_timings_for (tod demo_env) st zero_burst k =
     (zero_burst, if st = READY \<or> st = EXEC then Suc k else k)"
  by (simp_all add: create_burst_def demo_env_def zero_burst_def set_state_start_timing_def
      set_new_timings_for_def ms_difference_zero fadd_def split: t_state.split)

lemma demo_env_sel [simp]:
  "oom demo_env k = False" "uninit_close demo_env = False" "env_send_ok demo_env = True"
  "env_itoa demo_env = dec_int" "env_beyond demo_env = [0, 0, 0]" "alpha_sjf demo_env = 1 / 2"
  "tod demo_env k = zero_tv"
  by (simp_all add: demo_env_def)

lemmas demo_defs = demo0_def demo1_def demo2_def demo3_def demo4_def demo5_def demo6_def boot_def
  thread_def prog_a_def sem_a_def demo_sem_def

lemmas search_defs = get_program_id_def get_program_def find_program_pos_def find_tcb_pos_def
  remove_tcb_pos_def list_get_def list_remove_def

lemmas move_defs = move_tcb_to_def leave_state_def enter_state_def program_remove_tcb_from_state_def
  program_add_tcb_to_state_def increase_multiprog_def decrease_multiprog_def set_tcb_def set_prog_def

lemma demo_init: "init_suse demo_env (int 2) [demo_sem] = Ret demo0"
  by (simp add: init_suse_def init_scheduler_def init_semaforos_def create_semaforo_def alloc_def
    demo_defs)

lemma demo_connect: "wait_for_client demo_env 5 demo0 = Ret demo1"
  by (simp add: wait_for_client_def is_program_loaded_def search_defs create_program_def alloc_def
    set_prog_def demo_defs numeral_2_eq_2 [symmetric])

lemma demo_create_main: "create_tcb demo_env 5 0 demo1 = Ret (3, demo2)"
  by (simp add: create_tcb_def alloc_def search_defs set_tcb_def demo_defs)

lemma demo_load: "schedule_long_term demo_env demo2 = Ret (True, demo3)"
  by (simp add: schedule_long_term_def check_multiprog_def get_new_tcb_def main_exec_signal_def
    search_defs move_defs demo_defs)

lemma demo_run:
  "main_exec demo_env 2 3 demo3 = Ret demo4" "after_request demo_env 2 demo4 = Ret demo4"
  by (simp_all add: main_exec_def after_request_def wakeup_threads_def search_defs move_defs demo_defs)

lemma demo_create:
  "handle n demo_env 2 (Create 1) demo4 = Ret demo5" "after_request demo_env 2 demo5 = Ret demo5"
  by (simp_all add: handle_def create_tcb_def alloc_def after_request_def wakeup_threads_def
    search_defs set_tcb_def demo_defs)

lemma demo_admit: "schedule_long_term demo_env demo5 = Ret (True, demo6)"
  by (simp add: schedule_long_term_def check_multiprog_def get_new_tcb_def
    search_defs move_defs demo_defs)

lemma demo_config: "config_ok demo_env [demo_sem]"
  by (simp add: config_ok_def demo_sem_def)

lemma demo_reach2: "reach demo_env 2 [demo_sem] demo2"
proof -
  have "reach demo_env 2 [demo_sem] demo1"
    by (rule reach.step [OF reach.init [OF demo_init] sys_step.connect [OF demo_connect]])
  moreover have "sys_step demo_env demo1 demo2"
  proof (rule sys_step.create_main)
    show "progs demo1 2 = Some (prog_a [] NULL Locked)" by (simp add: demo1_def)
    show "create_tcb demo_env (prog_socket (prog_a [] NULL Locked)) 0 demo1 = Ret (3, demo2)"
      using demo_create_main by (simp add: prog_a_def)
  qed (simp_all add: demo_defs)
  ultimately show ?thesis by (rule reach.step)
qed

lemma demo_reach4: "reach demo_env 2 [demo_sem] demo4"
proof -
  have "reach demo_env 2 [demo_sem] demo3"
    by (rule reach.step [OF demo_reach2 sys_step.long_term [OF demo_load]])
  moreover have "sys_step demo_env demo3 demo4"
  proof (rule sys_step.run_main)
    show "progs demo3 2 = Some (prog_a [3] NULL Unlocked)" by (simp add: demo3_def)
    show "tcbs demo3 3 = Some (thread 0 READY)" by (simp add: demo3_def)
  qed (use demo_run in \<open>simp_all add: thread_def prog_a_def\<close>)
  ultimately show ?thesis by (rule reach.step)
qed

lemma demo_step5: "sys_step demo_env demo4 demo5"
proof (rule sys_step.create)
  show "progs demo4 2 = Some (prog_a [] 3 Destroyed)" by (simp add: demo4_def)
  show "fresh_key demo4 1 (prog_socket (prog_a [] 3 Destroyed))"
    by (simp add: fresh_key_def demo_defs)
qed (use demo_create in \<open>simp_all add: prog_a_def\<close>)

lemmas demo_step6 = sys_step.long_term [OF demo_admit]

lemmas demo_reach5 = reach.step [OF demo_reach4 demo_step5]

lemma demo_reach6: "reach demo_env 2 [demo_sem] demo6"
  by (rule reach.step [OF demo_reach5 demo_step6])

lemma demo_full:
  "full_inv 2 demo2" "full_inv 2 demo4" "full_inv 2 demo6"
  using reach_inv [OF demo_reach2 demo_config] reach_inv [OF demo_reach4 demo_config]
    reach_inv [OF demo_reach6 demo_config]
  by (simp_all add: sys_inv_def)

end
