(* ===== verification/SuseProps.thy ===== *)
theory SuseProps
  imports SuseDemo
begin

text \<open>
  The properties of SUSE: the refinement of \<open>move_tcb_to\<close>, what holds in every reachable state, and
  what the operations do, each applied to a state of the run of \<open>SuseDemo\<close>.
\<close>

section \<open>Moving a thread\<close>

text \<open>
  C4: \<open>move_tcb_to\<close> implements the abstract move. In a state whose lists satisfy the invariant, the
  searches find the thread, no counting semaphore makes the caller wait, and the result is one
  update of the whole state: the thread leaves the list of its old state, joins the end of the list
  of the new one, and the degree of multiprogramming, the counter of the program and the times
  follow. The invariant holds again. The move needs a free place when the thread becomes active, and
  a program that runs nothing when the thread is to run.
\<close>

theorem move_implements_abstract_move:
  assumes "core_inv M s" "tcbs s p = Some a"
    "active st \<longrightarrow> active (tcb_state a) \<or> 0 < available_multiprog s"
    "\<forall>c pr. st = EXEC \<longrightarrow> tcb_state a \<noteq> EXEC \<longrightarrow> progs s c = Some pr \<longrightarrow>
      prog_socket pr = tcb_socket a \<longrightarrow> exec pr = NULL"
  shows "move_tcb_to E p st s = Ret (moved E p st s) \<and> core_inv M (moved E p st s)"
  using move_refines [OF assms(1,2), of st E] core_inv_moved [OF assms(1,2), of st E] assms(3,4)
  by blast

theorem move_implements_abstract_move_witness:
  "move_tcb_to demo_env 5 BLOCKED demo6 = Ret (moved demo_env 5 BLOCKED demo6) \<and>
   core_inv 2 (moved demo_env 5 BLOCKED demo6)"
proof (rule move_implements_abstract_move)
  show "core_inv 2 demo6" using demo_full(3) by (simp add: full_inv_def)
  show "tcbs demo6 5 = Some (thread 1 READY)" by (simp add: demo6_def)
qed (simp_all add: thread_def)

section \<open>In every reachable state\<close>

lemma reach_full:
  assumes "reach E M cfs s" "config_ok E cfs"
  shows "full_inv M s"
  using reach_inv [OF assms] by (simp add: sys_inv_def)

text \<open>
  C1: The degree of multiprogramming is the number of threads that are ready, running or blocked,
  and together with the free places it is always the configured maximum: it is never exceeded.
\<close>

theorem degree_bounded:
  assumes "reach E M cfs s" "config_ok E cfs"
  shows "multiprog_degree s =
      int (card {p. \<exists>a. tcbs s p = Some a \<and> tcb_state a \<in> {READY, EXEC, BLOCKED}}) \<and>
    int (available_multiprog s) + multiprog_degree s = int M \<and> multiprog_degree s \<le> int M"
proof -
  have "active st \<longleftrightarrow> st \<in> {READY, EXEC, BLOCKED}" for st by (cases st) auto
  then have "active_set s = {p. \<exists>a. tcbs s p = Some a \<and> tcb_state a \<in> {READY, EXEC, BLOCKED}}"
    by (simp only: active_set_def)
  moreover have "degree_ok M s"
    by (rule core_invD [OF full_invD(1) [OF reach_full [OF assms]]])
  ultimately show ?thesis by (simp add: degree_ok_def)
qed

theorem degree_bounded_witness:
  "multiprog_degree demo6 =
     int (card {p. \<exists>a. tcbs demo6 p = Some a \<and> tcb_state a \<in> {READY, EXEC, BLOCKED}}) \<and>
   int (available_multiprog demo6) + multiprog_degree demo6 = int 2 \<and> multiprog_degree demo6 \<le> int 2"
  by (rule degree_bounded [OF demo_reach6 demo_config])

text \<open>
  C3: A thread is where its state says, and nowhere else: on \<open>newList\<close>, \<open>blockedList\<close> or \<open>exitList\<close>,
  on the ready list of its own program, or it is the one thread its program runs; no list holds a
  thread twice.
\<close>

theorem threads_listed_by_state:
  assumes "reach E M cfs s" "config_ok E cfs" "tcbs s p = Some a"
  shows "(p \<in> set (newList s) \<longleftrightarrow> tcb_state a = NEW) \<and>
    (p \<in> set (blockedList s) \<longleftrightarrow> tcb_state a = BLOCKED) \<and>
    (p \<in> set (exitList s) \<longleftrightarrow> tcb_state a = EXIT) \<and>
    (\<forall>c pr. progs s c = Some pr \<longrightarrow>
      (p \<in> set (ready pr) \<longleftrightarrow> tcb_state a = READY \<and> tcb_socket a = prog_socket pr) \<and>
      (exec pr = p \<longleftrightarrow> tcb_state a = EXEC \<and> tcb_socket a = prog_socket pr) \<and>
      distinct (ready pr)) \<and>
    distinct (newList s) \<and> distinct (blockedList s) \<and> distinct (exitList s)"
proof -
  note core = full_invD(1) [OF reach_full [OF assms(1,2)]]
  have l: "lists_ok s" by (rule core_invD [OF core])
  have nn: "p \<noteq> NULL"
    using heap_ok_NULL(1) [OF core_invD(1) [OF core]] assms(3) by (intro notI) simp
  have "(p \<in> set (ready pr) \<longleftrightarrow> tcb_state a = READY \<and> tcb_socket a = prog_socket pr) \<and>
      (exec pr = p \<longleftrightarrow> tcb_state a = EXEC \<and> tcb_socket a = prog_socket pr) \<and> distinct (ready pr)"
    if c: "progs s c = Some pr" for c pr
  proof -
    have "exec pr = p" if "tcb_state a = EXEC" "tcb_socket a = prog_socket pr"
      by (rule exec_unique [OF core c assms(3) that])
    moreover have "tcb_state a = EXEC \<and> tcb_socket a = prog_socket pr" if "exec pr = p"
      using exec_tcb [OF core c] nn that assms(3) by auto
    moreover have "distinct (ready pr)" using l c by (auto simp: lists_ok_def prog_listed_def)
    ultimately show ?thesis using ready_mem [OF core c, of p] assms(3) by auto
  qed
  then show ?thesis
    using state_mem [OF core, of p] assms(3) l by (simp add: lists_ok_def listed_def)
qed

theorem threads_listed_by_state_witness:
  "5 \<notin> set (newList demo6) \<and> 5 \<notin> set (blockedList demo6) \<and> 5 \<notin> set (exitList demo6) \<and>
   5 \<in> set (ready (prog_a [5] 3 Destroyed)) \<and> exec (prog_a [5] 3 Destroyed) \<noteq> 5 \<and>
   distinct (ready (prog_a [5] 3 Destroyed))"
proof -
  have "tcbs demo6 5 = Some (thread 1 READY)" "progs demo6 2 = Some (prog_a [5] 3 Destroyed)"
    by (simp_all add: demo6_def)
  moreover have "tcb_state (thread 1 READY) = READY"
    "tcb_socket (thread 1 READY) = prog_socket (prog_a [5] 3 Destroyed)"
    by (simp_all add: thread_def prog_a_def)
  ultimately show ?thesis
    using threads_listed_by_state [OF demo_reach6 demo_config, of 5 "thread 1 READY"] by simp
qed

text \<open>
  C2: No blocked thread is lost and none is woken up twice: a thread is blocked exactly when it
  waits in one place, and then in only one - in the queue of one semaphore, among the threads that
  have joined one thread that has not ended, or on the wake-up list of one program - and once there.
\<close>

theorem blocked_threads_wait_once:
  assumes "reach E M cfs s" "config_ok E cfs"
  shows "((\<exists>a. tcbs s p = Some a \<and> tcb_state a = BLOCKED) \<longleftrightarrow>
      (\<exists>!r. p \<in> set (waiters s r))) \<and> (\<forall>r. distinct (waiters s r))"
proof -
  note w = full_invD(2) [OF reach_full [OF assms]]
  have "p \<in> in_state s BLOCKED \<longleftrightarrow> (\<exists>!r. p \<in> set (waiters s r))"
    using waits_unique [OF w] waits_mem [OF w] by blast
  moreover have "distinct (waiters s r)" for r using w unfolding waits_def by blast
  ultimately show ?thesis by (simp add: in_state_def)
qed

theorem blocked_threads_wait_once_witness:
  "((\<exists>a. tcbs demo6 5 = Some a \<and> tcb_state a = BLOCKED) \<longleftrightarrow>
     (\<exists>!r. 5 \<in> set (waiters demo6 r))) \<and> (\<forall>r. distinct (waiters demo6 r))"
  by (rule blocked_threads_wait_once [OF demo_reach6 demo_config])

text \<open>
  C6: The value of a semaphore counts its queue, when the configuration gives every semaphore an
  initial value from 0 to its maximum, and a maximum of at least 1: the value never exceeds the maximum, and when it is
  negative its absolute value is the number of threads blocked on it, all of them in state BLOCKED;
  otherwise none is.
\<close>

theorem semaphore_counts_queue:
  assumes "reach E M cfs s" "config_ok E cfs" "sems s m = Some x"
  shows "int (length (blocked x)) = max 0 (- valor x) \<and> valor x \<le> max_value x \<and>
    set (blocked x) \<subseteq> set (blockedList s)"
proof -
  note full = reach_full [OF assms(1,2)]
  have "sem_ok x" using full_invD(5) [OF full] assms(3) by (simp add: sems_ok_def)
  moreover have "set (blocked x) \<subseteq> in_state s BLOCKED"
    using waits_mem [OF full_invD(2) [OF full], of _ "OnSem m"] assms(3) by auto
  moreover have "set (blockedList s) = in_state s BLOCKED"
    using core_invD(5) [OF full_invD(1) [OF full]] by (simp add: lists_ok_def listed_def)
  ultimately show ?thesis by (simp add: sem_ok_def)
qed

theorem semaphore_counts_queue_witness:
  "int (length (blocked sem_a)) = max 0 (- valor sem_a) \<and> valor sem_a \<le> max_value sem_a \<and>
   set (blocked sem_a) \<subseteq> set (blockedList demo6)"
  by (rule semaphore_counts_queue [OF demo_reach6 demo_config, of 1]) (simp add: demo_defs)

text \<open>
  The counting semaphores agree with the lists they count: \<open>new_counter\<close> with \<open>newList\<close>, and the
  counter of a program with the threads that are ready or about to be woken up; so the long-term
  scheduler and \<open>wait_for_threads\<close> wait exactly when there is nothing to do.
\<close>

theorem counters_match_lists:
  assumes "reach E M cfs s" "config_ok E cfs"
  shows "new_counter s = length (newList s) \<and> (\<forall>c pr. progs s c = Some pr \<longrightarrow>
    tcb_counter pr = length (ready pr) + length (wakeupList pr))"
  using full_invD(3) [OF reach_full [OF assms]] by (simp add: counters_ok_def)

theorem counters_match_lists_witness:
  "new_counter demo6 = length (newList demo6) \<and>
   tcb_counter (prog_a [5] 3 Destroyed) =
     length (ready (prog_a [5] 3 Destroyed)) + length (wakeupList (prog_a [5] 3 Destroyed))"
proof -
  have "progs demo6 2 = Some (prog_a [5] 3 Destroyed)" by (simp add: demo6_def)
  then show ?thesis using counters_match_lists [OF demo_reach6 demo_config] by blast
qed

section \<open>The short-term scheduler\<close>

text \<open>
  C5: Shortest job first. When the program runs a thread or has a ready one with a finite estimate,
  \<open>schedule_next_for\<close> returns at once: if some ready thread has a smaller estimate than the running
  one, the earliest of those with the smallest estimate runs next and the old one goes to the end of
  the ready list; otherwise the running thread stays. The program is told the id of the thread that
  runs now, and the invariant holds.
\<close>

theorem schedule_next_sjf:
  assumes "full_inv M s" "progs s c = Some pr" "env_ok E"
    "exec pr = NULL \<Longrightarrow> \<exists>p \<in> set (ready pr). est (alpha_sjf E) (tcbs s) p < FLT_MAX"
  shows "\<exists>s' pr' e bytes. schedule_next_for (Suc n) E c s = Ret s' \<and> full_inv M s' \<and>
    progs s' c = Some pr' \<and> chosen E pr s pr' \<and> tcbs s' (exec pr') = Some e \<and>
    notify_program_bytes (env_send_ok E) (env_itoa E) (env_beyond E) (tid e) = Ret bytes \<and>
    sent s' = sent s @ [(prog_socket pr, bytes)]"
proof -
  note inv = full_invD [OF assms(1)]
  have "ready pr \<noteq> [] \<or> exec pr \<noteq> NULL" using assms(4) by (cases "exec pr = NULL") auto
  then show ?thesis
  proof (cases rule: schedule_body [OF assms(1,2), where E = E and n = n, consumes 1])
    case (1 s2 pr2 e)
    obtain bytes where b: "notify_program_bytes (env_send_ok E) (env_itoa E) (env_beyond E) (tid e)
        = Ret bytes"
      using notify_bytes_ok [OF assms(3)] by blast
    let ?s = "s2\<lparr>sent := sent s2 @ [(prog_socket pr, bytes)]\<rparr>"
    have "schedule_next_for (Suc n) E c s = Ret ?s"
      using 1 b by (simp add: notify_program_def)
    moreover have "full_inv M ?s" by (rule retimed_full [OF retimed_ticks(2) 1(2)])
    ultimately show ?thesis
      using 1 b by (intro exI [of _ ?s] exI [of _ pr2] exI [of _ e] exI [of _ bytes]) simp
  next
    case 2
    have "tcbs s NULL = None" by (rule heap_ok_NULL) (rule core_invD [OF inv(1)])
    then have "limit E pr s = FLT_MAX" using 2(2) by (simp add: limit_def)
    with 2 assms(4) show ?thesis by fastforce
  qed
qed

lemma estimate_zero: "get_estimate alpha zero_burst = 0"
  by (simp add: get_estimate_def get_estimate_with_burst_def fadd_def fmul_def zero_burst_def)

lemma demo_est: "est (1 / 2) (tcbs demo6) 5 < FLT_MAX"
  by (simp add: est_def demo_defs estimate_zero FLT_MAX_def)

theorem schedule_next_sjf_witness:
  "\<exists>s' pr' e bytes. schedule_next_for (Suc 0) demo_env 2 demo6 = Ret s' \<and> full_inv 2 s' \<and>
    progs s' 2 = Some pr' \<and> chosen demo_env (prog_a [5] 3 Destroyed) demo6 pr' \<and>
    tcbs s' (exec pr') = Some e \<and>
    notify_program_bytes (env_send_ok demo_env) (env_itoa demo_env) (env_beyond demo_env) (tid e) =
      Ret bytes \<and>
    sent s' = sent demo6 @ [(prog_socket (prog_a [5] 3 Destroyed), bytes)]"
  by (rule schedule_next_sjf [OF demo_full(3)])
    (simp_all add: demo6_def env_ok_def, simp add: prog_a_def)

text \<open>
  C9: \<open>schedule_next_for\<close> needs at most one jump back to its start: with two passes it returns or
  ends in an error, and it waits exactly when the program has no thread that runs, is ready or is
  about to be woken up.
\<close>

theorem schedule_next_terminates:
  assumes "full_inv M s" "progs s c = Some pr"
  shows "schedule_next_for (Suc (Suc n)) E c s \<noteq> OutOfFuel \<and>
    (schedule_next_for (Suc (Suc n)) E c s = Hang \<longleftrightarrow>
       ready pr = [] \<and> exec pr = NULL \<and> wakeupList pr = [])"
proof -
  have body: "schedule_next_for (Suc k) E c t \<noteq> OutOfFuel \<and> schedule_next_for (Suc k) E c t \<noteq> Hang"
    if t: "full_inv M t" "progs t c = Some qr" "ready qr \<noteq> [] \<or> exec qr \<noteq> NULL" for k t qr
  proof (cases rule: schedule_body [OF t, where E = E and n = k])
    case (1 s2 pr2 e)
    have "notify_program E c SUSE_SCHEDULE_NEXT s2 \<noteq> Hang \<and>
        notify_program E c SUSE_SCHEDULE_NEXT s2 \<noteq> OutOfFuel"
      using 1(4,6) notify_returns [of "env_send_ok E" "env_itoa E" "env_beyond E" "tid e"]
      by (cases "notify_program_bytes (env_send_ok E) (env_itoa E) (env_beyond E) (tid e)")
        (auto simp: notify_program_def)
    with 1(1) show ?thesis by (simp del: schedule_next_for.simps)
  qed simp
  show ?thesis
  proof (cases "ready pr = [] \<and> exec pr = NULL")
    case False
    then have "ready pr \<noteq> [] \<or> exec pr \<noteq> NULL" by auto
    from body [OF assms this, of "Suc n"] False show ?thesis
      by (simp del: schedule_next_for.simps)
  next
    case True
    obtain s1 where s1: "wakeup_threads E c s = Ret (wakeupList pr \<noteq> [], s1)" "full_inv M s1"
      "progs s1 = (progs s)(c \<mapsto>
        pr\<lparr>wakeupList := odds (wakeupList pr), ready := ready pr @ evens (wakeupList pr)\<rparr>)"
      by (rule wakeup_threads_ok [OF assms])
    show ?thesis
    proof (cases "wakeupList pr = []")
      case True
      moreover have "tcb_counter pr = 0"
        using full_invD(3) [OF assms(1)] assms(2) True \<open>ready pr = [] \<and> exec pr = NULL\<close>
        by (simp add: counters_ok_def)
      ultimately have "schedule_next_for (Suc (Suc n)) E c s = Hang"
        using s1(1,3) assms(2) \<open>ready pr = [] \<and> exec pr = NULL\<close>
        by (simp add: wait_for_threads_def)
      with True \<open>ready pr = [] \<and> exec pr = NULL\<close> show ?thesis by simp
    next
      case False
      then have "evens (wakeupList pr) \<noteq> []" by (cases "wakeupList pr" rule: evens.cases) auto
      then have "schedule_next_for (Suc n) E c s1 \<noteq> OutOfFuel \<and>
          schedule_next_for (Suc n) E c s1 \<noteq> Hang"
        by (intro body [OF s1(2), of
          "pr\<lparr>wakeupList := odds (wakeupList pr), ready := ready pr @ evens (wakeupList pr)\<rparr>"])
          (simp_all add: s1(3))
      moreover have "schedule_next_for (Suc (Suc n)) E c s = schedule_next_for (Suc n) E c s1"
        using s1(1) False True assms(2) by (subst schedule_next_for.simps) simp
      ultimately show ?thesis using False by (simp del: schedule_next_for.simps)
    qed
  qed
qed

theorem schedule_next_terminates_witness:
  "schedule_next_for (Suc (Suc 0)) demo_env 2 demo6 \<noteq> OutOfFuel \<and>
   (schedule_next_for (Suc (Suc 0)) demo_env 2 demo6 = Hang \<longleftrightarrow>
      ready (prog_a [5] 3 Destroyed) = [] \<and> exec (prog_a [5] 3 Destroyed) = NULL \<and>
      wakeupList (prog_a [5] 3 Destroyed) = [])"
  by (rule schedule_next_terminates [OF demo_full(3)]) (simp add: demo6_def)

text \<open>
  C36: \<open>wakeup_threads\<close> wakes up every other thread: its loop removes the element at the loop counter
  and then increases the counter, so of \<open>n\<close> threads on the wake-up list the ones at even positions,
  half of them rounded up, become ready, in order, and the others stay for the next call.
\<close>

theorem wakeup_takes_every_other:
  assumes "full_inv M s" "progs s c = Some pr"
  shows "\<exists>s'. wakeup_threads E c s = Ret (wakeupList pr \<noteq> [], s') \<and> full_inv M s' \<and>
    progs s' = (progs s)(c \<mapsto> pr\<lparr>wakeupList := odds (wakeupList pr),
      ready := ready pr @ evens (wakeupList pr)\<rparr>) \<and>
    length (evens (wakeupList pr)) = (length (wakeupList pr) + 1) div 2"
  by (rule wakeup_threads_ok [OF assms, of E 0]) (auto simp: length_evens)

theorem wakeup_takes_every_other_witness:
  "\<exists>s'. wakeup_threads demo_env 2 demo6 = Ret (wakeupList (prog_a [5] 3 Destroyed) \<noteq> [], s') \<and>
    full_inv 2 s' \<and>
    progs s' = (progs demo6)(2 \<mapsto> (prog_a [5] 3 Destroyed)\<lparr>
      wakeupList := odds (wakeupList (prog_a [5] 3 Destroyed)),
      ready := ready (prog_a [5] 3 Destroyed) @ evens (wakeupList (prog_a [5] 3 Destroyed))\<rparr>) \<and>
    length (evens (wakeupList (prog_a [5] 3 Destroyed))) =
      (length (wakeupList (prog_a [5] 3 Destroyed)) + 1) div 2"
  by (rule wakeup_takes_every_other [OF demo_full(3)]) (simp add: demo6_def)

end
