(* ===== verification/SuseLife.thy ===== *)
theory SuseLife
  imports SuseDemo
begin

text \<open>
  The life of threads over the runs of SUSE: how a step of the transition system changes the states
  of the threads and the list of the new ones.
\<close>

text \<open>Every thread stays, with its id and its connection, and its state goes on.\<close>

definition outlives :: "suse \<Rightarrow> suse \<Rightarrow> bool" where
  "outlives s s' \<longleftrightarrow> (\<forall>p a. tcbs s p = Some a \<longrightarrow>
     (\<exists>a'. tcbs s' p = Some a' \<and> tid a' = tid a \<and> tcb_socket a' = tcb_socket a \<and>
       lives (tcb_state a) (tcb_state a')))"

text \<open>What a step does to the list of the new threads: nothing, one more, or the first one less.\<close>

definition admits :: "suse \<Rightarrow> suse \<Rightarrow> bool" where
  "admits s s' \<longleftrightarrow> newList s' = newList s \<or>
     (\<exists>p. newList s' = newList s @ [p] \<and> tcbs s p = None) \<or>
     (\<exists>p a. newList s = p # newList s' \<and> 0 < available_multiprog s \<and>
       tcbs s' p = Some a \<and> tcb_state a = READY)"

lemma outlives_same: "tcbs s' = tcbs s \<Longrightarrow> outlives s s'"
  by (simp add: outlives_def)

lemma outlives_new: "tcbs s' = (tcbs s)(p \<mapsto> a) \<Longrightarrow> tcbs s p = None \<Longrightarrow> outlives s s'"
  by (auto simp: outlives_def)

lemma outlives_trans: "outlives s t \<Longrightarrow> outlives t u \<Longrightarrow> outlives s u"
  unfolding outlives_def
proof (intro allI impI)
  fix p a
  assume st: "\<forall>p a. tcbs s p = Some a \<longrightarrow> (\<exists>a'. tcbs t p = Some a' \<and> tid a' = tid a \<and>
      tcb_socket a' = tcb_socket a \<and> lives (tcb_state a) (tcb_state a'))"
    and tu: "\<forall>p a. tcbs t p = Some a \<longrightarrow> (\<exists>a'. tcbs u p = Some a' \<and> tid a' = tid a \<and>
      tcb_socket a' = tcb_socket a \<and> lives (tcb_state a) (tcb_state a'))"
    and a: "tcbs s p = Some a"
  obtain b where b: "tcbs t p = Some b" "tid b = tid a" "tcb_socket b = tcb_socket a"
    "lives (tcb_state a) (tcb_state b)" using st a by blast
  obtain c where c: "tcbs u p = Some c" "tid c = tid b" "tcb_socket c = tcb_socket b"
    "lives (tcb_state b) (tcb_state c)" using tu b(1) by blast
  have "lives (tcb_state a) (tcb_state c)" by (rule lives_trans [OF b(4) c(4)])
  with b c show "\<exists>a'. tcbs u p = Some a' \<and> tid a' = tid a \<and> tcb_socket a' = tcb_socket a \<and>
      lives (tcb_state a) (tcb_state a')" by simp
qed

lemma outlives_evolves: "evolves sock s s' \<Longrightarrow> outlives s s'"
  unfolding outlives_def
proof (intro allI impI)
  fix p a
  assume e: "evolves sock s s'" and a: "tcbs s p = Some a"
  obtain a' where a': "tcbs s' p = Some a'" "tid a' = tid a" "tcb_socket a' = tcb_socket a"
    by (rule evolves_tcb [OF e a])
  with evolves_lives [OF e, of p] a
  show "\<exists>a'. tcbs s' p = Some a' \<and> tid a' = tid a \<and> tcb_socket a' = tcb_socket a \<and>
      lives (tcb_state a) (tcb_state a')" by simp
qed

lemma outlives_moved:
  assumes "tcbs s p = Some a" "lives (tcb_state a) st"
    "tcbs s' = (tcbs s)(p \<mapsto> a\<lparr>tcb_time := b, tcb_state := st\<rparr>)"
  shows "outlives s s'"
  using assms by (auto simp: outlives_def)

lemma evolves_step: "evolves sock s s' \<Longrightarrow> outlives s s' \<and> admits s s'"
  using outlives_evolves by (simp add: admits_def evolves_def)

text \<open>What a request adds, and the check of the wake-ups behind it.\<close>

lemma pass_step:
  assumes "outlives s s1" "newList s1 = newList s @ xs" "xs = [] \<or> (\<exists>p. xs = [p] \<and> tcbs s p = None)"
    "evolves sock s1 s'"
  shows "outlives s s' \<and> admits s s'"
proof
  show "outlives s s'" using assms(1,4) outlives_evolves outlives_trans by blast
  have "newList s' = newList s @ xs" using assms(2,4) by (simp add: evolves_def)
  with assms(3) show "admits s s'" by (auto simp: admits_def)
qed

lemma created_step:
  assumes "full_inv M s" "progs s c = Some pr" "fresh_key s t (prog_socket pr)"
    "create_tcb E (prog_socket pr) t s = Ret (p, s')"
  shows "outlives s s' \<and> (\<exists>xs. newList s' = newList s @ xs \<and>
    (xs = [] \<or> (\<exists>p. xs = [p] \<and> tcbs s p = None)) \<and> progs s' = progs s)"
  using assms(3)
proof (cases rule: create_tcb_ok [OF assms(1,2) refl, of t E, consumes 1])
  case 1
  then have "s' = s\<lparr>mallocs := Suc (mallocs s)\<rparr>" using assms(4) by simp
  then show ?thesis by (simp add: outlives_same)
next
  case 2
  then show ?thesis using assms(4) by simp
next
  case (3 a s'')
  have "tcbs s (Suc (mallocs s)) = None"
    by (rule heap_fresh(1) [OF full_invD(1) [OF assms(1)]]) simp
  with 3 assms(4) show ?thesis using outlives_new by auto
qed

lemma connect_step:
  assumes "full_inv M s" "wait_for_client E cliente s = Ret s'"
  shows "outlives s s' \<and> admits s s'"
proof (cases "cliente > 0 \<and> is_program_loaded s cliente = Ret False")
  case False
  have "s' = s" using assms(2) False by (auto simp: wait_for_client_def obind_Ret_iff split: if_splits)
  then show ?thesis by (simp add: outlives_same admits_def)
next
  case True
  then have s': "s' = snd (create_program E cliente s)"
    using assms(2) by (simp add: wait_for_client_def)
  show ?thesis
    by (cases rule: create_program_ok [OF assms(1), of cliente E])
      (use s' True in \<open>simp_all add: outlives_same admits_def\<close>)
qed

lemma run_main_step:
  assumes "sys_inv M s" "progs s c = Some pr" "tcbs s p = Some a" "tid a = 0"
    "tcb_socket a = prog_socket pr" "main_exec E c p s = Ret s'"
  shows "outlives s s' \<and> newList s' = newList s"
proof -
  have inv: "full_inv M s" "main_ok s" using assms(1) by (simp_all add: sys_inv_def)
  have mu: "main_loaded_mutex pr = Unlocked"
    using assms(2,6) by (cases "main_loaded_mutex pr") (simp_all add: main_exec_def)
  then have l: "loading s pr" using inv(2) assms(2) by (auto simp: main_ok_def)
  then have ex: "exec pr = NULL" and st: "tcb_state a = READY"
    using assms(3,5) mu by (auto simp: loading_def load_ok_def)
  obtain s'' where m: "main_exec E c p s = Ret s''" "newList s'' = newList s"
    "tcbs s'' = tcbs (moved E p EXEC (set_prog c (pr\<lparr>main_loaded_mutex := Locked\<rparr>) s))"
    by (rule main_exec_ok [where E = E, OF inv(1) assms(2) mu ex assms(3) st assms(5)])
  obtain b where b: "tcbs s'' = (tcbs s)(p \<mapsto> a\<lparr>tcb_time := b, tcb_state := EXEC\<rparr>)"
    using moved_tcb [of "set_prog c (pr\<lparr>main_loaded_mutex := Locked\<rparr>) s" p a E EXEC] assms(3) m(3)
    by auto
  have "lives (tcb_state a) EXEC" using st by (simp add: lives_def)
  then have "outlives s s''" by (rule outlives_moved [OF assms(3) _ b])
  with m assms(6) show ?thesis by simp
qed

lemma unlocked_sel [simp]: "tcbs (unlocked c s) = tcbs s" "newList (unlocked c s) = newList s"
  by (simp_all add: unlocked_def split: option.split)

lemma long_term_step:
  assumes "full_inv M s" "schedule_long_term E s = Ret (go, s')"
  shows "outlives s s' \<and> admits s s'"
proof (cases "endsuse s")
  case True
  with assms show ?thesis by (simp add: schedule_long_term_def outlives_same admits_def)
next
  case False
  from assms(1) this show ?thesis
  proof (cases rule: long_term_cases [where E = E])
    case (admit p rest a c pr)
    let ?s1 = "s\<lparr>new_counter := new_counter s - 1\<rparr>"
    have a1: "tcbs ?s1 p = Some a" using admit(3) by simp
    obtain b where tcbs: "tcbs (admitted E p s) = (tcbs s)(p \<mapsto> a\<lparr>tcb_time := b, tcb_state := READY\<rparr>)"
      using moved_tcb [OF a1, of E READY] by (auto simp: admitted_def)
    have "p \<notin> set rest"
      using core_invD(5) [OF full_invD(1) [OF assms(1)]] admit(1) by (simp add: lists_ok_def listed_def)
    then have new: "newList (admitted E p s) = rest"
      using moved_sel [OF a1, of READY E] admit(1,4)
      by (simp add: admitted_def relist_def)
    have s': "s' = admitted E p s \<or> s' = unlocked c (admitted E p s)"
      using assms(2) admit(8) by (auto split: if_splits)
    then have "outlives s s'"
      using outlives_moved [OF admit(3)] tcbs admit(4) by (auto simp: lives_def)
    moreover have "admits s s'"
      unfolding admits_def using s' admit(1,2) new tcbs by auto
    ultimately show ?thesis by simp
  qed (use assms(2) in simp_all)
qed

lemma sys_step_life:
  assumes "sys_step E s s'" "sys_inv M s"
  shows "outlives s s' \<and> admits s s'"
  using assms(1)
proof cases
  case (connect cliente)
  then show ?thesis using connect_step assms(2) by (auto simp: sys_inv_def)
next
  case (create_main c pr p)
  have "fresh_key s 0 (prog_socket pr)" using create_main(3) by (auto simp: fresh_key_def)
  then obtain xs where "outlives s s'" "newList s' = newList s @ xs"
    "xs = [] \<or> (\<exists>p. xs = [p] \<and> tcbs s p = None)"
    using created_step [OF _ create_main(1) _ create_main(4)] assms(2) by (auto simp: sys_inv_def)
  then show ?thesis by (rule pass_step [OF _ _ _ evolves_refl])
next
  case (run_main c pr p a s1)
  obtain pr' where "full_inv M s1" "progs s1 c = Some pr'"
    using run_main_keeps [OF assms(2) run_main(1-5)] by (auto simp: sys_inv_def)
  then have ev: "evolves (prog_socket pr') s1 s'"
    using after.keeps [OF run_main(6)] by blast
  have "outlives s s1" "newList s1 = newList s @ []"
    using run_main_step [OF assms(2) run_main(1-5)] by simp_all
  then show ?thesis by (rule pass_step [OF _ _ _ ev]) simp
next
  case (create c pr t n s1)
  then obtain p where p: "create_tcb E (prog_socket pr) t s = Ret (p, s1)"
    by (auto simp: handle_def obind_Ret_iff)
  have s1: "full_inv M s1" "progs s1 = progs s"
    using create_keeps [OF assms(2) create(1-4) p] by (simp_all add: sys_inv_def)
  have ev: "evolves (prog_socket pr) s1 s'"
    using after.keeps [OF create(6) s1(1)] create(1) s1(2) by auto
  obtain xs where "outlives s s1" "newList s1 = newList s @ xs"
    "xs = [] \<or> (\<exists>p. xs = [p] \<and> tcbs s p = None)"
    using created_step [OF _ create(1,4) p] assms(2) by (auto simp: sys_inv_def)
  then show ?thesis by (rule pass_step [OF _ _ _ ev])
next
  case (request c pr req n s1)
  have inv: "full_inv M s" using assms(2) by (simp add: sys_inv_def)
  have k: "full_inv M s1" "evolves (prog_socket pr) s s1"
    using handle_keeps [OF request(4,3) inv request(1)] by simp_all
  obtain pr1 where pr1: "progs s1 c = Some pr1" "prog_socket pr1 = prog_socket pr"
    by (rule evolves_prog [OF k(2) request(1)])
  have "evolves (prog_socket pr) s1 s'" using after.keeps [OF request(5) k(1) pr1(1)] pr1(2) by simp
  with k(2) show ?thesis using evolves_trans evolves_step by blast
next
  case (wake c pr b)
  have inv: "full_inv M s" using assms(2) by (simp add: sys_inv_def)
  obtain s'' where "wakeup_threads E c s = Ret (wakeupList pr \<noteq> [], s'')"
    "evolves (prog_socket pr) s s''"
    by (rule wakeup_threads_ok [OF inv wake(1)])
  with wake(3) evolves_step show ?thesis by simp
next
  case (long_term go)
  then show ?thesis using long_term_step assms(2) by (auto simp: sys_inv_def)
next
  case metrics
  then show ?thesis
    by (auto simp: log_metrics_all_def obind_Ret_iff case_prod_beta outlives_same admits_def)
next
  case shutdown
  then show ?thesis by (simp add: outlives_same admits_def)
qed

text \<open>
  C7: A thread lives once: in every run of SUSE from a reachable state each thread stays, with its id
  and its connection; it never becomes new again, and once it has ended it stays so.
\<close>

theorem thread_lives_once:
  assumes "reach E M cfs s" "config_ok E cfs" "(sys_step E)\<^sup>*\<^sup>* s s'" "tcbs s p = Some a"
  shows "\<exists>a'. tcbs s' p = Some a' \<and> tid a' = tid a \<and> tcb_socket a' = tcb_socket a \<and>
    (tcb_state a = EXIT \<longrightarrow> tcb_state a' = EXIT) \<and> (tcb_state a' = NEW \<longrightarrow> tcb_state a = NEW)"
proof -
  from assms(3) have "outlives s s' \<and> reach E M cfs s'"
  proof induction
    case (step t u)
    then have "outlives t u" using sys_step_life reach_inv [OF _ assms(2)] by blast
    with step outlives_trans show ?case by (blast intro: reach.step)
  qed (simp add: outlives_same assms(1))
  with assms(4) show ?thesis by (auto simp: outlives_def lives_def)
qed

theorem thread_lives_once_witness:
  "\<exists>a'. tcbs demo6 3 = Some a' \<and> tid a' = 0 \<and> tcb_state a' \<noteq> NEW"
proof -
  have "(sys_step demo_env)\<^sup>*\<^sup>* demo4 demo6" using demo_step5 demo_step6 by (meson r_into_rtranclp rtranclp.rtrancl_into_rtrancl)
  moreover have "tcbs demo4 3 = Some (thread 0 EXEC)" by (simp add: demo4_def)
  ultimately show ?thesis
    using thread_lives_once [OF demo_reach4 demo_config, of demo6 3 "thread 0 EXEC"]
    by (auto simp: thread_def)
qed

text \<open>
  C8: Threads are admitted in the order of their creation: a step from a reachable state leaves the
  list of new threads as it is, adds a thread that did not exist at its end, or takes the thread at
  its head, which is then ready, when there is a place for it.
\<close>

theorem admission_in_order:
  assumes "reach E M cfs s" "config_ok E cfs" "sys_step E s s'"
  shows "newList s' = newList s \<or> (\<exists>p. newList s' = newList s @ [p] \<and> tcbs s p = None) \<or>
    (\<exists>p a. newList s = p # newList s' \<and> 0 < available_multiprog s \<and>
      tcbs s' p = Some a \<and> tcb_state a = READY)"
  using sys_step_life [OF assms(3) reach_inv [OF assms(1,2)]] by (simp add: admits_def)

theorem admission_in_order_witness:
  "\<exists>p a. newList demo5 = p # newList demo6 \<and> 0 < available_multiprog demo5 \<and>
    tcbs demo6 p = Some a \<and> tcb_state a = READY"
proof -
  have "newList demo5 = [5]" "newList demo6 = []" by (simp_all add: demo5_def demo6_def)
  with admission_in_order [OF demo_reach5 demo_config demo_step6] show ?thesis by auto
qed

end
