(* ===== verification/SuseSession.thy ===== *)
theory SuseSession
  imports SuseDemo
begin

text \<open>
  Sessions with SUSE: the loop of \<open>schedule_short_term\<close> over the bytes a program sends, the order in
  which semaphores wake threads up, and three requests followed to their end: closing a thread,
  joining oneself, and an admission in the middle of a move.
\<close>

section \<open>The loop of the short-term scheduler\<close>

text \<open>
  \<open>schedule_short_term\<close> until it leaves its loop, with at most \<open>k\<close> passes; before every pass the
  other threads of SUSE change the state by \<open>other\<close>.
\<close>

fun short_term_loop :: "nat \<Rightarrow> (nat \<Rightarrow> suse \<Rightarrow> suse) \<Rightarrow> nat \<Rightarrow> (nat \<Rightarrow> byte) \<Rightarrow> suse_env \<Rightarrow> ptr \<Rightarrow>
  chan \<Rightarrow> suse \<Rightarrow> (chan \<times> suse) outcome" where
  "short_term_loop 0 other n indet E c ch s = OutOfFuel"
| "short_term_loop (Suc k) other n indet E c ch s =
     obind (schedule_short_term n indet E c ch (other k s)) (\<lambda>(again, ch1, s1).
       if again then short_term_loop k other n indet E c ch1 s1 else Ret (ch1, s1))"

text \<open>
  The same loop over the requests themselves, with no bytes in it; after the last one the program
  disconnects.
\<close>

fun serve :: "nat \<Rightarrow> (nat \<Rightarrow> suse \<Rightarrow> suse) \<Rightarrow> nat \<Rightarrow> suse_env \<Rightarrow> ptr \<Rightarrow> request list \<Rightarrow> suse \<Rightarrow>
  suse outcome" where
  "serve 0 other n E c rs s = OutOfFuel"
| "serve (Suc k) other n E c rs s =
     (let s0 = other k s; r = (case rs of [] \<Rightarrow> Disconnected | r # _ \<Rightarrow> r) in
      obind (deref (progs s0) c) (\<lambda>self.
        if prog_close self then Ret s0
        else obind (handle n E c r s0) (\<lambda>s1.
             obind (after_request E c s1) (serve k other n E c (tl rs)))))"

lemma read_disconnected:
  "inbuf ch = [] \<Longrightarrow> read_request indet beyond ch = Ret (Disconnected, ch\<lparr>closed := True\<rparr>)"
  by (simp add: read_request_def recibir_operacion_def recv_def)

lemma obind_if: "obind (if b then m else m') f = (if b then obind m f else obind m' f)"
  by simp

lemma short_term_loop_Suc:
  assumes "read_request indet (env_beyond E) ch = Ret (r, ch1)"
  shows "obind (short_term_loop (Suc k) other n indet E c ch s) (\<lambda>(_, s'). Ret s') =
    (let s0 = other k s in obind (deref (progs s0) c) (\<lambda>self.
      if prog_close self then Ret s0
      else obind (handle n E c r s0) (\<lambda>s1. obind (after_request E c s1) (\<lambda>s2.
        obind (short_term_loop k other n indet E c ch1 s2) (\<lambda>(_, s'). Ret s')))))"
  by (simp only: short_term_loop.simps schedule_short_term_def assms obind_assoc obind_if
    obind.simps prod.case if_True if_False Let_def)

lemma loop_disconnected:
  assumes "inbuf ch = []"
  shows "obind (short_term_loop k other n indet E c ch s) (\<lambda>(_, s'). Ret s') =
    serve k other n E c [] s"
  using assms
proof (induction k arbitrary: ch s)
  case (Suc k)
  have "inbuf (ch\<lparr>closed := True\<rparr>) = []" using Suc.prems by simp
  from Suc.IH [OF this] show ?case
    by (simp only: short_term_loop_Suc [OF read_disconnected [OF Suc.prems]] serve.simps Let_def
      list.case list.sel)
qed simp

lemma loop_requests:
  assumes "list_all ok_request rs" "itoa_decimal itoa" "2 \<le> length beyond" "\<not> closed ch"
    "inbuf ch = concat (map (request_bytes itoa beyond) rs)"
  shows "obind (short_term_loop k other n indet E c ch s) (\<lambda>(_, s'). Ret s') =
    serve k other n E c rs s"
  using assms(1,4,5)
proof (induction k arbitrary: rs ch s)
  case (Suc k)
  show ?case
  proof (cases rs)
    case Nil
    with Suc.prems(3) show ?thesis by (simp add: loop_disconnected del: short_term_loop.simps serve.simps)
  next
    case (Cons r rs')
    let ?ch = "ch\<lparr>inbuf := concat (map (request_bytes itoa beyond) rs')\<rparr>"
    have read: "read_request indet (env_beyond E) ch = Ret (r, ?ch)"
      by (rule read_request_bytes [OF _ assms(2,3)]) (use Suc.prems Cons in simp_all)
    have "obind (short_term_loop k other n indet E c ?ch t) (\<lambda>(_, s'). Ret s') =
        serve k other n E c rs' t" for t
      by (rule Suc.IH) (use Suc.prems Cons in simp_all)
    then show ?thesis
      by (simp only: short_term_loop_Suc [OF read] serve.simps Let_def Cons list.case list.sel)
  qed
qed simp

text \<open>
  C13: The loop of \<open>schedule_short_term\<close> on the bytes a program sends with the functions of hilolay
  does what the requests say, in their order: it equals the loop over the requests themselves,
  after which the program is gone; whatever the other threads of SUSE do between two passes, and
  with the same outcome in all cases, also when a request makes it wait or fail. The requests are
  those that arrive as they were sent: thread ids from 0 to 999, names of semaphores without a zero
  byte and of less than \<open>2 ^ 30\<close> bytes, ids printed in decimal with two readable bytes behind their
  text. An id from 10000 on arrives truncated, and the loop serves the truncated one.
\<close>

theorem session_served:
  assumes "list_all ok_request rs" "itoa_decimal itoa" "2 \<le> length beyond"
  shows "obind (short_term_loop k other n indet E c
      \<lparr>inbuf = concat (map (request_bytes itoa beyond) rs), broken = b, closed = False\<rparr> s)
      (\<lambda>(_, s'). Ret s') = serve k other n E c rs s"
  by (rule loop_requests [OF assms]) simp_all

theorem session_served_witness:
  "obind (short_term_loop 3 (\<lambda>_ s. s) 1 (\<lambda>_. 7) demo_env 2
      \<lparr>inbuf = concat (map (request_bytes dec_int [0, 0]) [Create 1]), broken = False,
       closed = False\<rparr> demo4) (\<lambda>(_, s'). Ret s') =
    Ret (demo5\<lparr>progs := [2 \<mapsto> (prog_a [] 3 Destroyed)\<lparr>prog_close := True\<rparr>]\<rparr>)"
proof -
  have "handle 1 demo_env 2 (Create 1) demo4 = Ret demo5" "after_request demo_env 2 demo5 = Ret demo5"
    by (rule demo_create)+
  then have "serve 3 (\<lambda>_ s. s) 1 demo_env 2 [Create 1] demo4 =
      Ret (demo5\<lparr>progs := [2 \<mapsto> (prog_a [] 3 Destroyed)\<lparr>prog_close := True\<rparr>]\<rparr>)"
    by (simp add: numeral_3_eq_3 handle_def [of _ _ _ Disconnected] after_request_def
      wakeup_threads_def set_prog_def demo_defs)
  then show ?thesis
    by (subst session_served) (simp_all add: short_tid_def itoa_decimal_def)
qed

section \<open>Semaphores wake threads up in order\<close>

text \<open>
  The run of \<open>SuseDemo\<close> goes on: the main thread waits for the semaphore, the other one runs.
\<close>

definition demo7 :: suse where
  "demo7 = demo6\<lparr>tcbs := [5 \<mapsto> thread 1 READY, 3 \<mapsto> thread 0 BLOCKED],
     progs := [2 \<mapsto> prog_a [5] NULL Destroyed], blockedList := [3],
     sems := [1 \<mapsto> sem_a\<lparr>valor := - 1, blocked := [3]\<rparr>], ticks := 7\<rparr>"

definition demo8 :: suse where
  "demo8 = demo7\<lparr>tcbs := [3 \<mapsto> thread 0 BLOCKED, 5 \<mapsto> thread 1 EXEC],
     progs := [2 \<mapsto> prog_a [] 5 Destroyed], ticks := 9\<rparr>"

lemma demo_wait: "suse_wait demo_env 0 [97] 2 demo6 = Ret demo7"
  by (simp add: suse_wait_def block_def get_semaforo_def search_defs move_defs demo7_def demo_defs
    set_sem_def fun_upd_twist)

lemma demo_full7: "full_inv 2 demo7"
  by (rule wait_keeps [OF demo_wait demo_full(3), THEN conjunct1]) (simp add: demo6_def)

lemma demo_move: "move_tcb_to demo_env 5 EXEC demo7 = Ret demo8"
  by (simp add: search_defs move_defs demo8_def demo7_def demo_defs)

lemma demo_full8: "full_inv 2 demo8"
proof -
  have "tcbs demo7 5 = Some (thread 1 READY)" by (simp add: demo7_def)
  note m = full_inv_moved_run [OF demo_full7 this, of EXEC demo_env]
  have "move_tcb_to demo_env 5 EXEC demo7 = Ret (moved demo_env 5 EXEC demo7)"
    "full_inv 2 (moved demo_env 5 EXEC demo7)"
    by (rule m; auto simp: thread_def demo7_def prog_a_def split: if_splits)+
  with demo_move show ?thesis by simp
qed

text \<open>
  C12: A semaphore wakes its threads up in the order in which they waited. A wait of the running
  thread on a semaphore with no free place blocks it at the end of the queue; a signal while
  threads are blocked takes the one at the head, which has waited longest, and puts it at the end of
  the wake-up list of its own program; other signals raise the value, up to the maximum.
\<close>

theorem semaphore_wakes_in_order:
  assumes "full_inv M s" "progs s c = Some pr" "tcbs s (exec pr) = Some e" "tid e = t"
    "get_semaforo s name = Ret m" "m \<noteq> NULL" "sems s m = Some x"
  shows "\<exists>w v. suse_wait E t name c s = Ret w \<and> suse_signal t name c s = Ret v \<and>
    full_inv M w \<and> full_inv M v \<and>
    (valor x \<le> 0 \<longrightarrow> sems w m = Some (x\<lparr>valor := valor x - 1, blocked := blocked x @ [exec pr]\<rparr>) \<and>
      in_state w BLOCKED = insert (exec pr) (in_state s BLOCKED)) \<and>
    (0 < valor x \<longrightarrow> w = set_sem m (x\<lparr>valor := valor x - 1\<rparr>) s) \<and>
    (valor x < 0 \<longrightarrow> (\<exists>q qs d dr. blocked x = q # qs \<and> progs s d = Some dr \<and>
      v = set_prog d (dr\<lparr>wakeupList := wakeupList dr @ [q], tcb_counter := tcb_counter dr + 1\<rparr>)
        (set_sem m (x\<lparr>valor := valor x + 1, blocked := qs\<rparr>) s) \<and>
      (\<exists>b. tcbs s q = Some b \<and> tcb_state b = BLOCKED \<and> tcb_socket b = prog_socket dr))) \<and>
    (0 \<le> valor x \<longrightarrow> v = set_sem m (x\<lparr>valor := min (valor x + 1) (max_value x)\<rparr>) s)"
proof -
  note inv = full_invD [OF assms(1)]
  have sem: "sem_ok x" using inv(5) assms(7) by (auto simp: sems_ok_def)
  have nn: "exec pr \<noteq> NULL"
    using heap_ok_NULL(1) [OF core_invD(1) [OF inv(1)]] assms(3) by (intro notI) simp
  have e: "tcb_state e = EXEC" using exec_tcb [OF inv(1) assms(2) nn] assms(3) by auto
  let ?w = "wait_result E m (exec pr) x s"
  note w = suse_wait_ok [OF assms, of E]
  have blocks: "sems ?w m = Some (x\<lparr>valor := valor x - 1, blocked := blocked x @ [exec pr]\<rparr>) \<and>
      in_state ?w BLOCKED = insert (exec pr) (in_state s BLOCKED)" if "valor x \<le> 0"
    using that assms(3) e
    by (simp add: wait_result_def in_state_moved [of _ _ e] moved_sel)
      (simp add: set_sem_def in_state_def)
  obtain v where v: "suse_signal t name c s = Ret v" "full_inv M v" "evolves (prog_socket pr) s v"
    "valor x < 0 \<Longrightarrow> \<exists>q qs d dr. blocked x = q # qs \<and> progs s d = Some dr \<and>
      v = woken_result m (x\<lparr>valor := valor x + 1, blocked := qs\<rparr>) d dr q s"
    "0 \<le> valor x \<Longrightarrow> v = set_sem m (x\<lparr>valor := raised x\<rparr>) s"
    by (rule suse_signal_ok [OF assms(1-5,7)]) blast
  have wakes: "\<exists>q qs d dr. blocked x = q # qs \<and> progs s d = Some dr \<and>
      v = set_prog d (dr\<lparr>wakeupList := wakeupList dr @ [q], tcb_counter := tcb_counter dr + 1\<rparr>)
        (set_sem m (x\<lparr>valor := valor x + 1, blocked := qs\<rparr>) s) \<and>
      (\<exists>b. tcbs s q = Some b \<and> tcb_state b = BLOCKED \<and> tcb_socket b = prog_socket dr)"
    if neg: "valor x < 0"
  proof -
    obtain q qs d dr where q: "blocked x = q # qs" "progs s d = Some dr"
      and r: "v = woken_result m (x\<lparr>valor := valor x + 1, blocked := qs\<rparr>) d dr q s"
      using v(4) [OF neg] by blast
    have "q \<in> in_state s BLOCKED"
      by (rule waits_mem [OF inv(2), of q "OnSem m"]) (simp add: assms(7) q(1))
    moreover have "\<exists>b. tcbs v q = Some b \<and> tcb_socket b = prog_socket dr"
      using full_invD(4) [OF v(2)] unfolding wakeup_ok_def
      by (drule_tac x = d in spec) (simp add: r woken_result_def)
    ultimately show ?thesis
      using q r by (intro exI [of _ q] exI [of _ qs] exI [of _ d] exI [of _ dr])
        (auto simp: in_state_def woken_result_def)
  qed
  have "raised x = min (valor x + 1) (max_value x)" if "0 \<le> valor x"
    using sem that by (auto simp: raised_def sem_ok_def)
  then have raises: "0 \<le> valor x \<longrightarrow> v = set_sem m (x\<lparr>valor := min (valor x + 1) (max_value x)\<rparr>) s"
    using v(5) by simp
  have "0 < valor x \<longrightarrow> ?w = set_sem m (x\<lparr>valor := valor x - 1\<rparr>) s" by (simp add: wait_result_def)
  with w(1,2) v(1,2) blocks wakes raises show ?thesis
    by (intro exI [of _ ?w] exI [of _ v]) blast
qed

theorem semaphore_wakes_in_order_witness:
  "\<exists>w v. suse_wait demo_env 1 [97] 2 demo8 = Ret w \<and> suse_signal 1 [97] 2 demo8 = Ret v \<and>
    sems w 1 = Some (sem_a\<lparr>valor := - 2, blocked := [3, 5]\<rparr>) \<and>
    v = set_prog 2 ((prog_a [] 5 Destroyed)\<lparr>wakeupList := [3], tcb_counter := 1\<rparr>)
      (set_sem 1 (sem_a\<lparr>valor := 0, blocked := []\<rparr>) demo8)"
proof -
  let ?x = "sem_a\<lparr>valor := - 1, blocked := [3]\<rparr>"
  have p: "progs demo8 d = (if d = 2 then Some (prog_a [] 5 Destroyed) else None)" for d
    by (simp add: demo8_def)
  have "get_semaforo demo8 [97] = Ret 1"
    by (simp add: get_semaforo_def demo8_def demo7_def demo_defs)
  from semaphore_wakes_in_order [OF demo_full8 _ _ _ this, of 2 "prog_a [] 5 Destroyed"
      "thread 1 EXEC" 1 ?x demo_env]
  show ?thesis
    by (fastforce simp: p demo8_def demo7_def demo_defs split: if_splits)
qed

section \<open>Closing a thread\<close>

text \<open>
  C30: When the running thread closes itself, \<open>suse_close\<close> returns; the thread is in the state EXIT
  and its program runs nothing; every thread that had joined it is ready; and its end and its
  metrics are logged, once.
\<close>

theorem close_wakes_joined:
  assumes "full_inv M s" "progs s c = Some pr" "tcbs s (exec pr) = Some e" "tid e = t"
  shows "\<exists>s' pr' x l. suse_close E t c s = Ret s' \<and> full_inv M s' \<and> progs s' c = Some pr' \<and>
    exec pr' = NULL \<and> tcbs s' (exec pr) = Some x \<and> tcb_state x = EXIT \<and>
    (\<forall>q \<in> set (joined e). \<exists>y. tcbs s' q = Some y \<and> tcb_state y = READY) \<and>
    mlog s' = mlog s @ [ThreadFinished, ThreadMetric l] \<and> m_tid l = t"
  by (rule suse_close_ok [OF assms, of E]) blast

theorem close_wakes_joined_witness:
  "\<exists>s' pr' x l. suse_close demo_env 1 2 demo8 = Ret s' \<and> full_inv 2 s' \<and> progs s' 2 = Some pr' \<and>
    exec pr' = NULL \<and> tcbs s' 5 = Some x \<and> tcb_state x = EXIT \<and>
    mlog s' = mlog demo8 @ [ThreadFinished, ThreadMetric l] \<and> m_tid l = 1"
proof -
  have "progs demo8 2 = Some (prog_a [] 5 Destroyed)" "exec (prog_a [] 5 Destroyed) = 5"
    "tcbs demo8 5 = Some (thread 1 EXEC)" "tid (thread 1 EXEC) = 1"
    by (simp_all add: demo8_def prog_a_def thread_def)
  with close_wakes_joined [OF demo_full8, of 2 "prog_a [] 5 Destroyed" "thread 1 EXEC" 1 demo_env]
  show ?thesis by metis
qed

section \<open>Joining oneself\<close>

text \<open>
  C31: A thread that joins itself keeps the scheduler of its program in the loop of \<open>suse_join\<close> for
  ever: the loop looks for it among the ready, the ended and the blocked threads only, and it is
  running. No number of passes is enough, whatever the other threads of SUSE do meanwhile that
  leaves this program's thread running (they change neither its state nor its program).
\<close>

theorem self_join_never_returns:
  assumes "full_inv M s" "progs s c = Some pr" "tcbs s (exec pr) = Some e" "tid e = t"
    "\<And>k s. join_stuck M t c s \<Longrightarrow> join_stuck M t c (other k s)"
  shows "suse_join n other E t c s = OutOfFuel"
  by (rule join_never_returns [OF self_join_stuck [OF assms(1-4)] assms(5)])

theorem self_join_never_returns_witness:
  "suse_join 1000 (\<lambda>_ s. s) demo_env 1 2 demo8 = OutOfFuel"
  by (rule self_join_never_returns [OF demo_full8, of 2 "prog_a [] 5 Destroyed" "thread 1 EXEC"])
    (simp_all add: demo8_def prog_a_def thread_def)

section \<open>An admission in the middle of a move\<close>

lemma enter_state_full:
  assumes "progs_ok (progs s) (clientes s)" "tcbs s p = Some a" "progs s c = Some pr"
    "prog_socket pr = tcb_socket a" "available_multiprog s = 0"
  shows "enter_state E p READY s = Hang"
proof -
  define b k where bk: "b = fst (set_state_start_timing (tod E) READY (tcb_time a) (ticks s))"
    "k = snd (set_state_start_timing (tod E) READY (tcb_time a) (ticks s))"
  define s1 where "s1 = (set_tcb p (a\<lparr>tcb_time := b\<rparr>) s)\<lparr>ticks := k\<rparr>"
  have "get_program s1 (tcb_socket a) = Ret c"
    using assms(1,3,4) by (intro get_program_mem(1)) (auto simp: s1_def set_tcb_def)
  moreover have "tcbs s1 p = Some (a\<lparr>tcb_time := b\<rparr>)" "progs s1 c = Some pr"
    using assms(3) by (simp_all add: s1_def set_tcb_def)
  ultimately have "obind (program_add_tcb_to_state p READY s1) increase_multiprog = Hang"
    using assms(5) by (simp add: program_add_tcb_to_state_def set_prog_def increase_multiprog_def
      s1_def set_tcb_def)
  then show ?thesis
    using assms(2) by (simp add: enter_state_def Let_def case_prod_beta s1_def bk)
qed

lemma move_new_full:
  assumes "core_inv M s" "tcbs s q = Some a" "tcb_state a = NEW" "available_multiprog s = 0"
  shows "move_tcb_to E q READY s = Hang"
proof -
  note inv = core_invD [OF assms(1)]
  obtain c pr where c: "progs s c = Some pr" "prog_socket pr = tcb_socket a"
    by (rule owner [OF assms(1,2)])
  have "get_program_id s (tcb_socket a) = Ret (prog_id pr)"
    by (rule get_program_mem [OF inv(3) c])
  moreover have l: "leave_state E q s = Ret (left_state E q a c pr s)"
    by (rule leave_state_eq [OF assms(1,2) c])
  moreover have "enter_state E q READY (left_state E q a c pr s) = Hang"
    using progs_ok_upd [OF inv(3) c(1), of "unprog NEW q pr"] assms(3,4) c(2)
    by (intro enter_state_full [where c = c and pr = "unprog NEW q pr"])
      (auto simp: left_state_def set_new_timings_for_other unprog_def)
  ultimately show ?thesis using assms(2,3) by (simp add: move_tcb_to_def)
qed

text \<open>
  C32: \<open>check_multiprog\<close> does not keep the place it has seen. \<open>move_tcb_to\<close> gives the place of an
  active thread back before it takes one again; when the degree of multiprogramming is exhausted and
  the long-term scheduler looks just then, \<open>check_multiprog\<close> passes. Once the move has ended there is
  no place again, and the scheduler's own move of a new thread waits for one while it holds
  \<open>state_list_mutex\<close>, without which no other move can give one back.
\<close>

theorem admission_race_hangs:
  assumes "full_inv M s" "available_multiprog s = 0" "tcbs s p = Some a"
    "tcb_state a = EXEC" "st = READY \<or> st = BLOCKED" "q \<in> set (newList s)"
  shows "\<exists>mid fin. leave_state E p s = Ret mid \<and> check_multiprog mid = Ret mid \<and>
    move_tcb_to E p st s = Ret fin \<and> available_multiprog fin = 0 \<and> q \<in> set (newList fin) \<and>
    move_tcb_to E q READY fin = Hang"
proof -
  note inv = full_invD [OF assms(1)]
  obtain c pr where c: "progs s c = Some pr" "prog_socket pr = tcb_socket a"
    by (rule owner [OF inv(1) assms(3)])
  let ?mid = "left_state E p a c pr s" and ?fin = "moved E p st s"
  have act: "active st" "st \<noteq> EXEC" using assms(5) by auto
  have sel: "available_multiprog ?fin = 0" "newList ?fin = newList s"
    using assms(2,3,4) act by (auto simp: moved_sel [OF assms(3)] relist_def)
  obtain b where b: "tcbs s q = Some b" "tcb_state b = NEW"
    using core_invD(5) [OF inv(1)] assms(6) by (auto simp: lists_ok_def listed_def in_state_def)
  then have "tcbs ?fin q = Some b"
    using assms(3,4) act moved_sel(1) [OF assms(3), of st E] by auto
  moreover have "core_inv M ?fin"
    by (rule core_inv_moved [OF inv(1) assms(3)]) (use assms(4) act in auto)
  ultimately have "move_tcb_to E q READY ?fin = Hang" using b(2) sel(1) by (rule_tac move_new_full)
  moreover have "leave_state E p s = Ret ?mid" by (rule leave_state_eq [OF inv(1) assms(3) c])
  moreover have "check_multiprog ?mid = Ret ?mid"
    using assms(4) by (simp add: check_multiprog_def left_state_def case_prod_beta)
  moreover have "move_tcb_to E p st s = Ret ?fin"
    by (rule move_refines [OF inv(1) assms(3)]) (use assms(4) in simp)
  ultimately show ?thesis using sel assms(6) by (intro exI [of _ ?mid] exI [of _ ?fin]) simp
qed

definition demo9 :: suse where
  "demo9 = demo6\<lparr>tcbs := [3 \<mapsto> thread 0 EXEC, 5 \<mapsto> thread 1 READY, 7 \<mapsto> thread 2 NEW],
     newList := [7], new_counter := 1, ticks := 7, mallocs := 8\<rparr>"

lemma demo_create9: "create_tcb demo_env 5 2 demo6 = Ret (7, demo9)"
  by (simp add: create_tcb_def alloc_def search_defs set_tcb_def demo9_def demo_defs)

lemma demo_full9: "full_inv 2 demo9"
proof -
  have p: "progs demo6 2 = Some (prog_a [5] 3 Destroyed)" by (simp add: demo6_def)
  have "fresh_key demo6 2 5" by (simp add: fresh_key_def demo_defs)
  then show ?thesis
    by (cases rule: create_tcb_ok [OF demo_full(3) p, of 5 2 demo_env])
      (use demo_create9 in \<open>simp_all add: prog_a_def\<close>)
qed

theorem admission_race_hangs_witness:
  "\<exists>mid fin. leave_state demo_env 3 demo9 = Ret mid \<and> check_multiprog mid = Ret mid \<and>
    move_tcb_to demo_env 3 BLOCKED demo9 = Ret fin \<and> available_multiprog fin = 0 \<and>
    7 \<in> set (newList fin) \<and> move_tcb_to demo_env 7 READY fin = Hang"
  by (rule admission_race_hangs [OF demo_full9, of 3 "thread 0 EXEC"])
    (simp_all add: demo9_def demo6_def demo5_def thread_def)

end
