(* ===== verification/SuseSafe.thy ===== *)
theory SuseSafe
  imports SuseSession
begin

text \<open>
  Requests that do not go wrong: in a state that satisfies the invariant, a request that is well
  placed - its program runs a thread where one is needed, the semaphore exists, a new id is new and
  there is memory for it - never faults, and when it is handled the invariant holds again.
\<close>

section \<open>Well-placed requests\<close>

definition well_placed :: "suse_env \<Rightarrow> t_program \<Rightarrow> request \<Rightarrow> suse \<Rightarrow> bool" where
  "well_placed E pr r s =
     (case r of
        Create t \<Rightarrow> t \<noteq> 0 \<and> fresh_key s t (prog_socket pr) \<and> \<not> oom E (mallocs s) \<and>
          \<not> oom E (Suc (mallocs s))
      | ScheduleNext \<Rightarrow> exec pr \<noteq> NULL \<or>
          (\<exists>p \<in> set (ready pr). est (alpha_sjf E) (tcbs s) p < FLT_MAX)
      | Wait t name \<Rightarrow> exec pr \<noteq> NULL \<and> get_semaforo s name \<noteq> Ret NULL
      | Signal t name \<Rightarrow> exec pr \<noteq> NULL \<and> get_semaforo s name \<noteq> Ret NULL
      | Join t \<Rightarrow> exec pr \<noteq> NULL
      | Close t \<Rightarrow> exec pr \<noteq> NULL
      | _ \<Rightarrow> True)"

lemma obind_Fault_iff: "obind m f = Fault \<longleftrightarrow> m = Fault \<or> (\<exists>x. m = Ret x \<and> f x = Fault)"
  by (cases m) auto

text \<open>What is not a fault when the semaphore exists.\<close>

lemma get_semaforo_known:
  assumes "sems_ok s" "get_semaforo s name \<noteq> Ret NULL"
  obtains m x where "get_semaforo s name = Ret m" "m \<noteq> NULL" "sems s m = Some x"
  using get_semaforo_from_cases [of "semaforos s" "sems s" name] assms
  by (auto simp: get_semaforo_def sems_ok_def)

lemma suse_join_progress:
  assumes "full_inv M s" "progs s c = Some pr" "exec pr \<noteq> NULL"
  shows "suse_join n (\<lambda>_ s. s) E t c s \<noteq> Fault"
  using assms
proof (induction n arbitrary: s pr)
  case (Suc n)
  show ?case
  proof (cases rule: suse_join_pass_ok [OF Suc.prems(1,2), of t E])
    case (1 p a)
    with join_found_ok [OF Suc.prems 1(1,4), of E] show ?thesis by simp
  next
    case 2
    then show ?thesis by simp
  next
    case (3 s1 b)
    obtain s1' where "wakeup_threads E c s = Ret (wakeupList pr \<noteq> [], s1')" "full_inv M s1'"
      "progs s1' = (progs s)(c \<mapsto>
        pr\<lparr>wakeupList := odds (wakeupList pr), ready := ready pr @ evens (wakeupList pr)\<rparr>)"
      by (rule wakeup_threads_ok [OF Suc.prems(1,2)])
    with Suc.IH [of s1'] 3 Suc.prems(3) show ?thesis by simp
  qed
qed simp

lemma handle_progress:
  assumes "full_inv M s" "progs s c = Some pr" "env_ok E" "well_placed E pr r s" "0 < n"
  shows "handle n E c r s \<noteq> Fault"
proof -
  note inv = full_invD [OF assms(1)]
  obtain k where n: "n = Suc k" using assms(5) by (cases n) auto
  have running: "\<exists>e. tcbs s (exec pr) = Some e" if "exec pr \<noteq> NULL"
    using exec_tcb [OF inv(1) assms(2) that] by metis
  show ?thesis
  proof (cases r)
    case (Create t)
    with assms(2,4) show ?thesis
      by (cases rule: create_tcb_ok [OF assms(1,2) refl, of t E])
        (auto simp: well_placed_def handle_def)
  next
    case ScheduleNext
    with assms(4) have "ready pr \<noteq> [] \<or> exec pr \<noteq> NULL" by (auto simp: well_placed_def)
    then have "schedule_next_for (Suc k) E c s \<noteq> Fault"
    proof (cases rule: schedule_body [OF assms(1,2), where E = E and n = k, consumes 1])
      case (1 s2 pr2 e)
      with notify_bytes_ok [OF assms(3), of "tid e"] show ?thesis
        by (auto simp: notify_program_def)
    next
      case 2
      have "tcbs s NULL = None" by (rule heap_ok_NULL) (rule core_invD [OF inv(1)])
      then have "limit E pr s = FLT_MAX" using 2(2) by (simp add: limit_def)
      with 2 assms(4) ScheduleNext show ?thesis by (fastforce simp: well_placed_def)
    qed
    with ScheduleNext assms(2) n show ?thesis by (simp add: handle_def del: schedule_next_for.simps)
  next
    case (Wait t name)
    with assms(4) running obtain e where e: "tcbs s (exec pr) = Some e" by (auto simp: well_placed_def)
    obtain m x where "get_semaforo s name = Ret m" "m \<noteq> NULL" "sems s m = Some x"
      using get_semaforo_known [OF inv(5), of name] assms(4) Wait by (auto simp: well_placed_def)
    note w = suse_wait_ok(1) [OF assms(1,2) e _ this, of _ E]
    show ?thesis
      using Wait assms(2) e w by (cases "tid e = t") (auto simp: handle_def suse_wait_def)
  next
    case (Signal t name)
    with assms(4) running obtain e where e: "tcbs s (exec pr) = Some e" by (auto simp: well_placed_def)
    obtain m x where m: "get_semaforo s name = Ret m" "m \<noteq> NULL" "sems s m = Some x"
      using get_semaforo_known [OF inv(5), of name] assms(4) Signal by (auto simp: well_placed_def)
    show ?thesis
    proof (cases "tid e = t")
      case True
      obtain s' where "suse_signal t name c s = Ret s'"
        by (rule suse_signal_ok [OF assms(1,2) e True m(1,3)])
      with Signal assms(2) show ?thesis by (simp add: handle_def)
    qed (use Signal assms(2) e in \<open>simp add: handle_def suse_signal_def\<close>)
  next
    case (Join t)
    with assms suse_join_progress [OF assms(1,2)] show ?thesis
      by (simp add: handle_def well_placed_def)
  next
    case (Close t)
    with assms(4) running obtain e where e: "tcbs s (exec pr) = Some e" by (auto simp: well_placed_def)
    show ?thesis
    proof (cases "tid e = t")
      case True
      obtain s' where "suse_close E t c s = Ret s'" by (rule suse_close_ok [OF assms(1,2) e True])
      with Close assms(2) show ?thesis by (simp add: handle_def)
    qed (use Close assms(2) e in \<open>simp add: handle_def suse_close_def\<close>)
  qed (use assms(2) in \<open>simp_all add: handle_def\<close>)
qed

text \<open>The invariant after a request and what follows it.\<close>

lemma handle_preserves:
  assumes "full_inv M s" "progs s c = Some pr" "well_placed E pr r s" "handle n E c r s = Ret s1"
  shows "full_inv M s1 \<and> (\<exists>pr1. progs s1 c = Some pr1)"
proof (cases "\<exists>t. r = Create t")
  case True
  then obtain t where r: "r = Create t" ..
  with assms(3) have t: "t \<noteq> 0" "fresh_key s t (prog_socket pr)" "\<not> oom E (mallocs s)"
    "\<not> oom E (Suc (mallocs s))"
    by (simp_all add: well_placed_def)
  show ?thesis
    by (cases rule: create_tcb_ok [OF assms(1,2) refl t(2), of E])
      (use t r assms(2,4) in \<open>auto simp: handle_def\<close>)
next
  case False
  with handle_keeps [OF assms(4) _ assms(1,2)]
  have k: "full_inv M s1" "evolves (prog_socket pr) s s1" by simp_all
  show ?thesis by (rule evolves_prog [OF k(2) assms(2)]) (use k(1) in blast)
qed

lemma after_returns:
  assumes "full_inv M s" "progs s c = Some pr"
  obtains s' where "after_request E c s = Ret s'" "full_inv M s'"
proof -
  obtain s1 where "wakeup_threads E c s = Ret (wakeupList pr \<noteq> [], s1)"
    "progs s1 = (progs s)(c \<mapsto>
      pr\<lparr>wakeupList := odds (wakeupList pr), ready := ready pr @ evens (wakeupList pr)\<rparr>)"
    by (rule wakeup_threads_ok [OF assms])
  then have "\<exists>s'. after_request E c s = Ret s'" by (simp add: after_request_def)
  then obtain s' where s': "after_request E c s = Ret s'" ..
  with after_keeps [OF s' assms] that show thesis by blast
qed

text \<open>
  C14: Well-placed requests do not go wrong. In a reachable state the handler of such a request never
  dereferences a null or dangling pointer, reads outside a list or uses a destroyed mutex; and when
  it returns, what the loop does after it returns too, in a state that satisfies the invariant.
\<close>

theorem requests_do_not_go_wrong:
  assumes "reach E M cfs s" "config_ok E cfs" "progs s c = Some pr" "env_ok E"
    "well_placed E pr r s" "0 < n"
  shows "handle n E c r s \<noteq> Fault \<and> (\<forall>s1. handle n E c r s = Ret s1 \<longrightarrow>
    full_inv M s1 \<and> (\<exists>s'. after_request E c s1 = Ret s' \<and> full_inv M s'))"
proof -
  have full: "full_inv M s" using reach_inv [OF assms(1,2)] by (simp add: sys_inv_def)
  have "full_inv M s1 \<and> (\<exists>s'. after_request E c s1 = Ret s' \<and> full_inv M s')"
    if "handle n E c r s = Ret s1" for s1
    using handle_preserves [OF full assms(3,5) that] after_returns by metis
  then show ?thesis using handle_progress [OF full assms(3-6)] by blast
qed

theorem requests_do_not_go_wrong_witness:
  "handle 1 demo_env 2 (Wait 0 [97]) demo6 \<noteq> Fault \<and> full_inv 2 demo7 \<and>
    (\<exists>s'. after_request demo_env 2 demo7 = Ret s' \<and> full_inv 2 s')"
proof -
  let ?pr = "prog_a [5] 3 Destroyed"
  have p: "progs demo6 2 = Some ?pr" by (simp add: demo6_def)
  have "get_semaforo demo6 [97] = Ret 1" by (simp add: get_semaforo_def demo_defs)
  then have w: "well_placed demo_env ?pr (Wait 0 [97]) demo6"
    by (simp add: well_placed_def prog_a_def)
  have e: "env_ok demo_env" by (simp add: env_ok_def)
  have "handle 1 demo_env 2 (Wait 0 [97]) demo6 = Ret demo7"
    using demo_wait p by (simp add: handle_def)
  with requests_do_not_go_wrong [OF demo_reach6 demo_config p e w, of 1] show ?thesis by simp
qed

end
