(* ===== verification/SuseDestroy.thy ===== *)
theory SuseDestroy
  imports SuseSession
begin

text \<open>
  What SUSE gives back when it ends: the destructors of \<^verbatim>\<open>planificacion/suse/suse_scheduler.c\<close>.
  A freed block leaves its heap, so that a later access to it, or freeing it again, is a fault.
  \<open>destroy_lists\<close>, which has the library clean \<open>clientes\<close> with a destructor that removes elements
  from the same list, is not modelled: what comes of that is the library's.
\<close>

section \<open>The destructors\<close>

definition destroy_tcb :: "ptr \<Rightarrow> suse \<Rightarrow> suse outcome" where
  "destroy_tcb p s =
     obind (deref (tcbs s) p) (\<lambda>_. Ret (s\<lparr>tcbs := (tcbs s)(p := None)\<rparr>))"

text \<open>\<open>list_destroy_and_destroy_elements\<close> with that destructor.\<close>

fun destroy_tcbs :: "ptr list \<Rightarrow> suse \<Rightarrow> suse outcome" where
  "destroy_tcbs [] s = Ret s"
| "destroy_tcbs (p # ps) s = obind (destroy_tcb p s) (destroy_tcbs ps)"

definition destroy_semaforo :: "ptr \<Rightarrow> suse \<Rightarrow> suse outcome" where
  "destroy_semaforo m s =
     obind (deref (sems s) m) (\<lambda>semaforo.
     obind (destroy_tcbs (blocked semaforo) s) (\<lambda>s1. Ret (s1\<lparr>sems := (sems s1)(m := None)\<rparr>)))"

text \<open>
  The two loops of \<open>list_remove_and_destroy_all_tcb_from_program\<close>: the positions of the program's
  threads, as texts, and the removal from the last position to the first.
\<close>

fun tcb_positions ::
  "(int \<Rightarrow> string) \<Rightarrow> (ptr \<Rightarrow> t_tcb option) \<Rightarrow> int \<Rightarrow> int \<Rightarrow> ptr list \<Rightarrow> byte list list outcome" where
  "tcb_positions itoa h sock i [] = Ret []"
| "tcb_positions itoa h sock i (p # ps) =
     obind (deref h p) (\<lambda>tcb.
     obind (tcb_positions itoa h sock (i + 1) ps) (\<lambda>pos.
       Ret (if tcb_socket tcb = sock then c_string (itoa i) # pos else pos)))"

fun remove_positions :: "byte list list \<Rightarrow> ptr list \<Rightarrow> suse \<Rightarrow> (ptr list \<times> suse) outcome" where
  "remove_positions [] lista s = Ret (lista, s)"
| "remove_positions (t # ts) lista s =
     obind (atoi t) (\<lambda>i.
     obind (list_remove lista i) (\<lambda>(p, lista1).
     obind (destroy_tcb p s) (\<lambda>s1. remove_positions ts lista1 s1)))"

definition list_remove_and_destroy_all_tcb_from_program ::
  "(int \<Rightarrow> string) \<Rightarrow> ptr list \<Rightarrow> int \<Rightarrow> suse \<Rightarrow> (ptr list \<times> suse) outcome" where
  "list_remove_and_destroy_all_tcb_from_program itoa lista sock s =
     obind (tcb_positions itoa (tcbs s) sock 0 lista) (\<lambda>pos. remove_positions (rev pos) lista s)"

text \<open>The semaphores' queues, one after the other.\<close>

fun remove_from_sems :: "(int \<Rightarrow> string) \<Rightarrow> int \<Rightarrow> ptr list \<Rightarrow> suse \<Rightarrow> suse outcome" where
  "remove_from_sems itoa sock [] s = Ret s"
| "remove_from_sems itoa sock (m # ms) s =
     obind (deref (sems s) m) (\<lambda>sem.
     obind (list_remove_and_destroy_all_tcb_from_program itoa (blocked sem) sock s) (\<lambda>(l, s1).
       remove_from_sems itoa sock ms (s1\<lparr>sems := (sems s1)(m \<mapsto> sem\<lparr>blocked := l\<rparr>)\<rparr>)))"

text \<open>
  The last loop: the first program of \<open>clientes\<close> on the socket. Without one, \<open>list_remove\<close> gets the
  size of the list.
\<close>

fun remove_client :: "(ptr \<Rightarrow> t_program option) \<Rightarrow> int \<Rightarrow> ptr list \<Rightarrow> ptr list outcome" where
  "remove_client h sock [] = Fault"
| "remove_client h sock (c # cs) =
     obind (deref h c) (\<lambda>aux.
       if prog_socket aux = sock then Ret cs
       else obind (remove_client h sock cs) (\<lambda>l. Ret (c # l)))"

text \<open>
  \<open>destroy_program\<close>; the program itself is not freed. Its lists are, which is written here as
  empty lists; \<open>exec\<close> keeps pointing to the freed thread.
\<close>

definition destroy_program :: "(int \<Rightarrow> string) \<Rightarrow> ptr \<Rightarrow> suse \<Rightarrow> suse outcome" where
  "destroy_program itoa c s =
     obind (deref (progs s) c) (\<lambda>program.
       let sock = prog_socket program; drop_from = list_remove_and_destroy_all_tcb_from_program itoa in
     obind (drop_from (newList s) sock s) (\<lambda>(l, s1).
     obind (destroy_tcbs (ready program) (s1\<lparr>newList := l\<rparr>)) (\<lambda>s2.
     obind (if exec program \<noteq> NULL then destroy_tcb (exec program) s2 else Ret s2) (\<lambda>s3.
     obind (drop_from (blockedList s3) sock s3) (\<lambda>(l, s4).
     obind (drop_from (exitList s4) sock (s4\<lparr>blockedList := l\<rparr>)) (\<lambda>(l, s5).
     obind (destroy_tcbs (wakeupList program) (s5\<lparr>exitList := l\<rparr>)) (\<lambda>s6.
     obind (remove_from_sems itoa sock (semaforos s6) s6) (\<lambda>s7.
     obind (remove_client (progs s7) sock (clientes s7)) (\<lambda>l.
       Ret (set_prog c (program\<lparr>prog_close := True, ready := [], wakeupList := []\<rparr>)
         (s7\<lparr>clientes := l\<rparr>)))))))))))"

section \<open>Freeing sets of threads\<close>

definition freed :: "ptr set \<Rightarrow> suse \<Rightarrow> suse" where
  "freed D s = s\<lparr>tcbs := (\<lambda>p. if p \<in> D then None else tcbs s p)\<rparr>"

lemma freed_sel [simp]:
  "tcbs (freed D s) = (\<lambda>p. if p \<in> D then None else tcbs s p)" "progs (freed D s) = progs s"
  "sems (freed D s) = sems s" "clientes (freed D s) = clientes s"
  "semaforos (freed D s) = semaforos s" "newList (freed D s) = newList s"
  "blockedList (freed D s) = blockedList s" "exitList (freed D s) = exitList s"
  by (simp_all add: freed_def)

lemma freed_freed [simp]: "freed D (freed D' s) = freed (D \<union> D') s"
  by (auto simp: freed_def intro!: suse.equality)

lemma freed_empty [simp]: "freed {} s = s"
  by (simp add: freed_def)

lemma freed_commute [simp]:
  "(freed D s)\<lparr>newList := l\<rparr> = freed D (s\<lparr>newList := l\<rparr>)"
  "(freed D s)\<lparr>blockedList := l\<rparr> = freed D (s\<lparr>blockedList := l\<rparr>)"
  "(freed D s)\<lparr>exitList := l\<rparr> = freed D (s\<lparr>exitList := l\<rparr>)"
  "(freed D s)\<lparr>sems := h\<rparr> = freed D (s\<lparr>sems := h\<rparr>)"
  "(freed D s)\<lparr>clientes := cs\<rparr> = freed D (s\<lparr>clientes := cs\<rparr>)"
  by (auto simp: freed_def intro!: suse.equality)

lemma destroy_tcb_freed: "tcbs s p \<noteq> None \<Longrightarrow> destroy_tcb p s = Ret (freed {p} s)"
  by (auto simp: destroy_tcb_def freed_def fun_upd_def intro!: suse.equality)

lemma destroy_tcb_dead: "tcbs s p = None \<Longrightarrow> destroy_tcb p s = Fault"
  by (simp add: destroy_tcb_def deref_def)

lemma destroy_tcbs_freed:
  "distinct ps \<Longrightarrow> \<forall>p \<in> set ps. tcbs s p \<noteq> None \<Longrightarrow> destroy_tcbs ps s = Ret (freed (set ps) s)"
proof (induction ps arbitrary: s)
  case (Cons p ps)
  have "destroy_tcbs ps (freed {p} s) = Ret (freed (set ps) (freed {p} s))"
    by (rule Cons.IH) (use Cons.prems in auto)
  with Cons.prems show ?case by (simp add: destroy_tcb_freed)
qed simp

abbreviation of_sock :: "(ptr \<Rightarrow> t_tcb option) \<Rightarrow> int \<Rightarrow> ptr \<Rightarrow> bool" where
  "of_sock h sock p \<equiv> (\<exists>a. h p = Some a \<and> tcb_socket a = sock)"

definition matches_at :: "('a \<Rightarrow> bool) \<Rightarrow> 'a list \<Rightarrow> nat list" where
  "matches_at P xs = filter (\<lambda>k. P (xs ! k)) [0..<length xs]"

lemma matches_at_simps:
  "matches_at P [] = []"
  "matches_at P (x # xs) = (if P x then [0] else []) @ map Suc (matches_at P xs)"
  "matches_at P (xs @ [x]) = matches_at P xs @ (if P x then [length xs] else [])"
proof -
  have "[0..<length (x # xs)] = 0 # map Suc [0..<length xs]"
    by (simp add: map_Suc_upt upt_conv_Cons del: upt_Suc)
  then show "matches_at P (x # xs) = (if P x then [0] else []) @ map Suc (matches_at P xs)"
    by (simp add: matches_at_def filter_map comp_def del: upt_Suc)
  have "filter (\<lambda>k. P ((xs @ [x]) ! k)) [0..<length xs] = filter (\<lambda>k. P (xs ! k)) [0..<length xs]"
    by (rule filter_cong) (simp_all add: nth_append)
  then show "matches_at P (xs @ [x]) = matches_at P xs @ (if P x then [length xs] else [])"
    by (simp add: matches_at_def)
qed (simp add: matches_at_def)

lemma tcb_positions_eq:
  assumes "itoa_decimal itoa" "\<forall>p \<in> set ps. h p \<noteq> None"
  shows "tcb_positions itoa h sock i ps =
    Ret (map (\<lambda>k. c_string (dec_int (i + int k))) (matches_at (of_sock h sock) ps))"
  using assms(2)
proof (induction ps arbitrary: i)
  case (Cons p ps)
  from Cons.prems obtain a where a: "h p = Some a" by auto
  have "tcb_positions itoa h sock (i + 1) ps =
      Ret (map (\<lambda>k. c_string (dec_int (i + 1 + int k))) (matches_at (of_sock h sock) ps))"
    by (rule Cons.IH) (use Cons.prems in simp)
  moreover have "itoa = dec_int" using assms(1) by (auto simp: itoa_decimal_def)
  ultimately show ?case using a by (simp add: matches_at_simps comp_def add.assoc)
qed (simp add: matches_at_simps)

lemma tcb_positions_dead:
  "p \<in> set ps \<Longrightarrow> h p = None \<Longrightarrow> tcb_positions itoa h sock i ps = Fault"
proof (induction ps arbitrary: i)
  case (Cons q ps)
  then show ?case by (cases "h q") (auto simp: deref_def)
qed simp

lemma remove_positions_eq:
  assumes "distinct xs" "\<forall>p \<in> set xs. tcbs s p \<noteq> None" "length xs < 2 ^ 31"
  shows "remove_positions (rev (map (\<lambda>k. c_string (dec_int (int k))) (matches_at P xs))) (xs @ ys) s =
    Ret (filter (\<lambda>p. \<not> P p) xs @ ys, freed {p \<in> set xs. P p} s)"
  using assms
proof (induction xs arbitrary: ys s rule: rev_induct)
  case (snoc x xs)
  show ?case
  proof (cases "P x")
    case False
    with snoc.IH [of s "x # ys"] snoc.prems show ?thesis
      by (simp add: matches_at_simps conj_disj_distribR Collect_disj_eq cong: conj_cong)
  next
    case True
    have "atoi (c_string (dec_int (int (length xs)))) = Ret (int (length xs))"
      using atoi_dec_int [of "int (length xs)" "[]"] snoc.prems(3) by simp
    moreover have "remove_positions (rev (map (\<lambda>k. c_string (dec_int (int k))) (matches_at P xs)))
        (xs @ ys) (freed {x} s) =
        Ret (filter (\<lambda>p. \<not> P p) xs @ ys, freed {p \<in> set xs. P p} (freed {x} s))"
      by (rule snoc.IH) (use snoc.prems in auto)
    moreover have "{p \<in> set xs. P p} \<union> {x} = {p \<in> set (xs @ [x]). P p}" using True by auto
    moreover have "destroy_tcb x s = Ret (freed {x} s)"
      by (rule destroy_tcb_freed) (use snoc.prems(2) in auto)
    ultimately show ?thesis
      using True by (simp add: matches_at_simps list_remove_def del: set_append)
  qed
qed (simp add: matches_at_simps)

lemma remove_all_eq:
  assumes "itoa_decimal itoa" "distinct xs" "\<forall>p \<in> set xs. tcbs s p \<noteq> None" "length xs < 2 ^ 31"
  shows "list_remove_and_destroy_all_tcb_from_program itoa xs sock s =
    Ret (filter (\<lambda>p. \<not> of_sock (tcbs s) sock p) xs, freed {p \<in> set xs. of_sock (tcbs s) sock p} s)"
  using remove_positions_eq [OF assms(2-4), of "of_sock (tcbs s) sock" "[]"]
  by (simp add: list_remove_and_destroy_all_tcb_from_program_def tcb_positions_eq [OF assms(1,3)])

lemma remove_all_dead:
  "p \<in> set xs \<Longrightarrow> tcbs s p = None \<Longrightarrow>
    list_remove_and_destroy_all_tcb_from_program itoa xs sock s = Fault"
  by (simp add: list_remove_and_destroy_all_tcb_from_program_def tcb_positions_dead)

section \<open>Destroying a program\<close>

lemma remove_listed:
  assumes "itoa_decimal itoa" "listed s st xs" "finite (dom (tcbs s))" "card (dom (tcbs s)) < 2 ^ 31"
    "D \<inter> in_state s st = {}" "tcbs s1 = tcbs s"
  shows "list_remove_and_destroy_all_tcb_from_program itoa xs sock (freed D s1) =
    Ret (filter (\<lambda>p. \<not> of_sock (tcbs s) sock p) xs, freed (D \<union> members s st sock) s1)"
proof -
  let ?h = "tcbs (freed D s1)"
  have xs: "distinct xs" "set xs = in_state s st" using assms(2) by (simp_all add: listed_def)
  then have same: "?h p = tcbs s p" if "p \<in> set xs" for p using that assms(5,6) by auto
  have "set xs \<subseteq> dom (tcbs s)" unfolding xs by (auto simp: in_state_def)
  then have "card (set xs) \<le> card (dom (tcbs s))" by (rule card_mono [OF assms(3)])
  then have len: "length xs < 2 ^ 31" using assms(4) distinct_card [OF xs(1)] by simp
  have live: "\<forall>p \<in> set xs. ?h p \<noteq> None" using xs same by (auto simp: in_state_def)
  have "filter (\<lambda>p. \<not> of_sock ?h sock p) xs = filter (\<lambda>p. \<not> of_sock (tcbs s) sock p) xs"
    by (rule filter_cong) (simp_all only: same)
  moreover have "{p \<in> set xs. of_sock ?h sock p} = {p \<in> set xs. of_sock (tcbs s) sock p}"
    by (simp only: same cong: conj_cong)
  then have "{p \<in> set xs. of_sock ?h sock p} = members s st sock"
    unfolding xs by (auto simp: members_def in_state_def)
  ultimately show ?thesis
    using remove_all_eq [OF assms(1) xs(1) live len, of sock] by (simp add: Un_commute)
qed

lemma remove_none:
  assumes "itoa_decimal itoa" "distinct xs" "\<forall>p \<in> set xs. tcbs s p \<noteq> None" "length xs < 2 ^ 31"
    "\<forall>p \<in> set xs. \<not> of_sock (tcbs s) sock p"
  shows "list_remove_and_destroy_all_tcb_from_program itoa xs sock s = Ret (xs, s)"
proof -
  have "filter (\<lambda>p. \<not> of_sock (tcbs s) sock p) xs = xs" using assms(5) by (simp add: filter_id_conv)
  moreover have "{p \<in> set xs. of_sock (tcbs s) sock p} = {}" using assms(5) by blast
  ultimately show ?thesis by (simp only: remove_all_eq [OF assms(1-4), of sock] freed_empty)
qed

lemma remove_from_sems_eq:
  assumes "itoa_decimal itoa" "\<forall>m \<in> set ms. \<exists>x. sems s m = Some x \<and> distinct (blocked x) \<and>
      length (blocked x) < 2 ^ 31"
    "\<forall>p. \<not> of_sock (tcbs s) sock p"
  shows "remove_from_sems itoa sock ms s =
    (if \<exists>m \<in> set ms. \<exists>x. sems s m = Some x \<and> (\<exists>p \<in> set (blocked x). tcbs s p = None)
     then Fault else Ret s)"
  using assms(2)
proof (induction ms)
  case (Cons m ms)
  obtain x where x: "sems s m = Some x" "distinct (blocked x)" "length (blocked x) < 2 ^ 31"
    using Cons.prems by auto
  show ?case
  proof (cases "\<exists>p \<in> set (blocked x). tcbs s p = None")
    case True
    then obtain p where "p \<in> set (blocked x)" "tcbs s p = None" by blast
    from remove_all_dead [OF this, of itoa sock] True x(1) show ?thesis by auto
  next
    case False
    then have "list_remove_and_destroy_all_tcb_from_program itoa (blocked x) sock s = Ret (blocked x, s)"
      using x assms(3) by (intro remove_none [OF assms(1)]) auto
    moreover have "s\<lparr>sems := (sems s)(m \<mapsto> x\<lparr>blocked := blocked x\<rparr>)\<rparr> = s"
      using x(1) by (intro suse.equality) (auto simp: fun_upd_idem)
    ultimately have "remove_from_sems itoa sock (m # ms) s = remove_from_sems itoa sock ms s"
      using x(1) by simp
    then show ?thesis using Cons False x(1) by (auto split: if_splits)
  qed
qed simp

lemma remove_client_eq:
  assumes "progs_ok h cs'" "set cs \<subseteq> set cs'" "c \<in> set cs" "h c = Some pr"
  shows "remove_client h (prog_socket pr) cs = Ret (remove1 c cs)"
  using assms(2,3)
proof (induction cs)
  case (Cons d cs)
  then obtain dr where d: "h d = Some dr" using assms(1) by (auto simp: progs_ok_def)
  show ?case
  proof (cases "prog_socket dr = prog_socket pr")
    case True
    then have "d = c" using prog_unique [OF assms(1) d assms(4)] by simp
    with True d show ?thesis by simp
  next
    case False
    then have "d \<noteq> c" using d assms(4) by auto
    with Cons False d show ?thesis by simp
  qed
qed simp

text \<open>The state without a program: its threads are freed and gone from the lists.\<close>

definition without_program :: "ptr \<Rightarrow> t_program \<Rightarrow> suse \<Rightarrow> suse" where
  "without_program c pr s =
     (let other = (\<lambda>p. \<not> of_sock (tcbs s) (prog_socket pr) p) in
      freed {p. of_sock (tcbs s) (prog_socket pr) p}
        (s\<lparr>progs := (progs s)(c \<mapsto> pr\<lparr>prog_close := True, ready := [], wakeupList := []\<rparr>),
           newList := filter other (newList s), blockedList := filter other (blockedList s),
           exitList := filter other (exitList s), clientes := remove1 c (clientes s)\<rparr>))"

text \<open>A thread of the program waits for its wake-up or for a semaphore.\<close>

definition waits_outside :: "ptr \<Rightarrow> t_program \<Rightarrow> suse \<Rightarrow> bool" where
  "waits_outside c pr s \<longleftrightarrow> wakeupList pr \<noteq> [] \<or>
     (\<exists>m \<in> set (semaforos s). \<exists>x. sems s m = Some x \<and>
        (\<exists>p \<in> set (blocked x). of_sock (tcbs s) (prog_socket pr) p))"

lemma all_members:
  "members s NEW k \<union> members s READY k \<union> members s EXEC k \<union> members s BLOCKED k \<union>
    members s EXIT k = {p. of_sock (tcbs s) k p}"
proof -
  have "p \<in> members s NEW k \<union> members s READY k \<union> members s EXEC k \<union> members s BLOCKED k \<union>
      members s EXIT k" if "tcbs s p = Some a" "tcb_socket a = k" for p a
    using that by (cases "tcb_state a") (auto simp: members_def)
  then show ?thesis unfolding members_def by blast
qed

lemma destroy_listed:
  assumes "itoa_decimal itoa" "core_inv M s" "progs s c = Some pr" "card (dom (tcbs s)) < 2 ^ 31"
  shows "destroy_program itoa c s =
    (let other = (\<lambda>p. \<not> of_sock (tcbs s) (prog_socket pr) p);
       s6 = freed {p. of_sock (tcbs s) (prog_socket pr) p} (s\<lparr>newList := filter other (newList s),
         blockedList := filter other (blockedList s), exitList := filter other (exitList s)\<rparr>) in
     obind (destroy_tcbs (wakeupList pr) s6) (\<lambda>s6.
     obind (remove_from_sems itoa (prog_socket pr) (semaforos s6) s6) (\<lambda>s7.
     obind (remove_client (progs s7) (prog_socket pr) (clientes s7)) (\<lambda>l.
       Ret (set_prog c (pr\<lparr>prog_close := True, ready := [], wakeupList := []\<rparr>)
         (s7\<lparr>clientes := l\<rparr>))))))"
proof -
  let ?k = "prog_socket pr" and ?other = "\<lambda>p. \<not> of_sock (tcbs s) (prog_socket pr) p"
  note inv = core_invD [OF assms(2)]
  have fin: "finite (dom (tcbs s))" by (rule heap_ok_finite [OF inv(1)])
  have l: "listed s NEW (newList s)" "listed s BLOCKED (blockedList s)" "listed s EXIT (exitList s)"
    and pl: "prog_listed s pr"
    using inv(5) assms(3) by (auto simp: lists_ok_def)
  note step = remove_listed [OF assms(1) _ fin assms(4), of _ _ _ _ ?k]
  define s0 where "s0 = s\<lparr>newList := filter ?other (newList s)\<rparr>"
  define s4 where "s4 = s0\<lparr>blockedList := filter ?other (blockedList s)\<rparr>"
  define s5 where "s5 = s4\<lparr>exitList := filter ?other (exitList s)\<rparr>"
  have t: "tcbs s0 = tcbs s" "tcbs s4 = tcbs s" "tcbs s5 = tcbs s"
    by (simp_all add: s0_def s4_def s5_def)
  let ?N = "members s NEW ?k" and ?R = "members s READY ?k" and ?X = "members s EXEC ?k"
    and ?B = "members s BLOCKED ?k" and ?T = "members s EXIT ?k"
  have 1: "list_remove_and_destroy_all_tcb_from_program itoa (newList s) ?k s =
      Ret (filter ?other (newList s), freed ?N s)"
    using step [OF l(1), of "{}" s] by simp
  have 2: "destroy_tcbs (ready pr) (freed ?N s0) = Ret (freed (?R \<union> ?N) s0)"
  proof -
    have r: "distinct (ready pr)" "set (ready pr) = ?R" using pl by (simp_all add: prog_listed_def)
    then have "\<forall>p \<in> set (ready pr). tcbs (freed ?N s0) p \<noteq> None" by (auto simp: members_def t)
    from destroy_tcbs_freed [OF r(1) this] show ?thesis by (simp only: r(2) freed_freed)
  qed
  have 3: "(if exec pr \<noteq> NULL then destroy_tcb (exec pr) (freed (?R \<union> ?N) s0)
      else Ret (freed (?R \<union> ?N) s0)) = Ret (freed (?X \<union> (?R \<union> ?N)) s0)"
  proof (cases "exec pr = NULL")
    case True
    with pl have "?X = {}" by (simp add: prog_listed_def exec_set_def)
    with True show ?thesis by simp
  next
    case False
    with pl have X: "?X = {exec pr}" by (simp add: prog_listed_def exec_set_def)
    then have "exec pr \<in> ?X" by simp
    then have "tcbs (freed (?R \<union> ?N) s0) (exec pr) \<noteq> None" by (auto simp: members_def t)
    with False X show ?thesis by (simp add: destroy_tcb_freed)
  qed
  have 4: "list_remove_and_destroy_all_tcb_from_program itoa (blockedList s) ?k
      (freed (?X \<union> (?R \<union> ?N)) s0) = Ret (filter ?other (blockedList s), freed (?X \<union> (?R \<union> ?N) \<union> ?B) s0)"
    by (rule step [OF l(2)]) (auto simp: members_def in_state_def t)
  have 5: "list_remove_and_destroy_all_tcb_from_program itoa (exitList s) ?k
      (freed (?X \<union> (?R \<union> ?N) \<union> ?B) s4) =
      Ret (filter ?other (exitList s), freed (?X \<union> (?R \<union> ?N) \<union> ?B \<union> ?T) s4)"
    by (rule step [OF l(3)]) (auto simp: members_def in_state_def t)
  have D: "?X \<union> (?R \<union> ?N) \<union> ?B \<union> ?T = {p. of_sock (tcbs s) ?k p}"
    using all_members [of s ?k] by auto
  have sel: "blockedList (freed D s0) = blockedList s" "exitList (freed D s0) = exitList s" for D
    by (simp_all add: s0_def)
  show ?thesis
    unfolding destroy_program_def Let_def deref_Some [of "progs s" c pr, OF assms(3)] obind.simps 1 prod.case
      freed_commute s0_def [symmetric] 2 3 4 5 sel s4_def [symmetric] s5_def [symmetric] D
    by (simp add: s5_def s4_def s0_def)
qed

text \<open>
  C16: Destroying a program frees each of its threads once, and takes them off the lists, exactly
  when none of them waits for its wake-up or for a semaphore. A thread that does is also on
  \<open>blockedList\<close> and is freed from there first; the wake-up list frees it again, and the loop over the
  queues of the semaphores reads its socket: SUSE then does not end.
\<close>

theorem destroy_program_double_free:
  assumes "full_inv M s" "progs s c = Some pr" "itoa_decimal itoa" "card (dom (tcbs s)) < 2 ^ 31"
  shows "destroy_program itoa c s =
    (if waits_outside c pr s then Fault else Ret (without_program c pr s))"
proof -
  let ?k = "prog_socket pr" and ?D = "{p. of_sock (tcbs s) (prog_socket pr) p}"
  note inv = full_invD [OF assms(1)]
  define s6 where "s6 = (let other = (\<lambda>p. \<not> of_sock (tcbs s) ?k p) in
    freed ?D (s\<lparr>newList := filter other (newList s), blockedList := filter other (blockedList s),
      exitList := filter other (exitList s)\<rparr>))"
  have sel: "tcbs s6 = (\<lambda>p. if p \<in> ?D then None else tcbs s p)" "progs s6 = progs s"
    "sems s6 = sems s" "semaforos s6 = semaforos s" "clientes s6 = clientes s"
    by (simp_all add: s6_def Let_def cong: if_cong)
  have split: "destroy_program itoa c s = obind (destroy_tcbs (wakeupList pr) s6) (\<lambda>s6.
     obind (remove_from_sems itoa ?k (semaforos s6) s6) (\<lambda>s7.
     obind (remove_client (progs s7) ?k (clientes s7)) (\<lambda>l.
       Ret (set_prog c (pr\<lparr>prog_close := True, ready := [], wakeupList := []\<rparr>)
         (s7\<lparr>clientes := l\<rparr>)))))"
    using destroy_listed [OF assms(3) inv(1) assms(2,4)] by (simp add: s6_def Let_def)
  show ?thesis
  proof (cases "wakeupList pr")
    case (Cons p ps)
    then have "tcbs s6 p = None" using inv(4) assms(2) by (auto simp: wakeup_ok_def sel)
    with Cons split show ?thesis by (simp add: destroy_tcb_dead waits_outside_def)
  next
    case Nil
    have queues: "distinct (blocked x)" "set (blocked x) \<subseteq> dom (tcbs s)" if "sems s m = Some x" for m x
    proof -
      have x: "waiters s (OnSem m) = blocked x" using that by simp
      show "distinct (blocked x)" using inv(2) x unfolding waits_def by metis
      show "set (blocked x) \<subseteq> dom (tcbs s)"
      proof
        fix p
        assume "p \<in> set (blocked x)"
        then have "p \<in> in_state s BLOCKED"
          by (intro waits_mem [OF inv(2), of p "OnSem m"]) (simp only: x)
        then show "p \<in> dom (tcbs s)" by (auto simp: in_state_def)
      qed
    qed
    have fin: "finite (dom (tcbs s))" by (rule heap_ok_finite [OF core_invD(1) [OF inv(1)]])
    have short: "length (blocked x) < 2 ^ 31" if "sems s m = Some x" for m x
      using card_mono [OF fin queues(2) [OF that]] distinct_card [OF queues(1) [OF that]] assms(4)
      by linarith
    have "\<forall>m \<in> set (semaforos s). \<exists>x. sems s6 m = Some x \<and> distinct (blocked x) \<and>
        length (blocked x) < 2 ^ 31"
      using inv(5) queues(1) short by (force simp: sems_ok_def sel)
    moreover have "\<forall>p. \<not> of_sock (tcbs s6) ?k p" by (simp add: sel)
    ultimately have "remove_from_sems itoa ?k (semaforos s) s6 =
        (if \<exists>m \<in> set (semaforos s). \<exists>x. sems s6 m = Some x \<and> (\<exists>p \<in> set (blocked x). tcbs s6 p = None)
         then Fault else Ret s6)"
      by (rule remove_from_sems_eq [OF assms(3)])
    moreover have dead: "(\<exists>p \<in> set (blocked x). tcbs s6 p = None) \<longleftrightarrow>
        (\<exists>p \<in> set (blocked x). of_sock (tcbs s) ?k p)" if "sems s m = Some x" for m x
      using queues(2) [OF that] by (force simp: sel)
    have "(\<exists>m \<in> set (semaforos s). \<exists>x. sems s6 m = Some x \<and> (\<exists>p \<in> set (blocked x). tcbs s6 p = None)) \<longleftrightarrow>
        waits_outside c pr s"
      unfolding waits_outside_def sel(3) Nil by (simp only: dead simp_thms cong: conj_cong)
    ultimately have "remove_from_sems itoa ?k (semaforos s) s6 =
        (if waits_outside c pr s then Fault else Ret s6)"
      by (simp only:)
    moreover have "remove_client (progs s) ?k (clientes s) = Ret (remove1 c (clientes s))"
      using core_invD(3) [OF inv(1)] assms(2)
      by (intro remove_client_eq) (auto simp: progs_ok_def)
    moreover have "set_prog c (pr\<lparr>prog_close := True, ready := [], wakeupList := []\<rparr>)
        (s6\<lparr>clientes := remove1 c (clientes s)\<rparr>) = without_program c pr s"
      by (intro suse.equality) (simp_all add: without_program_def s6_def set_prog_def Let_def freed_def
        cong: if_cong)
    ultimately show ?thesis using split Nil by (simp add: sel)
  qed
qed

theorem destroy_program_double_free_witness:
  "destroy_program dec_int 2 demo7 = Fault \<and>
   (\<exists>s'. destroy_program dec_int 2 demo6 = Ret s' \<and> newList s' = [] \<and> clientes s' = [] \<and>
     tcbs s' 3 = None \<and> tcbs s' 5 = None)"
proof
  have "progs demo7 2 = Some (prog_a [5] NULL Destroyed)" by (simp add: demo7_def)
  moreover have "waits_outside 2 (prog_a [5] NULL Destroyed) demo7"
    by (simp add: waits_outside_def demo7_def demo_defs)
  moreover have "dom (tcbs demo7) = {3, 5}" by (auto simp: demo7_def)
  ultimately show "destroy_program dec_int 2 demo7 = Fault"
    using destroy_program_double_free [OF demo_full7, of 2 _ dec_int] by (simp add: itoa_decimal_def)
next
  let ?pr = "prog_a [5] 3 Destroyed"
  have "progs demo6 2 = Some ?pr" by (simp add: demo6_def)
  moreover have "\<not> waits_outside 2 ?pr demo6" by (simp add: waits_outside_def demo_defs)
  moreover have "dom (tcbs demo6) = {3, 5}" by (auto simp: demo6_def)
  ultimately have "destroy_program dec_int 2 demo6 = Ret (without_program 2 ?pr demo6)"
    using destroy_program_double_free [OF demo_full(3), of 2 _ dec_int] by (simp add: itoa_decimal_def)
  then show "\<exists>s'. destroy_program dec_int 2 demo6 = Ret s' \<and> newList s' = [] \<and> clientes s' = [] \<and>
     tcbs s' 3 = None \<and> tcbs s' 5 = None"
    by (simp add: without_program_def Let_def demo_defs)
qed

text \<open>
  The removal through positions written as texts is a filter: it frees the program's threads on
  the list, each once, and leaves the others in their order. Removing from the last position on is
  what keeps the earlier ones right.
\<close>

theorem remove_all_is_filter:
  assumes "itoa_decimal itoa" "distinct xs" "\<forall>p \<in> set xs. tcbs s p \<noteq> None" "length xs < 2 ^ 31"
  shows "\<exists>s'. list_remove_and_destroy_all_tcb_from_program itoa xs sock s =
      Ret (filter (\<lambda>p. \<not> of_sock (tcbs s) sock p) xs, s') \<and>
    (\<forall>p. tcbs s' p = (if p \<in> set xs \<and> of_sock (tcbs s) sock p then None else tcbs s p)) \<and>
    s'\<lparr>tcbs := tcbs s\<rparr> = s"
  using remove_all_eq [OF assms, of sock] by (auto simp: freed_def cong: if_cong)

theorem remove_all_is_filter_witness:
  "\<exists>s'. list_remove_and_destroy_all_tcb_from_program dec_int [5, 3] 5 demo6 = Ret ([], s') \<and>
    tcbs s' 3 = None \<and> tcbs s' 5 = None"
  using remove_all_is_filter [of dec_int "[5, 3]" demo6 5]
  by (auto simp: itoa_decimal_def demo_defs)

end
