(* ===== verification/SuseConfig.thy ===== *)
theory SuseConfig
  imports SuseDemo
begin

text \<open>
  The start of SUSE and its console, \<^verbatim>\<open>planificacion/suse/suse.c\<close>: reading the configuration,
  the state the scheduler starts with, the loop over the lines typed, the metrics timer. The file
  reader of so-commons and the conversion of decimal fractions are parameters: which keys there are
  and their texts, the integer and the list of texts a text stands for.
\<close>

section \<open>The configuration\<close>

record t_configData =
  listen_port :: "byte list"
  metrics_timer :: int
  max_multiprog :: int
  conf_semaforos :: "t_config_semaforo list"
  conf_alpha :: cfloat

record config_file =
  cfg_value :: "string \<Rightarrow> byte list option"
  cfg_amount :: int

record config_lib =
  get_int :: "byte list \<Rightarrow> int"
  get_array :: "byte list \<Rightarrow> byte list list"
  get_float :: "byte list \<Rightarrow> cfloat"
  cfg_oom :: "nat \<Rightarrow> bool"

definition MIN_CONFIG_KEY :: int where
  "MIN_CONFIG_KEY = 7"

definition has_property :: "config_file \<Rightarrow> string \<Rightarrow> bool" where
  "has_property f k \<longleftrightarrow> cfg_value f k \<noteq> None"

definition config_get_string_value :: "config_file \<Rightarrow> string \<Rightarrow> byte list" where
  "config_get_string_value f k = (case cfg_value f k of None \<Rightarrow> [] | Some t \<Rightarrow> t)"

text \<open>
  An element of one of the null-terminated arrays; \<open>atoi\<close> of the null pointer that ends it, or of
  what lies behind it, is a fault.
\<close>

definition atoi_at :: "byte list list \<Rightarrow> nat \<Rightarrow> int outcome" where
  "atoi_at ts i = (if i < length ts then atoi (ts ! i @ [0]) else Fault)"

text \<open>The loop of \<open>_get_semaforos_from_config\<close> from index \<open>i\<close> on; \<open>None\<close> is the null pointer.\<close>

fun get_semaforos_from :: "(nat \<Rightarrow> bool) \<Rightarrow> nat \<Rightarrow> byte list list \<Rightarrow> byte list list \<Rightarrow>
  byte list list \<Rightarrow> t_config_semaforo list option outcome" where
  "get_semaforos_from no_mem i [] array_init array_max = Ret (Some [])"
| "get_semaforos_from no_mem i (name # names) array_init array_max =
     (if no_mem i then Ret None
      else
        obind (atoi_at array_init i) (\<lambda>init.
        obind (atoi_at array_max i) (\<lambda>mx.
        obind (get_semaforos_from no_mem (Suc i) names array_init array_max) (\<lambda>rest.
          Ret (map_option (Cons \<lparr>conf_id = name, conf_init = init, conf_max = mx\<rparr>) rest)))))"

definition get_semaforos_from_config ::
  "config_lib \<Rightarrow> config_file \<Rightarrow> t_config_semaforo list option outcome" where
  "get_semaforos_from_config lib f =
     (let array_of = (\<lambda>k. get_array lib (config_get_string_value f k)) in
      get_semaforos_from (\<lambda>i. cfg_oom lib (Suc i)) 0 (array_of ''SEM_IDS'') (array_of ''SEM_INIT'')
        (array_of ''SEM_MAX''))"

definition cargar_config :: "config_lib \<Rightarrow> config_file \<Rightarrow> t_configData outcome" where
  "cargar_config lib f =
     (if cfg_oom lib 0 then Exit (- 1)
      else if cfg_amount f < MIN_CONFIG_KEY then Exit (- 1)
      else if \<not> has_property f ''LISTEN_PORT'' then Exit (- 1)
      else if \<not> has_property f ''METRICS_TIMER'' then Exit (- 1)
      else if \<not> has_property f ''MAX_MULTIPROG'' then Exit (- 1)
      else if \<not> (has_property f ''SEM_IDS'' \<and> has_property f ''SEM_INIT'' \<and> has_property f ''SEM_MAX'')
      then Exit (- 1)
      else
        obind (get_semaforos_from_config lib f) (\<lambda>sems.
          case sems of
            None \<Rightarrow> Exit (- 1)
          | Some cfs \<Rightarrow>
              if \<not> has_property f ''ALPHA_SJF'' then Exit (- 1)
              else Ret
                \<lparr>listen_port = config_get_string_value f ''LISTEN_PORT'',
                 metrics_timer = get_int lib (config_get_string_value f ''METRICS_TIMER''),
                 max_multiprog = get_int lib (config_get_string_value f ''MAX_MULTIPROG''),
                 conf_semaforos = cfs,
                 conf_alpha = get_float lib (config_get_string_value f ''ALPHA_SJF'')\<rparr>))"

text \<open>\<open>init_suse\<close> as a whole: the configuration, then the scheduler and the semaphores it asks for.\<close>

definition start_suse ::
  "config_lib \<Rightarrow> config_file option \<Rightarrow> suse_env \<Rightarrow> (t_configData \<times> suse) outcome" where
  "start_suse lib config E =
     (case config of
        None \<Rightarrow> Exit (- 1)
      | Some f \<Rightarrow>
          obind (cargar_config lib f) (\<lambda>d.
          obind (init_suse (E\<lparr>alpha_sjf := conf_alpha d\<rparr>) (max_multiprog d) (conf_semaforos d))
            (\<lambda>s. Ret (d, s))))"

section \<open>The console and the timer\<close>

definition lower :: "byte \<Rightarrow> byte" where
  "lower b = (if 65 \<le> unat b \<and> unat b \<le> 90 then b + 32 else b)"

definition starts_with :: "string \<Rightarrow> byte list \<Rightarrow> bool" where
  "starts_with word linea \<longleftrightarrow> map lower (take (length word) linea) = map of_char word"

text \<open>
  The loop of \<open>init_console\<close> at its \<open>k\<close>-th line; \<open>None\<close> is what \<open>readline\<close> returns at the end of
  the input. The result has the number of lines read.
\<close>

fun init_console :: "nat \<Rightarrow> (nat \<Rightarrow> byte list option) \<Rightarrow> nat \<Rightarrow> suse \<Rightarrow> (nat \<times> suse) outcome" where
  "init_console 0 input k s = OutOfFuel"
| "init_console (Suc n) input k s =
     (if endsuse s then Ret (k, s)
      else case input k of
        None \<Rightarrow> init_console n input (Suc k) s
      | Some linea \<Rightarrow>
          if starts_with ''clear'' linea then init_console n input (Suc k) s
          else if starts_with ''salir'' linea then init_console n input (Suc k) (s\<lparr>endsuse := True\<rparr>)
          else init_console n input (Suc k) s)"

text \<open>A pass of \<open>timed_metrics\<close>; \<open>sleeping\<close> is what the other threads do while it sleeps.\<close>

definition timed_metrics :: "(suse \<Rightarrow> suse) \<Rightarrow> clock \<Rightarrow> suse \<Rightarrow> (bool \<times> suse) outcome" where
  "timed_metrics sleeping clk s =
     (if endsuse s then Ret (False, s)
      else let s1 = sleeping s in
        if endsuse s1 then Ret (False, s1)
        else obind (log_metrics_all clk s1) (\<lambda>s2. Ret (True, s2)))"

section \<open>What is loaded\<close>

lemma get_semaforos_from_iff:
  "get_semaforos_from no_mem i names inits maxs = Ret (Some cfs) \<longleftrightarrow>
    length cfs = length names \<and> (\<forall>j < length names. \<not> no_mem (i + j) \<and>
      conf_id (cfs ! j) = names ! j \<and> atoi_at inits (i + j) = Ret (conf_init (cfs ! j)) \<and>
      atoi_at maxs (i + j) = Ret (conf_max (cfs ! j)))"
proof (induction names arbitrary: i cfs)
  case (Cons name names)
  show ?case
  proof (cases cfs)
    case Nil
    then show ?thesis by (auto simp: obind_Ret_iff split: option.splits)
  next
    case (Cons cf cfs')
    have "get_semaforos_from no_mem i (name # names) inits maxs = Ret (Some cfs) \<longleftrightarrow>
        \<not> no_mem i \<and> conf_id cf = name \<and> atoi_at inits i = Ret (conf_init cf) \<and>
        atoi_at maxs i = Ret (conf_max cf) \<and>
        get_semaforos_from no_mem (Suc i) names inits maxs = Ret (Some cfs')"
      unfolding Cons by (cases cf) (auto simp: obind_Ret_iff)
    then show ?thesis
      unfolding Cons.IH Cons by (simp add: All_less_Suc2 conj_ac)
  qed
qed auto

definition required_keys :: "string list" where
  "required_keys = [''LISTEN_PORT'', ''METRICS_TIMER'', ''MAX_MULTIPROG'', ''SEM_IDS'', ''SEM_INIT'',
     ''SEM_MAX'', ''ALPHA_SJF'']"

text \<open>
  The configuration is loaded exactly when the file has the seven keys, there is memory, and
  the lists of initial values and maxima are at least as long as the list of semaphores and hold
  numbers; then every value is the one of its key, and the semaphores come in the order of the file
  with the numbers at their positions.
\<close>

theorem config_loaded:
  "cargar_config lib f = Ret d \<longleftrightarrow>
    \<not> cfg_oom lib 0 \<and> 7 \<le> cfg_amount f \<and> (\<forall>k \<in> set required_keys. has_property f k) \<and>
    listen_port d = config_get_string_value f ''LISTEN_PORT'' \<and>
    metrics_timer d = get_int lib (config_get_string_value f ''METRICS_TIMER'') \<and>
    max_multiprog d = get_int lib (config_get_string_value f ''MAX_MULTIPROG'') \<and>
    conf_alpha d = get_float lib (config_get_string_value f ''ALPHA_SJF'') \<and>
    (let names = get_array lib (config_get_string_value f ''SEM_IDS'');
       inits = get_array lib (config_get_string_value f ''SEM_INIT'');
       maxs = get_array lib (config_get_string_value f ''SEM_MAX'') in
     length (conf_semaforos d) = length names \<and> (\<forall>j < length names. \<not> cfg_oom lib (Suc j) \<and>
       conf_id (conf_semaforos d ! j) = names ! j \<and>
       atoi_at inits j = Ret (conf_init (conf_semaforos d ! j)) \<and>
       atoi_at maxs j = Ret (conf_max (conf_semaforos d ! j))))"
  (is "?l = ?r")
proof -
  let ?data = "\<lambda>cfs. \<lparr>listen_port = config_get_string_value f ''LISTEN_PORT'',
    metrics_timer = get_int lib (config_get_string_value f ''METRICS_TIMER''),
    max_multiprog = get_int lib (config_get_string_value f ''MAX_MULTIPROG''),
    conf_semaforos = cfs, conf_alpha = get_float lib (config_get_string_value f ''ALPHA_SJF'')\<rparr>"
  have "?l \<longleftrightarrow> \<not> cfg_oom lib 0 \<and> 7 \<le> cfg_amount f \<and> (\<forall>k \<in> set required_keys. has_property f k) \<and>
      (\<exists>cfs. get_semaforos_from_config lib f = Ret (Some cfs) \<and> d = ?data cfs)"
    by (auto simp: cargar_config_def MIN_CONFIG_KEY_def required_keys_def obind_Ret_iff
      split: option.splits)
  moreover have "d = ?data cfs \<longleftrightarrow> conf_semaforos d = cfs \<and>
      listen_port d = config_get_string_value f ''LISTEN_PORT'' \<and>
      metrics_timer d = get_int lib (config_get_string_value f ''METRICS_TIMER'') \<and>
      max_multiprog d = get_int lib (config_get_string_value f ''MAX_MULTIPROG'') \<and>
      conf_alpha d = get_float lib (config_get_string_value f ''ALPHA_SJF'')" for cfs
    by (cases d) auto
  ultimately show ?thesis
    by (simp add: get_semaforos_from_config_def get_semaforos_from_iff Let_def) blast
qed

section \<open>From the file to the first state\<close>

definition config_valid :: "config_lib \<Rightarrow> suse_env \<Rightarrow> config_file \<Rightarrow> bool" where
  "config_valid lib E f \<longleftrightarrow> (\<exists>d. cargar_config lib f = Ret d \<and> 0 \<le> max_multiprog d \<and>
     config_ok E (conf_semaforos d))"

definition sem_names :: "suse \<Rightarrow> byte list option list" where
  "sem_names s = map (\<lambda>m. map_option sem_id (sems s m)) (semaforos s)"

lemma init_semaforos_names:
  assumes "\<forall>m \<in> set (semaforos s). m \<le> mallocs s" "\<forall>k < length cfs. \<not> oom E (mallocs s + k)"
  shows "sem_names (init_semaforos_from E cfs s) = sem_names s @ map (Some \<circ> conf_id) cfs"
  using assms
proof (induction cfs arbitrary: s)
  case (Cons cf cfs)
  define m where "m = Suc (mallocs s)"
  define x where "x = \<lparr>sem_id = conf_id cf, valor = conf_init cf, max_value = conf_max cf, blocked = []\<rparr>"
  define s2 where "s2 = s\<lparr>mallocs := m, sems := (sems s)(m \<mapsto> x), semaforos := semaforos s @ [m]\<rparr>"
  have "\<not> oom E (mallocs s)" using Cons.prems(2) by fastforce
  then have eq: "init_semaforos_from E (cf # cfs) s = init_semaforos_from E cfs s2"
    by (simp add: create_semaforo_def alloc_def s2_def m_def x_def)
  have "\<forall>k < length cfs. \<not> oom E (mallocs s2 + k)"
    using Cons.prems(2) by (fastforce simp: s2_def m_def)
  then have "sem_names (init_semaforos_from E cfs s2) = sem_names s2 @ map (Some \<circ> conf_id) cfs"
    using Cons.prems(1) by (intro Cons.IH) (auto simp: s2_def m_def)
  moreover have "sem_names s2 = sem_names s @ [Some (conf_id cf)]"
    using Cons.prems(1) by (auto simp: sem_names_def s2_def x_def m_def)
  ultimately show ?case unfolding eq by simp
qed simp

lemma init_semaforos_frame:
  "available_multiprog (init_semaforos_from E cfs s) = available_multiprog s \<and>
   multiprog_degree (init_semaforos_from E cfs s) = multiprog_degree s"
proof (induction cfs arbitrary: s)
  case (Cons cf cfs)
  show ?case
    by (simp add: create_semaforo_def alloc_def Cons.IH)
qed simp

text \<open>
  C15: SUSE starts from a valid configuration file in a state of the transition system with the
  configured degree of multiprogramming, all places free, and exactly the semaphores of the file, in
  its order; so every invariant of the reachable states holds of the process that is configured.
\<close>

theorem start_reaches_initial_state:
  assumes "config_valid lib E f"
  shows "\<exists>d s. start_suse lib (Some f) E = Ret (d, s) \<and> cargar_config lib f = Ret d \<and>
    reach (E\<lparr>alpha_sjf := conf_alpha d\<rparr>) (nat (max_multiprog d)) (conf_semaforos d) s \<and>
    full_inv (nat (max_multiprog d)) s \<and> multiprog_degree s = 0 \<and>
    int (available_multiprog s) = max_multiprog d \<and>
    sem_names s = map (Some \<circ> conf_id) (conf_semaforos d)"
proof -
  obtain d where d: "cargar_config lib f = Ret d" "0 \<le> max_multiprog d" "config_ok E (conf_semaforos d)"
    using assms by (auto simp: config_valid_def)
  let ?E = "E\<lparr>alpha_sjf := conf_alpha d\<rparr>" and ?M = "nat (max_multiprog d)"
  define b where "b = boot\<lparr>available_multiprog := ?M\<rparr>"
  define s where "s = (init_semaforos_from ?E (conf_semaforos d) b)\<lparr>clientes := []\<rparr>"
  have "boot\<lparr>program_id_counter := 0, multiprog_degree := 0, newList := [], blockedList := [],
      exitList := [], new_counter := 0, available_multiprog := ?M, semaforos := []\<rparr> = b"
    by (simp add: boot_def b_def)
  then have init: "init_suse ?E (int ?M) (conf_semaforos d) = Ret s"
    using d(2) by (simp add: init_suse_def init_scheduler_def init_semaforos_def s_def)
  have ok: "config_ok ?E (conf_semaforos d)" using d(3) by (simp add: config_ok_def)
  have "full_inv ?M s" using init_sys_inv [OF init ok] by (simp add: sys_inv_def)
  moreover have "reach ?E ?M (conf_semaforos d) s" by (rule reach.init [OF init])
  moreover have "start_suse lib (Some f) E = Ret (d, s)" using d init by (simp add: start_suse_def)
  moreover have "sem_names s = map (Some \<circ> conf_id) (conf_semaforos d)"
    using init_semaforos_names [of b "conf_semaforos d" ?E] ok
    by (simp add: s_def b_def boot_def config_ok_def sem_names_def)
  moreover have "multiprog_degree s = 0" "int (available_multiprog s) = max_multiprog d"
    using init_semaforos_frame [of ?E "conf_semaforos d" b] d(2)
    by (simp_all add: s_def b_def boot_def)
  ultimately show ?thesis using d(1) by blast
qed

text \<open>The file \<^verbatim>\<open>suse.ini\<close> of the repository, and a reader for it.\<close>

fun split_commas :: "byte list \<Rightarrow> byte list \<Rightarrow> byte list list" where
  "split_commas w [] = [w]"
| "split_commas w (b # bs) = (if b = 44 then w # split_commas [] bs else split_commas (w @ [b]) bs)"

definition ini_lib :: config_lib where
  "ini_lib = \<lparr>get_int = (\<lambda>t. case atoi (t @ [0]) of Ret n \<Rightarrow> n | _ \<Rightarrow> 0),
     get_array = (\<lambda>t. split_commas [] (filter (\<lambda>b. b \<notin> set [32, 91, 93]) t)),
     get_float = (\<lambda>t. 1 / 2), cfg_oom = (\<lambda>_. False)\<rparr>"

definition suse_ini :: config_file where
  "suse_ini = \<lparr>cfg_value = map_of (map (\<lambda>(k, t). (k, map of_char t))
     [(''LISTEN_PORT'', ''5003''), (''METRICS_TIMER'', ''70''), (''MAX_MULTIPROG'', ''15''),
      (''SEM_IDS'', ''[solo_hiper_mega_piola, afinado]''), (''SEM_INIT'', ''[1,0]''),
      (''SEM_MAX'', ''[10, 10]''), (''ALPHA_SJF'', ''0.5'')]), cfg_amount = 7\<rparr>"

definition suse_data :: t_configData where
  "suse_data = \<lparr>listen_port = map of_char ''5003'', metrics_timer = 70, max_multiprog = 15,
     conf_semaforos =
       [\<lparr>conf_id = map of_char ''solo_hiper_mega_piola'', conf_init = 1, conf_max = 10\<rparr>,
        \<lparr>conf_id = map of_char ''afinado'', conf_init = 0, conf_max = 10\<rparr>], conf_alpha = 1 / 2\<rparr>"

lemma ini_ints:
  "get_int ini_lib (map of_char ''70'') = 70" "get_int ini_lib (map of_char ''15'') = 15"
  by code_simp+

lemma ini_arrays:
  "get_array ini_lib (map of_char ''[solo_hiper_mega_piola, afinado]'') =
    [map of_char ''solo_hiper_mega_piola'', map of_char ''afinado'']"
  "get_array ini_lib (map of_char ''[1,0]'') = [map of_char ''1'', map of_char ''0'']"
  "get_array ini_lib (map of_char ''[10, 10]'') = [map of_char ''10'', map of_char ''10'']"
  by code_simp+

lemma ini_atoi:
  "atoi (map of_char ''1'' @ [0]) = Ret 1" "atoi (map of_char ''0'' @ [0]) = Ret 0"
  "atoi (map of_char ''10'' @ [0]) = Ret 10"
  by code_simp+

lemma ini_value:
  "cfg_value suse_ini ''LISTEN_PORT'' = Some (map of_char ''5003'')"
  "cfg_value suse_ini ''METRICS_TIMER'' = Some (map of_char ''70'')"
  "cfg_value suse_ini ''MAX_MULTIPROG'' = Some (map of_char ''15'')"
  "cfg_value suse_ini ''SEM_IDS'' = Some (map of_char ''[solo_hiper_mega_piola, afinado]'')"
  "cfg_value suse_ini ''SEM_INIT'' = Some (map of_char ''[1,0]'')"
  "cfg_value suse_ini ''SEM_MAX'' = Some (map of_char ''[10, 10]'')"
  "cfg_value suse_ini ''ALPHA_SJF'' = Some (map of_char ''0.5'')"
  by (simp_all add: suse_ini_def)

lemma ini_semaforos:
  "get_semaforos_from_config ini_lib suse_ini = Ret (Some (conf_semaforos suse_data))"
proof -
  have "cfg_oom ini_lib i = False" for i by (simp add: ini_lib_def)
  then show ?thesis
    by (simp only: get_semaforos_from_config_def config_get_string_value_def ini_value option.case
      Let_def ini_arrays get_semaforos_from.simps atoi_at_def list.size nth_Cons_0 nth_Cons_Suc
      One_nat_def obind.simps option.map if_False if_True add_0 add_Suc_right add_0_right zero_less_Suc
      Suc_less_eq ini_atoi suse_data_def t_configData.select_convs)
qed

lemma ini_loaded: "cargar_config ini_lib suse_ini = Ret suse_data"
proof -
  have "cfg_oom ini_lib i = False" "get_float ini_lib t = 1 / 2" for i t by (simp_all add: ini_lib_def)
  moreover have "cfg_amount suse_ini = 7" by (simp add: suse_ini_def)
  ultimately show ?thesis
    by (simp add: cargar_config_def ini_semaforos MIN_CONFIG_KEY_def has_property_def
      config_get_string_value_def ini_value ini_ints del: list.map)
      (simp add: suse_data_def)
qed

theorem config_loaded_witness:
  "has_property suse_ini ''SEM_MAX'' \<and> max_multiprog suse_data =
    get_int ini_lib (config_get_string_value suse_ini ''MAX_MULTIPROG'') \<and>
   atoi_at (get_array ini_lib (config_get_string_value suse_ini ''SEM_INIT'')) 0 =
     Ret (conf_init (conf_semaforos suse_data ! 0))"
proof -
  note c = config_loaded [of ini_lib suse_ini suse_data, THEN iffD1, OF ini_loaded, unfolded Let_def]
  have "0 < length (conf_semaforos suse_data)" by (simp add: suse_data_def)
  with c show ?thesis by (auto simp: required_keys_def)
qed

theorem start_reaches_initial_state_witness:
  "\<exists>d s. start_suse ini_lib (Some suse_ini) demo_env = Ret (d, s) \<and>
    int (available_multiprog s) = 15 \<and> full_inv 15 s \<and>
    sem_names s = [Some (map of_char ''solo_hiper_mega_piola''), Some (map of_char ''afinado'')]"
proof -
  have "config_ok demo_env (conf_semaforos suse_data)" by (simp add: config_ok_def suse_data_def)
  then have "config_valid ini_lib demo_env suse_ini"
    using ini_loaded by (simp add: config_valid_def suse_data_def)
  from start_reaches_initial_state [OF this]
  obtain d s where "start_suse ini_lib (Some suse_ini) demo_env = Ret (d, s)" "d = suse_data"
      "full_inv (nat (max_multiprog d)) s" "int (available_multiprog s) = max_multiprog d"
      "sem_names s = map (Some \<circ> conf_id) (conf_semaforos d)"
    using ini_loaded by auto
  then show ?thesis by (intro exI [of _ d] exI [of _ s]) (simp add: suse_data_def)
qed

section \<open>The console\<close>

lemma console_waits:
  assumes "\<not> endsuse s" "\<forall>i < n. case input (k + i) of None \<Rightarrow> True | Some l \<Rightarrow> \<not> starts_with ''salir'' l"
  shows "init_console (n + m) input k s = init_console m input (k + n) s"
  using assms(2)
proof (induction n arbitrary: k)
  case (Suc n)
  have "init_console (n + m) input (Suc k) s = init_console m input (Suc k + n) s"
  proof (rule Suc.IH, intro allI impI)
    fix i
    assume "i < n"
    with Suc.prems have "case input (k + Suc i) of None \<Rightarrow> True | Some l \<Rightarrow> \<not> starts_with ''salir'' l"
      by blast
    then show "case input (Suc k + i) of None \<Rightarrow> True | Some l \<Rightarrow> \<not> starts_with ''salir'' l" by simp
  qed
  moreover have "case input (k + 0) of None \<Rightarrow> True | Some l \<Rightarrow> \<not> starts_with ''salir'' l"
    using Suc.prems by blast
  ultimately show ?case using assms(1) by (auto split: option.splits)
qed simp

lemma clear_not_salir: "starts_with ''salir'' l \<Longrightarrow> \<not> starts_with ''clear'' l"
  by (auto simp: starts_with_def)

text \<open>
  C33: The console ends exactly when a line starts with \<open>salir\<close>, in upper or lower case: it reads
  the lines up to the first of them, sets \<open>endsuse\<close> and returns. Without such a line it never
  returns, whatever is typed; at the end of the input, where \<open>readline\<close> returns null, it spins.
\<close>

theorem console_ends:
  assumes "\<not> endsuse s"
  shows "((\<forall>n. init_console n input 0 s = OutOfFuel) \<longleftrightarrow>
      (\<forall>i l. input i = Some l \<longrightarrow> \<not> starts_with ''salir'' l)) \<and>
    (\<forall>j line. input j = Some line \<longrightarrow> starts_with ''salir'' line \<longrightarrow>
      (\<forall>i < j. \<forall>l. input i = Some l \<longrightarrow> \<not> starts_with ''salir'' l) \<longrightarrow>
      init_console (j + 2) input 0 s = Ret (Suc j, s\<lparr>endsuse := True\<rparr>))"
proof -
  let ?salir = "\<lambda>i. \<exists>l. input i = Some l \<and> starts_with ''salir'' l"
  have waits: "init_console (n + m) input 0 s = init_console m input n s" if "\<forall>i < n. \<not> ?salir i" for n m
    using console_waits [OF assms, of n input 0 m] that by (auto split: option.splits)
  have ends: "init_console (j + 2) input 0 s = Ret (Suc j, s\<lparr>endsuse := True\<rparr>)"
    if j: "?salir j" "\<forall>i < j. \<not> ?salir i" for j
  proof -
    obtain l where "input j = Some l" "starts_with ''salir'' l" using j(1) by blast
    then have "init_console 2 input j s = Ret (Suc j, s\<lparr>endsuse := True\<rparr>)"
      using assms clear_not_salir by (simp add: numeral_2_eq_2)
    then show ?thesis using waits [OF j(2), of 2] by simp
  qed
  have some: "\<exists>n. init_console n input 0 s \<noteq> OutOfFuel" if "?salir i" for i
  proof -
    define j where "j = (LEAST i. ?salir i)"
    have "?salir j" unfolding j_def using that by (rule LeastI)
    moreover have "\<not> ?salir i" if "i < j" for i
      using that unfolding j_def by (rule not_less_Least)
    ultimately have "init_console (j + 2) input 0 s = Ret (Suc j, s\<lparr>endsuse := True\<rparr>)"
      by (intro ends) simp_all
    then show ?thesis by (metis outcome.distinct(7))
  qed
  have none: "init_console n input 0 s = OutOfFuel" if "\<forall>i. \<not> ?salir i" for n
    using waits [of n 0] that by simp
  have "(\<forall>n. init_console n input 0 s = OutOfFuel) \<longleftrightarrow> (\<forall>i. \<not> ?salir i)"
  proof
    assume "\<forall>n. init_console n input 0 s = OutOfFuel"
    then show "\<forall>i. \<not> ?salir i" using some by metis
  next
    assume "\<forall>i. \<not> ?salir i"
    then show "\<forall>n. init_console n input 0 s = OutOfFuel" using none by simp
  qed
  moreover have "init_console (j + 2) input 0 s = Ret (Suc j, s\<lparr>endsuse := True\<rparr>)"
    if "input j = Some line" "starts_with ''salir'' line"
      "\<forall>i < j. \<forall>l. input i = Some l \<longrightarrow> \<not> starts_with ''salir'' l" for j line
    by (rule ends) (use that in simp_all)
  ultimately show ?thesis by simp
qed

theorem console_ends_witness:
  "init_console 3 (\<lambda>i. if i = 1 then Some (map of_char ''SALIR ya'') else None) 0 demo6 =
    Ret (2, demo6\<lparr>endsuse := True\<rparr>)"
proof -
  have "starts_with ''salir'' (map of_char ''SALIR ya'')" by code_simp
  moreover have "\<not> endsuse demo6" by (simp add: demo_defs)
  note console_ends [OF this, of "\<lambda>i. if i = 1 then Some (map of_char ''SALIR ya'') else None",
      THEN conjunct2, THEN spec, THEN spec, THEN mp, THEN mp, THEN mp,
      of 1 "map of_char ''SALIR ya''"]
  ultimately have "init_console (1 + 2) (\<lambda>i. if i = 1 then Some (map of_char ''SALIR ya'') else None) 0
      demo6 = Ret (Suc 1, demo6\<lparr>endsuse := True\<rparr>)"
    by simp
  then show ?thesis by (simp only: numeral_3_eq_3 numeral_2_eq_2 add_Suc add_0 One_nat_def)
qed

end
