(* ===== verification/Sockets.thy ===== *)
theory Sockets
  imports SuseConfig
begin

text \<open>
  Opening connections: the functions of \<^verbatim>\<open>lib/sockets/sockets.c\<close> that make sockets, on what the
  system calls answer, and the starts that rest on them: \<open>hilolay_init\<close> of
  \<^verbatim>\<open>lib/hilolay/hilolay_alumnos.c\<close> and the server thread of \<^verbatim>\<open>planificacion/suse/suse.c\<close>.
\<close>

section \<open>Sockets\<close>

text \<open>
  The descriptors of the process, and of an address that \<open>getaddrinfo\<close> found: the descriptor that
  \<open>socket\<close> gives for it, -1 for an error, and whether \<open>bind\<close> (for a client \<open>connect\<close>) succeeds.
\<close>

record net =
  open_fds :: "int set"
  listening :: "int set"

record address =
  addr_socket :: int
  addr_ok :: bool

definition open_fd :: "int \<Rightarrow> net \<Rightarrow> net" where
  "open_fd d n = n\<lparr>open_fds := insert d (open_fds n)\<rparr>"

definition liberar_conexion :: "int \<Rightarrow> net \<Rightarrow> net" where
  "liberar_conexion d n = n\<lparr>open_fds := open_fds n - {d}, listening := listening n - {d}\<rparr>"

text \<open>
  The client's side goes on with the first address only and does not look at the result of
  \<open>getaddrinfo\<close>; without an address the pointer to it is not set.
\<close>

definition crear_conexion_con_servidor :: "address list option \<Rightarrow> net \<Rightarrow> (int \<times> net) outcome" where
  "crear_conexion_con_servidor server_info n =
     (case server_info of
        Some (a # _) \<Rightarrow>
          let socket_cliente = addr_socket a;
            n1 = (if socket_cliente = - 1 then n else open_fd socket_cliente n) in
          if socket_cliente = - 1 \<or> \<not> addr_ok a
          then Ret (socket_cliente, liberar_conexion socket_cliente n1)
          else Ret (socket_cliente, n1)
      | _ \<Rightarrow> Fault)"

text \<open>The loop over the addresses; \<open>socket_servidor\<close> keeps the descriptor of the last one tried.\<close>

fun try_addresses :: "int \<Rightarrow> address list \<Rightarrow> net \<Rightarrow> int \<times> net" where
  "try_addresses socket_servidor [] n = (socket_servidor, n)"
| "try_addresses socket_servidor (p # ps) n =
     (if addr_socket p = - 1 then try_addresses (- 1) ps n
      else
        let n1 = open_fd (addr_socket p) n in
        if \<not> addr_ok p then try_addresses (addr_socket p) ps (liberar_conexion (addr_socket p) n1)
        else (addr_socket p, n1))"

text \<open>An error of \<open>listen\<close> is printed only. \<open>uninit\<close> is the local variable before the loop.\<close>

definition iniciar_servidor :: "int \<Rightarrow> address list option \<Rightarrow> bool \<Rightarrow> net \<Rightarrow> (int \<times> net) outcome" where
  "iniciar_servidor uninit servinfo listen_ok n =
     (case servinfo of
        None \<Rightarrow> Exit 1
      | Some ps \<Rightarrow>
          let (socket_servidor, n1) = try_addresses uninit ps n in
          Ret (socket_servidor,
            if socket_servidor \<in> open_fds n1 \<and> listen_ok
            then n1\<lparr>listening := insert socket_servidor (listening n1)\<rparr> else n1))"

text \<open>\<open>accept\<close> gives a client, or -1 on an error, and only an error on a socket that does not listen.\<close>

definition esperar_cliente :: "int \<Rightarrow> net \<Rightarrow> int \<Rightarrow> int" where
  "esperar_cliente socket_servidor n cliente = (if socket_servidor \<in> listening n then cliente else - 1)"

section \<open>The starts\<close>

definition hilolay_init :: "config_file option \<Rightarrow> address list option \<Rightarrow> net \<Rightarrow> (int \<times> net) outcome" where
  "hilolay_init config addrs n =
     (case config of
        None \<Rightarrow> Exit (- 1)
      | Some f \<Rightarrow>
          if \<not> has_property f ''SUSE_IP'' then Exit (- 1)
          else if \<not> has_property f ''SUSE_PORT'' then Exit (- 1)
          else crear_conexion_con_servidor addrs n)"

definition init_server :: "int \<Rightarrow> address list option \<Rightarrow> bool \<Rightarrow> bool \<Rightarrow> net \<Rightarrow> suse \<Rightarrow>
    (int \<times> net \<times> suse) outcome" where
  "init_server uninit addrs listen_ok thread_ok n s =
     obind (iniciar_servidor uninit addrs listen_ok n) (\<lambda>(server_socket, n1).
       if server_socket = - 1 then Exit (- 1)
       else if \<not> thread_ok then Exit (- 1)
       else Ret (server_socket, n1, s\<lparr>clientes := []\<rparr>))"

text \<open>
  The thread of the server, on the answers of \<open>accept\<close>: \<open>other k\<close> is what the other threads do while
  it waits for the \<open>k\<close>-th. The result is the state after them, and whether the loop has ended;
  when it has not, it waits for one more.
\<close>

fun accept_clients :: "(nat \<Rightarrow> suse \<Rightarrow> suse) \<Rightarrow> suse_env \<Rightarrow> int \<Rightarrow> net \<Rightarrow> nat \<Rightarrow> int list \<Rightarrow> suse \<Rightarrow>
    (bool \<times> suse) outcome" where
  "accept_clients other E server_socket n k [] s = Ret (endsuse s, s)"
| "accept_clients other E server_socket n k (c # cs) s =
     (if endsuse s then Ret (True, s)
      else
        obind (wait_for_client E (esperar_cliente server_socket n c) (other k s))
          (accept_clients other E server_socket n (Suc k) cs))"

section \<open>What a start comes to\<close>

text \<open>\<open>socket\<close> gives descriptors that are not in use, one after the other.\<close>

definition fresh_sockets :: "net \<Rightarrow> address list \<Rightarrow> bool" where
  "fresh_sockets n ps \<longleftrightarrow> - 1 \<notin> open_fds n \<and> listening n \<subseteq> open_fds n \<and>
     (\<forall>p \<in> set ps. addr_socket p \<notin> open_fds n)"

definition usable :: "address \<Rightarrow> bool" where
  "usable p \<longleftrightarrow> addr_socket p \<noteq> - 1 \<and> addr_ok p"

lemma open_close: "d \<notin> open_fds n \<Longrightarrow> listening n \<subseteq> open_fds n \<Longrightarrow> liberar_conexion d (open_fd d n) = n"
  by (intro net.equality) (auto simp: liberar_conexion_def open_fd_def)

lemma try_addresses_unusable:
  assumes "fresh_sockets n ps" "\<forall>p \<in> set ps. \<not> usable p"
  shows "try_addresses u ps n = (if ps = [] then u else addr_socket (last ps), n)"
  using assms
proof (induction ps arbitrary: u)
  case (Cons p ps)
  then have "try_addresses v ps n = (if ps = [] then v else addr_socket (last ps), n)" for v
    by (simp add: fresh_sockets_def)
  moreover have "liberar_conexion (addr_socket p) (open_fd (addr_socket p) n) = n"
    using Cons.prems(1) by (intro open_close) (simp_all add: fresh_sockets_def)
  ultimately show ?case using Cons.prems(2) by (auto simp: usable_def Let_def)
qed simp

lemma try_addresses_usable:
  assumes "fresh_sockets n (qs @ p # ps)" "\<forall>q \<in> set qs. \<not> usable q" "usable p"
  shows "try_addresses u (qs @ p # ps) n = (addr_socket p, open_fd (addr_socket p) n)"
  using assms
proof (induction qs arbitrary: u)
  case (Cons q qs)
  then have "try_addresses v (qs @ p # ps) n = (addr_socket p, open_fd (addr_socket p) n)" for v
    by (simp add: fresh_sockets_def)
  moreover have "liberar_conexion (addr_socket q) (open_fd (addr_socket q) n) = n"
    using Cons.prems(1) by (intro open_close) (simp_all add: fresh_sockets_def)
  ultimately show ?case using Cons.prems(2) by (auto simp: usable_def Let_def)
qed (simp add: usable_def Let_def)

text \<open>
  A server that starts listens on the first address that can be used, and no other descriptor
  stays open. When none can be used it starts all the same, unless the last of them got no socket:
  the result is then a descriptor that is closed already, not -1.
\<close>

theorem server_socket:
  assumes "fresh_sockets n ps"
  shows "(\<forall>qs p rest. ps = qs @ p # rest \<longrightarrow> usable p \<longrightarrow> (\<forall>q \<in> set qs. \<not> usable q) \<longrightarrow>
      iniciar_servidor u (Some ps) True n =
        Ret (addr_socket p, \<lparr>open_fds = insert (addr_socket p) (open_fds n),
          listening = insert (addr_socket p) (listening n)\<rparr>)) \<and>
    ((\<forall>p \<in> set ps. \<not> usable p) \<longrightarrow> ps \<noteq> [] \<longrightarrow>
      iniciar_servidor u (Some ps) True n = Ret (addr_socket (last ps), n))"
proof (intro conjI allI impI)
  fix qs p rest
  assume "ps = qs @ p # rest" "usable p" "\<forall>q \<in> set qs. \<not> usable q"
  then have "try_addresses u ps n = (addr_socket p, open_fd (addr_socket p) n)"
    using try_addresses_usable assms by blast
  then show "iniciar_servidor u (Some ps) True n =
      Ret (addr_socket p, \<lparr>open_fds = insert (addr_socket p) (open_fds n),
        listening = insert (addr_socket p) (listening n)\<rparr>)"
    by (simp add: iniciar_servidor_def open_fd_def)
next
  assume "\<forall>p \<in> set ps. \<not> usable p" and ne: "ps \<noteq> []"
  then have "try_addresses u ps n = (addr_socket (last ps), n)"
    using try_addresses_unusable assms by simp
  moreover have "addr_socket (last ps) \<notin> open_fds n" using assms ne by (simp add: fresh_sockets_def)
  ultimately show "iniciar_servidor u (Some ps) True n = Ret (addr_socket (last ps), n)"
    by (simp add: iniciar_servidor_def)
qed

text \<open>Two addresses, the first of which is taken.\<close>

theorem server_socket_witness:
  "iniciar_servidor 0 (Some [\<lparr>addr_socket = 3, addr_ok = False\<rparr>, \<lparr>addr_socket = 3, addr_ok = True\<rparr>]) True
      \<lparr>open_fds = {0, 1, 2}, listening = {}\<rparr> =
     Ret (3, \<lparr>open_fds = {3, 0, 1, 2}, listening = {3}\<rparr>) \<and>
   iniciar_servidor 0 (Some [\<lparr>addr_socket = 3, addr_ok = False\<rparr>]) True
      \<lparr>open_fds = {0, 1, 2}, listening = {}\<rparr> = Ret (3, \<lparr>open_fds = {0, 1, 2}, listening = {}\<rparr>)"
proof
  let ?n = "\<lparr>open_fds = {0, 1, 2 :: int}, listening = {}\<rparr>"
  let ?a = "\<lparr>addr_socket = 3, addr_ok = False\<rparr>" and ?b = "\<lparr>addr_socket = 3, addr_ok = True\<rparr>"
  have f: "fresh_sockets ?n [?a, ?b]" "fresh_sockets ?n [?a]" by (simp_all add: fresh_sockets_def)
  have "[?a, ?b] = [?a] @ ?b # []" by simp
  then show "iniciar_servidor 0 (Some [?a, ?b]) True ?n =
      Ret (3, \<lparr>open_fds = {3, 0, 1, 2}, listening = {3}\<rparr>)"
    using server_socket [OF f(1), THEN conjunct1, THEN spec, THEN spec, THEN spec, THEN mp,
      THEN mp, THEN mp, of "[?a]" ?b "[]" 0] by (simp add: usable_def)
  show "iniciar_servidor 0 (Some [?a]) True ?n = Ret (3, ?n)"
    using server_socket [OF f(2), THEN conjunct2, of 0] by (simp add: usable_def)
qed

section \<open>Starts without a connection\<close>

text \<open>With nothing listening the state changes by what the other threads do, and by that only.\<close>

fun others_only :: "(nat \<Rightarrow> suse \<Rightarrow> suse) \<Rightarrow> nat \<Rightarrow> 'a list \<Rightarrow> suse \<Rightarrow> suse" where
  "others_only other k [] s = s"
| "others_only other k (c # cs) s =
     (if endsuse s then s else others_only other (Suc k) cs (other k s))"

lemma accept_closed:
  assumes "d \<notin> listening n"
  shows "\<exists>b. accept_clients other E d n k cs s = Ret (b, others_only other k cs s)"
proof (induction cs arbitrary: k s)
  case (Cons c cs)
  then show ?case using assms by (auto simp: esperar_cliente_def wait_for_client_def)
qed simp

lemma accept_alone:
  assumes "d \<notin> listening n" "\<not> endsuse s"
  shows "accept_clients (\<lambda>_ s. s) E d n k cs s = Ret (False, s)"
  using assms by (induction cs arbitrary: k) (simp_all add: esperar_cliente_def wait_for_client_def)

lemma others_only_kept:
  assumes "\<forall>k s. clientes (other k s) = clientes s"
  shows "clientes (others_only other k cs s) = clientes s"
  using assms by (induction cs arbitrary: k s) auto

lemma accept_first:
  assumes "d \<in> listening n" "0 < c" "\<not> oom E (mallocs s)" "clientes s = []" "\<not> endsuse s"
  shows "accept_clients (\<lambda>_ s. s) E d n k [c] s = Ret (False, snd (create_program E c s)) \<and>
    clientes (snd (create_program E c s)) = [Suc (mallocs s)]"
  using assms
  by (simp add: esperar_cliente_def wait_for_client_def is_program_loaded_def find_program_pos_def
    create_program_def alloc_def set_prog_def)

text \<open>
  C25: SUSE does not see that its port is taken: when no address can be used, but a socket was made
  for the last one, the start goes on and nothing listens. The thread of the server then goes round
  with an error of \<open>accept\<close> each time, whatever connects: it leaves the state as it was, without
  any program, and so does every interleaving with threads that admit none themselves. On a socket
  that listens the same thread admits the first client.
\<close>

theorem port_in_use_unnoticed:
  assumes "fresh_sockets n ps" "\<forall>p \<in> set ps. \<not> usable p" "ps \<noteq> []" "addr_socket (last ps) \<noteq> - 1"
    "\<not> endsuse s" "\<forall>k s. clientes (other k s) = clientes s"
  shows "init_server u (Some ps) True True n s = Ret (addr_socket (last ps), n, s\<lparr>clientes := []\<rparr>) \<and>
    accept_clients (\<lambda>_ s. s) E (addr_socket (last ps)) n k cs (s\<lparr>clientes := []\<rparr>) =
      Ret (False, s\<lparr>clientes := []\<rparr>) \<and>
    (\<exists>b s'. accept_clients other E (addr_socket (last ps)) n k cs (s\<lparr>clientes := []\<rparr>) = Ret (b, s') \<and>
      clientes s' = []) \<and>
    (d \<in> listening n \<longrightarrow> 0 < c \<longrightarrow> \<not> oom E (mallocs s) \<longrightarrow>
      (\<exists>s'. accept_clients (\<lambda>_ s. s) E d n k [c] (s\<lparr>clientes := []\<rparr>) = Ret (False, s') \<and>
        clientes s' = [Suc (mallocs s)]))"
proof -
  let ?d = "addr_socket (last ps)" and ?s = "s\<lparr>clientes := []\<rparr>"
  have d: "?d \<notin> open_fds n" using assms(1,3) by (simp add: fresh_sockets_def)
  have "try_addresses u ps n = (?d, n)" using try_addresses_unusable [OF assms(1,2)] assms(3) by simp
  with d have "iniciar_servidor u (Some ps) True n = Ret (?d, n)" by (simp add: iniciar_servidor_def)
  then have start: "init_server u (Some ps) True True n s = Ret (?d, n, ?s)"
    using assms(4) by (simp add: init_server_def)
  have nl: "?d \<notin> listening n" using d assms(1) by (auto simp: fresh_sockets_def)
  have "accept_clients (\<lambda>_ s. s) E ?d n k cs ?s = Ret (False, ?s)"
    by (rule accept_alone [OF nl]) (simp add: assms(5))
  moreover have "\<exists>b s'. accept_clients other E ?d n k cs ?s = Ret (b, s') \<and> clientes s' = []"
    using accept_closed [OF nl, of other E k cs ?s] others_only_kept [OF assms(6), of k cs ?s] by auto
  moreover have "d \<in> listening n \<longrightarrow> 0 < c \<longrightarrow> \<not> oom E (mallocs s) \<longrightarrow>
      (\<exists>s'. accept_clients (\<lambda>_ s. s) E d n k [c] ?s = Ret (False, s') \<and>
        clientes s' = [Suc (mallocs s)])"
    using accept_first [of d n c E ?s k] assms(5) by simp
  ultimately show ?thesis using start by blast
qed

theorem port_in_use_unnoticed_witness:
  "init_server 0 (Some [\<lparr>addr_socket = 3, addr_ok = False\<rparr>]) True True
      \<lparr>open_fds = {0, 1, 7}, listening = {7}\<rparr> boot =
    Ret (3, \<lparr>open_fds = {0, 1, 7}, listening = {7}\<rparr>, boot\<lparr>clientes := []\<rparr>) \<and>
   accept_clients (\<lambda>_ s. s) demo_env 3 \<lparr>open_fds = {0, 1, 7}, listening = {7}\<rparr> 0 [4, 5]
      (boot\<lparr>clientes := []\<rparr>) = Ret (False, boot\<lparr>clientes := []\<rparr>) \<and>
   (\<exists>s'. accept_clients (\<lambda>_ s. s) demo_env 7 \<lparr>open_fds = {0, 1, 7}, listening = {7}\<rparr> 0 [4]
      (boot\<lparr>clientes := []\<rparr>) = Ret (False, s') \<and> clientes s' = [1])"
  using port_in_use_unnoticed [of "\<lparr>open_fds = {0, 1, 7}, listening = {7}\<rparr>"
      "[\<lparr>addr_socket = 3, addr_ok = False\<rparr>]" boot "\<lambda>_ s. s" 0 demo_env 0 "[4, 5]" 7 4]
  by (simp add: fresh_sockets_def usable_def boot_def)

lemma failed_send: "enviar_paquete False p = obind (enviar_paquete True p) (\<lambda>_. Exit (- 1))"
  by (simp add: enviar_paquete_def obind_assoc)

lemma failed_send_tid:
  "send_tid False itoa beyond op t = obind (send_tid True itoa beyond op t) (\<lambda>_. Exit (- 1))"
  by (simp add: send_tid_def failed_send obind_assoc Let_def)

text \<open>
  A client does not see that it has no connection: \<open>hilolay_init\<close> returns when the configuration
  has its two keys, and the descriptor it keeps is open exactly when the first address can be used.
  Otherwise the first request that is sent, whichever it is, ends the program.
\<close>

theorem hilolay_without_connection:
  assumes "has_property f ''SUSE_IP''" "has_property f ''SUSE_PORT''" "fresh_sockets n (p # ps)"
  shows "\<exists>n'. hilolay_init (Some f) (Some (p # ps)) n = Ret (addr_socket p, n') \<and>
    (addr_socket p \<in> open_fds n' \<longleftrightarrow> usable p) \<and> (\<not> usable p \<longrightarrow> n' = n) \<and>
    send_tid (addr_socket p \<in> open_fds n') itoa beyond op t =
      (if usable p then send_tid True itoa beyond op t
       else obind (send_tid True itoa beyond op t) (\<lambda>_. Exit (- 1)))"
proof -
  let ?d = "addr_socket p"
  have d: "?d \<notin> open_fds n" "listening n \<subseteq> open_fds n" using assms(3) by (simp_all add: fresh_sockets_def)
  show ?thesis
  proof (cases "usable p")
    case True
    then have "hilolay_init (Some f) (Some (p # ps)) n = Ret (?d, open_fd ?d n)"
      using assms(1,2) by (simp add: hilolay_init_def crear_conexion_con_servidor_def usable_def Let_def)
    with True show ?thesis by (simp add: open_fd_def)
  next
    case False
    have "liberar_conexion ?d n = n"
      using d by (intro net.equality) (auto simp: liberar_conexion_def)
    with False have "hilolay_init (Some f) (Some (p # ps)) n = Ret (?d, n)"
      using assms(1,2) open_close [OF d]
      by (auto simp: hilolay_init_def crear_conexion_con_servidor_def usable_def Let_def)
    with False d(1) show ?thesis by (simp add: failed_send_tid)
  qed
qed

definition hilolay_ini :: config_file where
  "hilolay_ini = \<lparr>cfg_value = [''SUSE_IP'' \<mapsto> [49], ''SUSE_PORT'' \<mapsto> [50]], cfg_amount = 2\<rparr>"

theorem hilolay_without_connection_witness:
  "\<exists>n'. hilolay_init (Some hilolay_ini) (Some [\<lparr>addr_socket = 3, addr_ok = False\<rparr>])
      \<lparr>open_fds = {0}, listening = {}\<rparr> = Ret (3, n') \<and>
    suse_create_req (3 \<in> open_fds n') dec_int [0, 0, 0] 1 = Exit (- 1)"
proof -
  let ?a = "\<lparr>addr_socket = 3, addr_ok = False\<rparr>" and ?n = "\<lparr>open_fds = {0 :: int}, listening = {}\<rparr>"
  have "has_property hilolay_ini ''SUSE_IP''" "has_property hilolay_ini ''SUSE_PORT''"
    "fresh_sockets ?n [?a]" "\<not> usable ?a"
    by (simp_all add: has_property_def hilolay_ini_def fresh_sockets_def usable_def)
  moreover have "4 \<le> length (c_string (dec_int 1) @ [0, 0, 0])" by (simp add: c_string_def)
  ultimately show ?thesis
    using hilolay_without_connection [of hilolay_ini ?n ?a "[]" dec_int "[0, 0, 0]" SUSE_CREATE 1]
    by (auto simp: suse_create_req_def send_tid_bytes)
qed

end
