(* ===== verification/SuseShutdown.thy ===== *)
theory SuseShutdown
  imports Sockets SuseSession
begin

text \<open>
  The end of SUSE: \<open>join_threads\<close> of \<^verbatim>\<open>planificacion/suse/suse.c\<close> waits for the thread of the server,
  for the long-term scheduler and for the short-term scheduler of each program. It waits for the last
  ones with \<open>clientes_mutex\<close> in its hands, and a scheduler that wakes a thread up in its last pass
  needs that mutex: \<open>move_tcb_to\<close> asks for the id of the program.
\<close>

section \<open>The last pass of a scheduler\<close>

text \<open>
  The functions of the last pass with the owner of \<open>clientes_mutex\<close> written out: \<open>held\<close> says that
  \<open>join_threads\<close> has it. It keeps it until the scheduler ends, so locking it is \<open>Hang\<close>.
\<close>

definition get_program_id_held :: "bool \<Rightarrow> suse \<Rightarrow> int \<Rightarrow> int outcome" where
  "get_program_id_held held s sock = (if held then Hang else get_program_id s sock)"

text \<open>
  \<open>move_tcb_to\<close>: the line of the log, with the first lock of \<open>clientes_mutex\<close>, comes after the test
  of the state and before everything else.
\<close>

definition move_held :: "bool \<Rightarrow> suse_env \<Rightarrow> ptr \<Rightarrow> t_state \<Rightarrow> suse \<Rightarrow> suse outcome" where
  "move_held held E p st s =
     obind (deref (tcbs s) p) (\<lambda>tcb.
       if tcb_state tcb = st then Ret s
       else obind (get_program_id_held held s (tcb_socket tcb)) (\<lambda>_. move_tcb_to E p st s))"

fun wakeup_loop_held :: "bool \<Rightarrow> nat \<Rightarrow> suse_env \<Rightarrow> ptr \<Rightarrow> nat \<Rightarrow> suse \<Rightarrow> suse outcome" where
  "wakeup_loop_held held 0 E c i s = OutOfFuel"
| "wakeup_loop_held held (Suc n) E c i s =
     obind (deref (progs s) c) (\<lambda>program.
       if i < length (wakeupList program) then
         obind (list_remove (wakeupList program) (int i)) (\<lambda>(tcb, l).
         obind (move_held held E tcb READY (set_prog c (program\<lparr>wakeupList := l\<rparr>) s)) (\<lambda>s1.
         obind (wait_tcb_counter c s1) (\<lambda>s2.
           wakeup_loop_held held n E c (Suc i) s2)))
       else Ret s)"

definition wakeup_threads_held :: "bool \<Rightarrow> suse_env \<Rightarrow> ptr \<Rightarrow> suse \<Rightarrow> (bool \<times> suse) outcome" where
  "wakeup_threads_held held E c s =
     obind (deref (progs s) c) (\<lambda>program.
       if wakeupList program = [] then Ret (False, s)
       else obind (wakeup_loop_held held (Suc (length (wakeupList program))) E c 0 s) (\<lambda>s1.
         Ret (True, s1)))"

text \<open>
  What is left of \<open>schedule_short_term\<close> for a program that has gone: if its loop goes on,
  \<open>recibir_operacion\<close> gives -1, and the rest of the pass follows; the loop has then ended.
\<close>

definition last_pass :: "bool \<Rightarrow> suse_env \<Rightarrow> ptr \<Rightarrow> suse \<Rightarrow> suse outcome" where
  "last_pass held E c s =
     obind (deref (progs s) c) (\<lambda>self.
       if prog_close self then Ret s
       else
         obind (wakeup_threads_held held E c (set_prog c (self\<lparr>prog_close := True\<rparr>) s)) (\<lambda>(_, s1).
         obind (deref (progs s1) c) (\<lambda>self1.
           Ret (if ready self1 = [] \<and> endsuse s1
                then set_prog c (self1\<lparr>prog_close := True\<rparr>) s1 else s1))))"

section \<open>Waiting for the threads\<close>





section \<open>With the mutex free\<close>

text \<open>Then these functions are those of the scheduler, and the last pass is its last pass.\<close>

lemma move_held_free: "move_held False E p st s = move_tcb_to E p st s"
proof (cases "tcbs s p")
  case (Some tcb)
  then show ?thesis
    by (cases "get_program_id s (tcb_socket tcb)")
      (simp_all add: move_held_def get_program_id_held_def move_tcb_to_def)
qed (simp add: move_held_def move_tcb_to_def)

lemma wakeup_loop_held_free: "wakeup_loop_held False n E c i = wakeup_loop n E c i"
proof (induction n arbitrary: i)
  case (Suc n)
  then show ?case by (intro ext) (simp add: move_held_free cong: if_cong)
qed (simp add: fun_eq_iff)

lemma wakeup_threads_held_free: "wakeup_threads_held False E c s = wakeup_threads E c s"
  by (simp add: wakeup_threads_held_def wakeup_threads_def wakeup_loop_held_free
    del: wakeup_loop.simps wakeup_loop_held.simps cong: if_cong)

lemma last_pass_free:
  assumes "inbuf ch = []"
  shows "obind (schedule_short_term n indet E c ch s) (\<lambda>(_, _, s'). Ret s') = last_pass False E c s"
  using assms
  by (cases "progs s c")
    (simp_all add: schedule_short_term_def last_pass_def read_disconnected handle_def after_request_def
      wakeup_threads_held_free obind_assoc obind_if case_prod_beta' cong: if_cong)



section \<open>With the mutex held\<close>

definition close_all :: "ptr set \<Rightarrow> suse \<Rightarrow> suse" where
  "close_all C s = s\<lparr>progs := \<lambda>c. if c \<in> C then map_option (\<lambda>pr. pr\<lparr>prog_close := True\<rparr>) (progs s c)
     else progs s c\<rparr>"


text \<open>The threads that wait for their wake-up are blocked.\<close>

definition asleep :: "suse \<Rightarrow> bool" where
  "asleep s \<longleftrightarrow> (\<forall>c pr p. progs s c = Some pr \<longrightarrow> p \<in> set (wakeupList pr) \<longrightarrow>
     (\<exists>a. tcbs s p = Some a \<and> tcb_state a = BLOCKED))"



lemma asleep_close [simp]: "asleep s \<Longrightarrow> asleep (close_all C s)"
  by (fastforce simp: asleep_def close_all_def split: if_splits)


lemma close_all_sel [simp]:
  "progs (close_all C s) c = None \<longleftrightarrow> progs s c = None" "clientes (close_all C s) = clientes s"
  "endsuse (close_all C s) = endsuse s"
  by (simp_all add: close_all_def)



section \<open>The end, and the deadlock\<close>



















end
