(* ===== verification/SacDisk.thy ===== *)
theory SacDisk
  imports Wire "HOL-Library.Signed_Division"
begin

text \<open>
  The disk of the SAC file server: nodes, the bitmap of blocks and the primitives of
  \<^verbatim>\<open>fileSystem/sac/sac_servidor/sac_servidor.c\<close> on them.

  The file \<^verbatim>\<open>disco.bin\<close> is the list of its bytes and every function opens it anew. A stream that is
  not closed with \<open>fclose\<close> stays open: some functions pass the stream to \<open>close\<close>, which does
  nothing to it, or do not close it at all. When no stream is left, \<open>fopen\<close> gives the null pointer,
  which every caller hands to \<open>fseek\<close>: a fault. Memory is byte-exact: reading or writing past the
  end of a local array or an allocated block is a fault, and a block that is not written yet holds
  the bytes of \<open>indet\<close>. Allocations of a sensible size do not fail.
\<close>

section \<open>Nodes\<close>

abbreviation BLOCK_SIZE :: nat where "BLOCK_SIZE \<equiv> 4096"

abbreviation MAX_FILENAME_LENGTH :: nat where "MAX_FILENAME_LENGTH \<equiv> 71"

record GFile =
  node_state :: byte
  fname :: "byte list"
  parent_block :: "32 word"
  filesize :: "32 word"
  created_at :: "64 word"
  modified_at :: "64 word"
  blocks :: "32 word list"

definition le64 :: "64 word \<Rightarrow> byte list" where
  "le64 w = le32 (ucast w) @ le32 (ucast (drop_bit 32 w))"

definition of_le64 :: "byte list \<Rightarrow> 64 word" where
  "of_le64 bs = ucast (of_le32 bs) OR push_bit 32 (ucast (of_le32 (drop 4 bs)))"

text \<open>The bytes of the struct, which has no padding, and the struct at the head of some bytes.\<close>

definition node_bytes :: "GFile \<Rightarrow> byte list" where
  "node_bytes g = node_state g # fname g @ le32 (parent_block g) @ le32 (filesize g) @
     le64 (created_at g) @ le64 (modified_at g) @ concat (map le32 (blocks g))"

fun of_le32s :: "nat \<Rightarrow> byte list \<Rightarrow> 32 word list" where
  "of_le32s 0 bs = []"
| "of_le32s (Suc n) bs = of_le32 bs # of_le32s n (drop 4 bs)"

definition node_of_bytes :: "byte list \<Rightarrow> GFile" where
  "node_of_bytes bs =
     \<lparr>node_state = hd bs, fname = take MAX_FILENAME_LENGTH (drop 1 bs),
      parent_block = of_le32 (drop 72 bs), filesize = of_le32 (drop 76 bs),
      created_at = of_le64 (drop 80 bs), modified_at = of_le64 (drop 88 bs),
      blocks = of_le32s 1000 (drop 96 bs)\<rparr>"

section \<open>State\<close>

record sac_opened_file =
  fd :: "16 word"
  node_block :: "32 word"
  mode :: byte
  opened_state :: byte
  opened_fname :: "byte list"
  opened_parent :: "32 word"

record sac =
  disk :: "byte list"
  node_table_start :: int
  node_table_end :: int
  bitmap_start :: int
  bitmap_end :: int
  data_blocks_start :: int
  data_blocks_end :: int
  bitmap_size_bytes :: int
  opened_files :: "sac_opened_file list"
  streams :: nat
  times :: nat

text \<open>
  The surroundings: what fresh memory holds, how many streams a process can have, the results of
  \<open>time\<close>, the low byte of the address of a string, and the functions of so-commons on strings and
  bit arrays.
\<close>

record sac_env =
  indet :: "nat \<Rightarrow> byte"
  max_streams :: nat
  time_now :: "nat \<Rightarrow> 64 word"
  addr_byte :: byte
  string_split :: "byte list \<Rightarrow> byte \<Rightarrow> byte list list"
  bit_test :: "byte list \<Rightarrow> nat \<Rightarrow> bool"
  bit_set :: "byte list \<Rightarrow> nat \<Rightarrow> byte list"
  bit_clean :: "byte list \<Rightarrow> nat \<Rightarrow> byte list"

section \<open>Streams and strings\<close>

definition fopen :: "sac_env \<Rightarrow> sac \<Rightarrow> sac outcome" where
  "fopen E s = (if streams s < max_streams E then Ret (s\<lparr>streams := Suc (streams s)\<rparr>) else Fault)"

definition fclose :: "sac \<Rightarrow> sac" where
  "fclose s = s\<lparr>streams := streams s - 1\<rparr>"

text \<open>
  The position after \<open>fseek\<close> to a block: the product is computed in \<open>int\<close>, and a seek to a negative
  position fails and leaves the old one.
\<close>

definition seek_to :: "nat \<Rightarrow> int \<Rightarrow> nat outcome" where
  "seek_to pos off =
     (if \<not> in_int off then Fault else if off < 0 then Ret pos else Ret (nat off))"

definition fread :: "byte list \<Rightarrow> nat \<Rightarrow> nat \<Rightarrow> byte list" where
  "fread d pos n = take n (drop pos d)"

definition fwrite :: "byte list \<Rightarrow> nat \<Rightarrow> byte list \<Rightarrow> byte list" where
  "fwrite d pos bs = take pos (d @ replicate (pos - length d) 0) @ bs @ drop (pos + length bs) d"

text \<open>A node read into a fresh struct; the bytes behind the end of the disk stay as they were.\<close>

definition read_node :: "sac_env \<Rightarrow> byte list \<Rightarrow> nat \<Rightarrow> GFile" where
  "read_node E d pos = node_of_bytes (fill (indet E) BLOCK_SIZE (fread d pos BLOCK_SIZE))"

text \<open>A block of \<open>n\<close> bytes that is not written yet.\<close>

definition fresh_bytes :: "sac_env \<Rightarrow> nat \<Rightarrow> byte list" where
  "fresh_bytes E n = map (indet E) [0..<n]"

declare upt_rec_numeral [simp del]

text \<open>\<open>strcmp\<close> of an array with a string, given without its terminator, for equality.\<close>

fun c_streq :: "mem \<Rightarrow> byte list \<Rightarrow> bool outcome" where
  "c_streq [] cs = Fault"
| "c_streq (b # bs) [] = Ret (b = 0)"
| "c_streq (b # bs) (c # cs) = (if b = c then c_streq bs cs else Ret False)"

definition c_text :: "string \<Rightarrow> byte list" where
  "c_text str = map of_char str"

section \<open>Blocks\<close>

definition check_node_state :: "sac_env \<Rightarrow> int \<Rightarrow> sac \<Rightarrow> (int \<times> sac) outcome" where
  "check_node_state E directory_node_number s =
     obind (fopen E s) (\<lambda>s1.
     obind (seek_to 0 (directory_node_number * int BLOCK_SIZE)) (\<lambda>pos.
       Ret (uint (node_state (read_node E (disk s1) pos)), s1)))"

text \<open>\<open>read_block\<close> returns a fresh block with one byte more than it reads.\<close>

definition read_block :: "sac_env \<Rightarrow> int \<Rightarrow> int \<Rightarrow> sac \<Rightarrow> mem outcome" where
  "read_block E block offset s =
     (let size = int BLOCK_SIZE - offset in
      if \<not> in_int (int BLOCK_SIZE * block) \<or> size < 0 then Fault
      else
        obind (fopen E s) (\<lambda>s1.
        obind (seek_to 0 (int BLOCK_SIZE * block + offset)) (\<lambda>pos.
          Ret (fill (indet E) (nat size + 1) (fread (disk s1) pos (nat size))))))"

definition write_block :: "sac_env \<Rightarrow> int \<Rightarrow> int \<Rightarrow> mem \<Rightarrow> sac \<Rightarrow> sac outcome" where
  "write_block E block_number offset str s =
     (if \<not> in_int (int BLOCK_SIZE * block_number) then Fault
      else
        obind (fopen E s) (\<lambda>s1.
        obind (seek_to 0 (int BLOCK_SIZE * block_number + offset)) (\<lambda>pos.
        obind (c_strlen str) (\<lambda>n.
          Ret (fclose (s1\<lparr>disk := fwrite (disk s1) pos (take n str)\<rparr>))))))"

section \<open>The bitmap\<close>

text \<open>A bit of a bit array of \<open>n\<close> bytes; other bits have no documented meaning.\<close>

definition test_bit :: "sac_env \<Rightarrow> byte list \<Rightarrow> int \<Rightarrow> int \<Rightarrow> bool outcome" where
  "test_bit E bitmap n i =
     (if 0 \<le> i \<and> i < 8 * n then Ret (bit_test E (take (nat n) bitmap) (nat i)) else Fault)"

fun first_free :: "sac_env \<Rightarrow> byte list \<Rightarrow> int \<Rightarrow> int list \<Rightarrow> int outcome" where
  "first_free E bitmap n [] = Ret (- 1)"
| "first_free E bitmap n (i # rest) =
     obind (test_bit E bitmap n i) (\<lambda>b. if \<not> b then Ret i else first_free E bitmap n rest)"

definition read_bitmap :: "sac_env \<Rightarrow> sac \<Rightarrow> byte list outcome" where
  "read_bitmap E s =
     obind (seek_to 0 (bitmap_start s * int BLOCK_SIZE)) (\<lambda>pos.
       if bitmap_size_bytes s < 0 then Fault
       else Ret (fill (indet E) (nat (bitmap_size_bytes s) + 1)
         (fread (disk s) pos (nat (bitmap_size_bytes s)))))"

definition find_free_block :: "sac_env \<Rightarrow> int \<Rightarrow> sac \<Rightarrow> int outcome" where
  "find_free_block E area s =
     obind (fopen E s) (\<lambda>s1.
     obind (read_bitmap E s1) (\<lambda>bitmap.
       if area = 0
       then first_free E bitmap (bitmap_size_bytes s) [node_table_start s..node_table_end s]
       else if area = 1
       then first_free E bitmap (bitmap_size_bytes s) [data_blocks_start s..data_blocks_end s]
       else Fault))"

text \<open>
  The loops that print the bitmap read eight bytes per row up to its first zero byte.
\<close>

definition show_bitmap :: "mem \<Rightarrow> byte list outcome" where
  "show_bitmap bitmap =
     obind (c_strlen bitmap) (\<lambda>n. mem_read bitmap (8 * ((n + 7) div 8)))"

definition set_block_as_occupied :: "sac_env \<Rightarrow> int \<Rightarrow> sac \<Rightarrow> sac outcome" where
  "set_block_as_occupied E block_number s =
     obind (fopen E s) (\<lambda>s1.
     obind (read_bitmap E s1) (\<lambda>bitmap.
     obind (show_bitmap bitmap) (\<lambda>_.
       let n = nat (bitmap_size_bytes s1) in
       if 0 \<le> block_number \<and> block_number < 8 * bitmap_size_bytes s1 then
         let bitarray = bit_set E (take n bitmap) (nat block_number) in
         obind (show_bitmap (bitarray @ drop n bitmap)) (\<lambda>_.
         obind (seek_to 0 (bitmap_start s1 * int BLOCK_SIZE)) (\<lambda>pos.
           Ret (fclose (s1\<lparr>disk := fwrite (disk s1) pos bitarray\<rparr>))))
       else Fault)))"

section \<open>Printing blocks\<close>

definition chartobin :: "byte \<Rightarrow> string" where
  "chartobin c = map (\<lambda>i. if bit c i then CHR ''1'' else CHR ''0'') [0..<8] @ '' ''"

fun dump_rows :: "nat \<Rightarrow> nat \<Rightarrow> byte list \<Rightarrow> string" where
  "dump_rows 0 row bs = []"
| "dump_rows (Suc n) row bs =
     ''ROW '' @ dec_nat row @ '' - : '' @ concat (map chartobin (take 8 bs)) @ [char_of (10 :: nat)] @
     dump_rows n (Suc row) (drop 8 bs)"

definition dump_block :: "sac_env \<Rightarrow> int \<Rightarrow> sac \<Rightarrow> string outcome" where
  "dump_block E b s =
     obind (fopen E s) (\<lambda>s1.
     obind (seek_to 0 (b * int BLOCK_SIZE)) (\<lambda>pos.
       Ret (dump_rows (BLOCK_SIZE div 8) 1
         (fill (indet E) BLOCK_SIZE (fread (disk s1) pos BLOCK_SIZE)))))"

text \<open>It prints the name up to its terminator, and leaves the stream open.\<close>

definition dump_file_node :: "sac_env \<Rightarrow> int \<Rightarrow> sac \<Rightarrow> sac outcome" where
  "dump_file_node E block_number s =
     obind (fopen E s) (\<lambda>s1.
     obind (seek_to 0 (block_number * int BLOCK_SIZE)) (\<lambda>pos.
     obind (c_strlen (fname (read_node E (disk s1) pos))) (\<lambda>_. Ret s1)))"

section \<open>Formatting\<close>

fun clean_bits :: "sac_env \<Rightarrow> int \<Rightarrow> byte list \<Rightarrow> int list \<Rightarrow> byte list outcome" where
  "clean_bits E n bitmap [] = Ret bitmap"
| "clean_bits E n bitmap (i # rest) =
     obind (test_bit E bitmap n i) (\<lambda>b.
       clean_bits E n (if b then bit_clean E bitmap (nat i) else bitmap) rest)"

text \<open>One block is read into a fresh block of the size of the bitmap.\<close>

definition format_bitmap_nodetable :: "sac_env \<Rightarrow> sac \<Rightarrow> sac outcome" where
  "format_bitmap_nodetable E s =
     obind (fopen E s) (\<lambda>s1.
     obind (seek_to 0 (bitmap_start s1 * int BLOCK_SIZE)) (\<lambda>pos.
       let n = bitmap_size_bytes s1; bs = fread (disk s1) pos BLOCK_SIZE in
       if n < int (length bs) then Fault
       else
         obind (clean_bits E n (fill (indet E) (nat n) bs) [2..n * 8 - 1]) (\<lambda>bitarray.
           Ret (fclose (s1\<lparr>disk := fwrite (disk s1) pos bitarray\<rparr>)))))"

text \<open>Where the parts of the disk are.\<close>

definition disk_layout :: "sac \<Rightarrow> sac" where
  "disk_layout s =
     (let disk_size_bytes = sint (of_nat (length (disk s)) :: 32 word);
        header_size_blocks = 1;
        b = ((disk_size_bytes sdiv int BLOCK_SIZE) sdiv 8) sdiv int BLOCK_SIZE;
        r = b;
        bitmap_size_blocks = (if b \<noteq> r then if b > r then r + 1 else r else b);
        node_table_size_blocks = 1024;
        data_blocks_size_blocks = (disk_size_bytes sdiv int BLOCK_SIZE) - header_size_blocks -
          bitmap_size_blocks - node_table_size_blocks;
        b_end = 1 + bitmap_size_blocks - 1;
        n_start = b_end + 1;
        n_end = n_start + node_table_size_blocks - 1;
        d_start = n_end + 1 in
      s\<lparr>bitmap_size_bytes := (disk_size_bytes sdiv int BLOCK_SIZE) sdiv 8,
        bitmap_start := 1, bitmap_end := b_end,
        node_table_start := n_start, node_table_end := n_end,
        data_blocks_start := d_start, data_blocks_end := d_start + data_blocks_size_blocks - 1\<rparr>)"

text \<open>
  The node of the root directory: a local struct of which some fields are set. The name is copied
  without its terminator.
\<close>

definition new_node :: "sac_env \<Rightarrow> byte \<Rightarrow> byte list \<Rightarrow> int \<Rightarrow> sac \<Rightarrow> GFile \<times> sac" where
  "new_node E st name parent s =
     (let g = node_of_bytes (fresh_bytes E BLOCK_SIZE) in
      (g\<lparr>node_state := st, fname := name @ drop (length name) (fname g),
         parent_block := of_int parent, filesize := 0,
         created_at := time_now E (times s), modified_at := time_now E (Suc (times s)),
         blocks := (blocks g)[0 := 0]\<rparr>,
       s\<lparr>times := times s + 2\<rparr>))"

definition format_disk :: "sac_env \<Rightarrow> sac \<Rightarrow> sac outcome" where
  "format_disk E s =
     (let s1 = disk_layout s in
      obind (fopen E s1) (\<lambda>s2.
      obind (seek_to 0 (node_table_start s2 * int BLOCK_SIZE)) (\<lambda>pos.
      obind (c_streq (fname (read_node E (disk s2) pos)) (c_text ''root'')) (\<lambda>eq.
        if eq then Ret (fclose s2)
        else
          obind (format_bitmap_nodetable E (fclose s2)) (\<lambda>s3.
          obind (set_block_as_occupied E 0 s3) (\<lambda>s4.
          obind (set_block_as_occupied E 1 s4) (\<lambda>s5.
          obind (set_block_as_occupied E 2 s5) (\<lambda>s6.
            let (file_node, s7) = new_node E 2 (c_text ''root'') 0 s6 in
            obind (fopen E s7) (\<lambda>s8.
              dump_file_node E 2
                (fclose (s8\<lparr>disk := fwrite (disk s8) pos (node_bytes file_node)\<rparr>)))))))))))"

end
