(* ===== verification/SacDiskLemmas.thy ===== *)
theory SacDiskLemmas
  imports SacDisk
begin

text \<open>
  Facts on the disk of the SAC file server: nodes and their bytes, reading and writing parts of the
  disk, and what the functions on the bitmap do to it.
\<close>

section \<open>Nodes and their bytes\<close>

definition node_ok :: "GFile \<Rightarrow> bool" where
  "node_ok g \<longleftrightarrow> length (fname g) = MAX_FILENAME_LENGTH \<and> length (blocks g) = 1000"

lemma length_le64 [simp]: "length (le64 w) = 8"
  by (simp add: le64_def)

lemma of_le64_le64 [simp]: "of_le64 (le64 w @ rest) = w"
proof -
  have "ucast (ucast w :: 32 word) OR push_bit 32 (ucast (ucast (drop_bit 32 w) :: 32 word)) = w"
    by (rule bit_word_eqI) (auto simp: bit_simps)
  then show ?thesis by (simp add: of_le64_def le64_def)
qed

lemma length_le32s [simp]: "length (concat (map le32 ws)) = 4 * length ws"
  by (induction ws) auto

lemma of_le32s_le32s: "of_le32s (length ws) (concat (map le32 ws) @ rest) = ws"
  by (induction ws) auto

lemma length_of_le32s [simp]: "length (of_le32s n bs) = n"
  by (induction n arbitrary: bs) auto

lemma le32s_of_le32s: "4 * n \<le> length bs \<Longrightarrow> concat (map le32 (of_le32s n bs)) = take (4 * n) bs"
proof (induction n arbitrary: bs)
  case (Suc n)
  have "take (4 * Suc n) bs = take 4 bs @ take (4 * n) (drop 4 bs)"
    using take_add [of 4 "4 * n" bs] by simp
  with Suc show ?case by (simp add: le32_of_le32)
qed simp

lemma length_node_bytes: "node_ok g \<Longrightarrow> length (node_bytes g) = BLOCK_SIZE"
  by (simp add: node_bytes_def node_ok_def)

lemma node_of_bytes_node_bytes:
  assumes "node_ok g"
  shows "node_of_bytes (node_bytes g @ rest) = g"
proof -
  have l: "length (fname g) = 71" "length (blocks g) = 1000" using assms by (auto simp: node_ok_def)
  have "of_le32s 1000 (concat (map le32 (blocks g)) @ rest) = blocks g"
    using of_le32s_le32s [of "blocks g" rest] l by simp
  with l show ?thesis by (simp add: node_of_bytes_def node_bytes_def)
qed

lemma le64_of_le64:
  assumes "8 \<le> length bs"
  shows "le64 (of_le64 bs) = take 8 bs"
proof -
  have "ucast (of_le64 bs) = of_le32 bs"
    unfolding of_le64_def by (rule bit_word_eqI) (auto simp: bit_simps)
  moreover have "ucast (drop_bit 32 (of_le64 bs)) = of_le32 (drop 4 bs)"
    unfolding of_le64_def by (rule bit_word_eqI) (auto simp: bit_simps dest: bit_imp_le_length)
  moreover have "take 8 bs = take 4 bs @ take 4 (drop 4 bs)"
    using take_add [of 4 4 bs] by simp
  ultimately show ?thesis using assms by (simp add: le64_def le32_of_le32)
qed

lemma node_bytes_node_of_bytes:
  assumes "length bs = BLOCK_SIZE"
  shows "node_bytes (node_of_bytes bs) = bs"
proof -
  have split: "take m (drop n bs) @ drop (n + m) bs = drop n bs" for m n
    using append_take_drop_id [of m "drop n bs"] by (simp add: add.commute)
  have "concat (map le32 (of_le32s 1000 (drop 96 bs))) = drop 96 bs"
    using le32s_of_le32s [of 1000 "drop 96 bs"] assms by simp
  moreover have "hd bs # drop 1 bs = bs" using assms by (cases bs) auto
  ultimately show ?thesis
    using assms split [of 71 1] split [of 4 72] split [of 4 76] split [of 8 80] split [of 8 88]
    by (simp add: node_bytes_def node_of_bytes_def le32_of_le32 le64_of_le64)
qed

lemma node_ok_node_of_bytes:
  "length bs = BLOCK_SIZE \<Longrightarrow> node_ok (node_of_bytes bs)"
  by (simp add: node_ok_def node_of_bytes_def)

section \<open>Reading and writing\<close>

lemma length_fresh_bytes [simp]: "length (fresh_bytes E n) = n"
  by (simp add: fresh_bytes_def)

lemma length_fread: "pos + n \<le> length d \<Longrightarrow> length (fread d pos n) = n"
  by (simp add: fread_def)

lemma nth_fread: "i < n \<Longrightarrow> pos + n \<le> length d \<Longrightarrow> fread d pos n ! i = d ! (pos + i)"
  by (simp add: fread_def)

lemma fwrite_inside:
  "pos + length bs \<le> length d \<Longrightarrow> fwrite d pos bs = take pos d @ bs @ drop (pos + length bs) d"
  by (simp add: fwrite_def)

lemma length_fwrite [simp]: "pos + length bs \<le> length d \<Longrightarrow> length (fwrite d pos bs) = length d"
  by (simp add: fwrite_inside)

lemma fread_fwrite_same: "fread (fwrite d pos bs) pos (length bs) = bs"
  by (simp add: fread_def fwrite_def)

lemma nth_fwrite:
  assumes "pos + length bs \<le> length d" "i < length d"
  shows "fwrite d pos bs ! i =
    (if pos \<le> i \<and> i < pos + length bs then bs ! (i - pos) else d ! i)"
  using assms by (auto simp: fwrite_inside nth_append)

lemma fread_fwrite_other:
  assumes "pos + length bs \<le> length d" "pos' + n \<le> length d"
    "pos' + n \<le> pos \<or> pos + length bs \<le> pos'"
  shows "fread (fwrite d pos bs) pos' n = fread d pos' n"
proof (rule nth_equalityI)
  show "length (fread (fwrite d pos bs) pos' n) = length (fread d pos' n)"
    using assms by (simp add: length_fread)
next
  fix i assume "i < length (fread (fwrite d pos bs) pos' n)"
  then have i: "i < n" using assms by (simp add: length_fread)
  then show "fread (fwrite d pos bs) pos' n ! i = fread d pos' n ! i"
    using assms by (auto simp: nth_fread nth_fwrite)
qed

lemma seek_to_Ret: "0 \<le> off \<Longrightarrow> off < 2 ^ 31 \<Longrightarrow> seek_to pos off = Ret (nat off)"
  by (simp add: seek_to_def in_int_def)

text \<open>The node in a block of a disk that has the block.\<close>

definition node_at :: "byte list \<Rightarrow> nat \<Rightarrow> GFile" where
  "node_at d b = node_of_bytes (fread d (b * BLOCK_SIZE) BLOCK_SIZE)"

lemma read_node_at:
  "(b + 1) * BLOCK_SIZE \<le> length d \<Longrightarrow> read_node E d (b * BLOCK_SIZE) = node_at d b"
  by (simp add: read_node_def node_at_def length_fread)

lemma node_at_write:
  assumes "node_ok g" "(b + 1) * BLOCK_SIZE \<le> length d"
  shows "node_at (fwrite d (b * BLOCK_SIZE) (node_bytes g)) b = g"
  using assms fread_fwrite_same [of d "b * BLOCK_SIZE" "node_bytes g"]
    node_of_bytes_node_bytes [of g "[]"]
  by (simp add: node_at_def length_node_bytes)

section \<open>The bitmap\<close>

text \<open>
  What so-commons documents for a bit array in mode \<open>LSB_FIRST\<close>: bit \<open>i\<close> is bit \<open>i mod 8\<close>, from the
  least significant on, of byte \<open>i div 8\<close>.
\<close>

definition bitarray_lsb :: "sac_env \<Rightarrow> bool" where
  "bitarray_lsb E \<longleftrightarrow> (\<forall>bs i. i < 8 * length bs \<longrightarrow>
     bit_test E bs i = bit (bs ! (i div 8)) (i mod 8) \<and>
     bit_set E bs i = bs[i div 8 := set_bit (i mod 8) (bs ! (i div 8))] \<and>
     bit_clean E bs i = bs[i div 8 := unset_bit (i mod 8) (bs ! (i div 8))])"

definition bitmap_pos :: "sac \<Rightarrow> nat" where
  "bitmap_pos s = nat (bitmap_start s) * BLOCK_SIZE"

definition bitmap_len :: "sac \<Rightarrow> nat" where
  "bitmap_len s = nat (bitmap_size_bytes s)"

text \<open>Bit \<open>i\<close> of the bitmap on the disk: block \<open>i\<close> is in use.\<close>

definition occupied :: "sac \<Rightarrow> nat \<Rightarrow> bool" where
  "occupied s i \<longleftrightarrow> bit (disk s ! (bitmap_pos s + i div 8)) (i mod 8)"

definition bitmap_ok :: "sac \<Rightarrow> bool" where
  "bitmap_ok s \<longleftrightarrow> 0 \<le> bitmap_start s \<and> 0 \<le> bitmap_size_bytes s \<and>
     bitmap_pos s + bitmap_len s \<le> length (disk s) \<and> length (disk s) < 2 ^ 31 \<and>
     8 dvd bitmap_len s"

abbreviation bitmap :: "sac \<Rightarrow> byte list" where
  "bitmap s \<equiv> fread (disk s) (bitmap_pos s) (bitmap_len s)"

lemma bitmap_seek: "bitmap_ok s \<Longrightarrow> seek_to pos (bitmap_start s * 4096) = Ret (bitmap_pos s)"
  by (subst seek_to_Ret) (auto simp: bitmap_ok_def bitmap_pos_def nat_mult_distrib)

lemma length_bitmap: "bitmap_ok s \<Longrightarrow> length (bitmap s) = bitmap_len s"
  by (simp add: bitmap_ok_def length_fread)

lemma read_bitmap_ok:
  assumes "bitmap_ok s"
  shows "read_bitmap E s = Ret (bitmap s @ [indet E (bitmap_len s)])"
proof -
  have "fill (indet E) (bitmap_len s + 1) (bitmap s) = bitmap s @ [indet E (bitmap_len s)]"
    using length_bitmap [OF assms] by (simp add: fill_def)
  then show ?thesis
    using assms by (simp add: read_bitmap_def bitmap_seek bitmap_len_def bitmap_ok_def)
qed

lemma nth_bitmap:
  "bitmap_ok s \<Longrightarrow> k < bitmap_len s \<Longrightarrow> bitmap s ! k = disk s ! (bitmap_pos s + k)"
  by (simp add: bitmap_ok_def nth_fread)

lemma div_8_less: "i < 8 * n \<Longrightarrow> i div 8 < (n :: nat)"
  by (simp add: less_mult_imp_div_less mult.commute)

lemma test_bit_ok:
  assumes "bitarray_lsb E" "bitmap_ok s" "0 \<le> i" "i < 8 * bitmap_size_bytes s"
  shows "test_bit E (bitmap s @ rest) (bitmap_size_bytes s) i = Ret (occupied s (nat i))"
proof -
  have i: "nat i < 8 * bitmap_len s"
    using assms by (auto simp: bitmap_len_def bitmap_ok_def)
  have "bit_test E (bitmap s) (nat i) = occupied s (nat i)"
    using assms(1,2) i
    by (simp add: bitarray_lsb_def length_bitmap occupied_def nth_bitmap div_8_less)
  then show ?thesis
    using assms length_bitmap [OF assms(2)] by (simp add: test_bit_def bitmap_len_def)
qed

lemma first_free_ok:
  assumes "bitarray_lsb E" "bitmap_ok s" "\<forall>i \<in> set is1. 0 \<le> i \<and> i < 8 * bitmap_size_bytes s"
  shows "first_free E (bitmap s @ rest) (bitmap_size_bytes s) is1 =
    Ret (case find (\<lambda>i. \<not> occupied s (nat i)) is1 of None \<Rightarrow> - 1 | Some i \<Rightarrow> i)"
  using assms(3) by (induction is1) (simp_all add: test_bit_ok [OF assms(1,2)])

lemma c_strlen_zero: "0 \<in> set bs \<Longrightarrow> \<exists>n < length bs. c_strlen bs = Ret n"
  by (induction bs) auto

lemma show_bitmap_ok:
  assumes "0 \<in> set bs" "8 dvd length bs"
  shows "\<exists>r. show_bitmap (bs @ rest) = Ret r"
proof -
  obtain n where n: "n < length bs" "c_strlen bs = Ret n" using c_strlen_zero [OF assms(1)] by blast
  have "c_strlen (xs @ ys) = Ret k" if "c_strlen xs = Ret k" for xs ys k
    using that by (induction xs arbitrary: k) (auto simp: obind_Ret_iff split: if_splits)
  then have "c_strlen (bs @ rest) = Ret n" using n by blast
  moreover have "8 * ((n + 7) div 8) \<le> length bs"
    using n(1) assms(2) by (elim dvdE) simp
  ultimately show ?thesis by (simp add: show_bitmap_def mem_read_def)
qed

text \<open>Setting a bit is the update of one byte of the disk.\<close>

definition occupy :: "nat \<Rightarrow> sac \<Rightarrow> sac" where
  "occupy b s = s\<lparr>disk := (disk s)[bitmap_pos s + b div 8 :=
     set_bit (b mod 8) (disk s ! (bitmap_pos s + b div 8))]\<rparr>"

lemma set_block_ok:
  assumes "bitarray_lsb E" "bitmap_ok s" "streams s < max_streams E" "b < 8 * bitmap_len s"
    "k < bitmap_len s" "disk s ! (bitmap_pos s + k) = 0" "k \<noteq> b div 8"
  shows "set_block_as_occupied E (int b) s = Ret (occupy b s)"
proof -
  let ?s = "s\<lparr>streams := Suc (streams s)\<rparr>" and ?n = "bitmap_len s"
  let ?bm = "(bitmap s)[b div 8 := set_bit (b mod 8) (bitmap s ! (b div 8))]"
  have s: "bitmap_ok ?s" "bitmap ?s = bitmap s" "bitmap_len ?s = ?n" "bitmap_pos ?s = bitmap_pos s"
    using assms(2) by (simp_all add: bitmap_ok_def bitmap_pos_def bitmap_len_def)
  note len = length_bitmap [OF assms(2)]
  have d: "8 dvd length (bitmap s)" using assms(2) len by (simp add: bitmap_ok_def)
  have "bitmap s ! k = 0" using nth_bitmap [OF assms(2,5)] assms(6) by simp
  then have "0 \<in> set (bitmap s)" using len assms(5) by (metis nth_mem)
  then obtain r where r: "show_bitmap (bitmap s @ [indet E ?n]) = Ret r"
    using show_bitmap_ok d by blast
  have "?bm ! k = 0" using \<open>bitmap s ! k = 0\<close> assms(7) by simp
  then have "0 \<in> set ?bm" using len assms(5) by (metis nth_mem length_list_update)
  then obtain r' where r': "show_bitmap (?bm @ [indet E ?n]) = Ret r'"
    using show_bitmap_ok [of ?bm] d by auto
  have set: "bit_set E (bitmap s) b = ?bm"
    using assms(1,4) len by (simp add: bitarray_lsb_def)
  have "fwrite (disk s) (bitmap_pos s) ?bm = disk (occupy b s)"
  proof (rule nth_equalityI)
    show "length (fwrite (disk s) (bitmap_pos s) ?bm) = length (disk (occupy b s))"
      using assms(2) len by (simp add: bitmap_ok_def occupy_def)
  next
    fix i assume "i < length (fwrite (disk s) (bitmap_pos s) ?bm)"
    then have "i < length (disk s)" using assms(2) len by (simp add: bitmap_ok_def)
    moreover have "b div 8 < ?n" using assms(4) by (rule div_8_less)
    ultimately show "fwrite (disk s) (bitmap_pos s) ?bm ! i = disk (occupy b s) ! i"
      using assms(2) len nth_bitmap [OF assms(2)]
      by (auto simp: nth_fwrite bitmap_ok_def occupy_def nth_list_update)
  qed
  moreover have "int b < 8 * bitmap_size_bytes s" using assms(4) by (simp add: bitmap_len_def)
  ultimately show ?thesis
    using assms(3) r r' set len s(1) bitmap_seek [OF assms(2)]
    by (simp add: Let_def set_block_as_occupied_def fopen_def read_bitmap_ok s bitmap_seek fclose_def
      bitmap_len_def [symmetric] occupy_def)
qed

lemma occupy_sel [simp]:
  "bitmap_pos (occupy b s) = bitmap_pos s" "bitmap_len (occupy b s) = bitmap_len s"
  "length (disk (occupy b s)) = length (disk s)" "streams (occupy b s) = streams s"
  "bitmap_size_bytes (occupy b s) = bitmap_size_bytes s" "bitmap_start (occupy b s) = bitmap_start s"
  by (simp_all add: occupy_def bitmap_pos_def bitmap_len_def)

lemma bitmap_ok_occupy [simp]: "bitmap_ok (occupy b s) = bitmap_ok s"
  by (simp add: bitmap_ok_def)

lemma occupied_occupy:
  assumes "bitmap_ok s" "b < 8 * bitmap_len s" "i < 8 * bitmap_len s"
  shows "occupied (occupy b s) i \<longleftrightarrow> i = b \<or> occupied s i"
proof -
  have "b div 8 < bitmap_len s" "i div 8 < bitmap_len s" using assms(2,3) by (simp_all add: div_8_less)
  moreover have "i = b \<longleftrightarrow> i div 8 = b div 8 \<and> i mod 8 = b mod 8"
    by (metis div_mult_mod_eq)
  ultimately show ?thesis
    using assms(1) by (auto simp: occupied_def occupy_def bitmap_ok_def bitmap_pos_def
      nth_list_update bit_simps)
qed

end
