(* ===== verification/SacFind.thy ===== *)
theory SacFind
  imports SacDisk
begin

text \<open>
  Looking up paths and the table of opened files of the SAC file server
  (\<^verbatim>\<open>fileSystem/sac/sac_servidor/sac_servidor.c\<close>).
\<close>

section \<open>Paths\<close>

abbreviation slash :: byte where "slash \<equiv> 47"
abbreviation quote :: byte where "quote \<equiv> 34"

text \<open>
  What \<open>parse_path\<close> and \<open>parse_input\<close> do with a part that starts with a quotation mark: the marks
  are taken off, and a part that does not end with one is malformed (\<open>None\<close>). A single mark makes
  the length of the copy negative.
\<close>

definition unquote :: "byte list \<Rightarrow> byte list option outcome" where
  "unquote part =
     (if part = [] \<or> hd part \<noteq> quote then Ret (Some part)
      else if last part = quote
      then if length part < 2 then Fault else Ret (Some (butlast (tl part)))
      else Ret None)"

fun unquote_all :: "byte list list \<Rightarrow> byte list list option outcome" where
  "unquote_all [] = Ret (Some [])"
| "unquote_all (part # parts) =
     obind (unquote part) (\<lambda>v.
       case v of None \<Rightarrow> Ret None
       | Some value \<Rightarrow> obind (unquote_all parts) (\<lambda>vs.
           Ret (case vs of None \<Rightarrow> None | Some values \<Rightarrow> Some (value # values))))"

text \<open>
  \<open>parse_path\<close> returns the array of the parts, or a text where the array is expected (\<open>Inl\<close>).
\<close>

definition parse_path :: "sac_env \<Rightarrow> byte list \<Rightarrow> (byte list + byte list list) outcome" where
  "parse_path E path =
     (let path_array = string_split E path slash in
      if path_array = [] then Ret (Inl [])
      else obind (unquote_all path_array) (\<lambda>v.
        Ret (case v of None \<Rightarrow> Inl (c_text ''Parametro malformado.'' @ [10]) | Some a \<Rightarrow> Inr a)))"

text \<open>
  The first loop of \<open>find_node\<close>: the numbers of the nodes with the last name of the path. A read at
  the end of the disk leaves the struct as it was.
\<close>

fun scan_table ::
  "byte list \<Rightarrow> byte list \<Rightarrow> int \<Rightarrow> nat \<Rightarrow> nat \<Rightarrow> byte list \<Rightarrow> (int list \<times> nat) outcome" where
  "scan_table d name i 0 pos current_node = Ret ([], pos)"
| "scan_table d name i (Suc n) pos current_node =
     (let bs = fread d pos BLOCK_SIZE; node = bs @ drop (length bs) current_node in
      obind (c_streq (fname (node_of_bytes node)) name) (\<lambda>eq.
      obind (scan_table d name (i + 1) n (pos + length bs) node) (\<lambda>(matches, pos').
        Ret (if eq then (2 + i) # matches else matches, pos'))))"

text \<open>
  The inner loop, for one match: the parents are compared with the names of the path from the last
  one on. \<open>levels\<close> holds the names not compared yet, nearest first, so it is empty when
  \<open>iterations\<close> is the length of the path. The parents are read even when no name is left.
\<close>

fun check_parents ::
  "sac_env \<Rightarrow> byte list \<Rightarrow> nat \<Rightarrow> int \<Rightarrow> byte list list \<Rightarrow> (bool \<times> nat) outcome" where
  "check_parents E d pos parent [] =
     (if parent = 0 then Ret (True, pos)
      else obind (seek_to pos (parent * int BLOCK_SIZE)) (\<lambda>pos'.
        Ret (False, pos' + length (fread d pos' BLOCK_SIZE))))"
| "check_parents E d pos parent (level # levels) =
     (if parent = 0 then Ret (False, pos)
      else obind (seek_to pos (parent * int BLOCK_SIZE)) (\<lambda>pos'.
        let parent_node = read_node E d pos'; pos1 = pos' + length (fread d pos' BLOCK_SIZE) in
        obind (c_streq (fname parent_node) level) (\<lambda>eq.
          if \<not> eq then Ret (False, pos1)
          else check_parents E d pos1 (sint (parent_block parent_node)) levels)))"

text \<open>
  The loop over the matches, from the last one down. \<open>flag_discarded\<close> is set for good when a match
  is discarded, and then the inner loop is not entered any more.
\<close>

fun try_matches ::
  "sac_env \<Rightarrow> byte list \<Rightarrow> byte list list \<Rightarrow> nat \<Rightarrow> bool \<Rightarrow> int list \<Rightarrow> int outcome" where
  "try_matches E d levels pos flag_discarded [] = Ret 0"
| "try_matches E d levels pos flag_discarded (m # ms) =
     obind (seek_to pos (m * int BLOCK_SIZE)) (\<lambda>pos1.
       let match_node = read_node E d pos1; pos2 = pos1 + length (fread d pos1 BLOCK_SIZE) in
       if flag_discarded then try_matches E d levels pos2 True ms
       else obind (check_parents E d pos2 (sint (parent_block match_node)) levels)
         (\<lambda>(found, pos3). if found then Ret m else try_matches E d levels pos3 True ms))"

definition find_node :: "sac_env \<Rightarrow> (byte list + byte list list) \<Rightarrow> sac \<Rightarrow> int outcome" where
  "find_node E path_array s =
     (case path_array of
        Inl text \<Rightarrow> Fault
      | Inr names \<Rightarrow>
          if names = [] then Fault
          else
            obind (fopen E s) (\<lambda>s1.
            obind (seek_to 0 (node_table_start s1 * int BLOCK_SIZE)) (\<lambda>pos.
            obind (scan_table (disk s1) (last names) 0 1024 pos (fresh_bytes E BLOCK_SIZE))
              (\<lambda>(posible_matches, pos1).
                if posible_matches = [] then Ret 0
                else try_matches E (disk s1) (rev (butlast names)) pos1 False
                  (rev posible_matches)))))"

definition search_for_file :: "sac_env \<Rightarrow> byte list \<Rightarrow> sac \<Rightarrow> int outcome" where
  "search_for_file E path s =
     (if path = [slash] then Ret 1
      else obind (parse_path E path) (\<lambda>path_array. find_node E path_array s))"

section \<open>Directories\<close>

text \<open>The names of the nodes whose parent is the directory, each with a slash.\<close>

fun collect_childs ::
  "byte list \<Rightarrow> 32 word \<Rightarrow> nat \<Rightarrow> nat \<Rightarrow> byte list \<Rightarrow> byte list outcome" where
  "collect_childs d dir 0 pos current_node = Ret []"
| "collect_childs d dir (Suc n) pos current_node =
     (let bs = fread d pos BLOCK_SIZE; bytes = bs @ drop (length bs) current_node;
        node = node_of_bytes bytes in
      obind (if parent_block node = dir
             then obind (c_strlen (fname node)) (\<lambda>k. Ret (take k (fname node) @ [slash]))
             else Ret []) (\<lambda>name.
      obind (collect_childs d dir n (pos + length bs) bytes) (\<lambda>names. Ret (name @ names))))"

definition search_for_dir_childs :: "sac_env \<Rightarrow> int \<Rightarrow> sac \<Rightarrow> byte list outcome" where
  "search_for_dir_childs E dir_node_number s =
     obind (fopen E s) (\<lambda>s1.
     obind (seek_to 0 (node_table_start s1 * int BLOCK_SIZE)) (\<lambda>pos.
       collect_childs (disk s1) (of_int dir_node_number)
         (nat (node_table_end s1 - node_table_start s1 + 1)) pos (fresh_bytes E BLOCK_SIZE)))"

text \<open>The condition of its loop compares strings, with a block number and the null pointer.\<close>

definition search_for_dir_childs2 :: "sac_env \<Rightarrow> int \<Rightarrow> sac \<Rightarrow> byte list outcome" where
  "search_for_dir_childs2 E dir_node_number s =
     obind (fopen E s) (\<lambda>s1.
     obind (seek_to 0 (dir_node_number * int BLOCK_SIZE)) (\<lambda>pos. Fault))"

section \<open>Opened files\<close>

text \<open>
  The table is a linked list that only grows. The descriptor is computed in \<open>int\<close> and stored in 16
  bits. The first entry copies the whole name, the others up to its terminator.
\<close>

definition insert_to_opened_files_table ::
  "sac_env \<Rightarrow> sac_opened_file \<Rightarrow> sac \<Rightarrow> (int \<times> sac) outcome" where
  "insert_to_opened_files_table E opened_file s =
     (if opened_files s = [] then
        Ret (1, s\<lparr>opened_files := [opened_file\<lparr>fd := 1\<rparr>]\<rparr>)
      else
        let d = uint (fd (last (opened_files s))) + 1 in
        obind (c_strlen (opened_fname opened_file)) (\<lambda>n.
          Ret (d, s\<lparr>opened_files := opened_files s @ [opened_file\<lparr>fd := of_int d,
            opened_fname := fill (indet E) MAX_FILENAME_LENGTH (take n (opened_fname opened_file))\<rparr>]\<rparr>)))"

fun find_opened :: "sac_opened_file list \<Rightarrow> 32 word \<Rightarrow> int" where
  "find_opened [] n = 0"
| "find_opened (f # fs) n = (if node_block f = n then uint (fd f) else find_opened fs n)"

definition is_file_opened :: "int \<Rightarrow> sac \<Rightarrow> int" where
  "is_file_opened file_node_number s = find_opened (opened_files s) (of_int file_node_number)"

end
