(* ===== verification/SacFindLemmas.thy ===== *)
theory SacFindLemmas
  imports SacDiskLemmas SacFind
begin

text \<open>
  What a path lookup computes, on a disk whose nodes are well-formed: the names are compared as
  strings, the nodes with the last name of the path are the candidates, and a candidate is right
  when its chain of parents spells the path.
\<close>

section \<open>Names\<close>

text \<open>The string in an array of characters.\<close>

definition cstr :: "byte list \<Rightarrow> byte list" where
  "cstr bs = takeWhile (\<lambda>b. b \<noteq> 0) bs"

lemma c_streq_cstr:
  "0 \<in> set bs \<Longrightarrow> 0 \<notin> set cs \<Longrightarrow> c_streq bs cs = Ret (cstr bs = cs)"
proof (induction bs cs rule: c_streq.induct)
  case (3 b bs c cs)
  then show ?case by (auto simp: cstr_def)
qed (auto simp: cstr_def)

lemma c_strlen_cstr: "0 \<in> set bs \<Longrightarrow> c_strlen bs = Ret (length (cstr bs))"
  by (induction bs) (auto simp: cstr_def)

lemma cstr_append_zero: "0 \<notin> set cs \<Longrightarrow> cstr (cs @ 0 # bs) = cs"
  by (simp add: cstr_def takeWhile_append)

section \<open>Well-formed tables\<close>

text \<open>
  The table of 1024 nodes from block 2 on: every name ends, and every parent is 0 or in the table.
\<close>

definition node_fits :: "byte list \<Rightarrow> nat \<Rightarrow> bool" where
  "node_fits d b \<longleftrightarrow> 0 \<in> set (fname (node_at d b)) \<and>
     (parent_block (node_at d b) = 0 \<or>
      2 \<le> unat (parent_block (node_at d b)) \<and> unat (parent_block (node_at d b)) \<le> 1025)"

definition table_ok :: "byte list \<Rightarrow> bool" where
  "table_ok d \<longleftrightarrow> 1026 * BLOCK_SIZE \<le> length d \<and> (\<forall>b. 2 \<le> b \<longrightarrow> b \<le> 1025 \<longrightarrow> node_fits d b)"

abbreviation node_name :: "byte list \<Rightarrow> nat \<Rightarrow> byte list" where
  "node_name d b \<equiv> cstr (fname (node_at d b))"

text \<open>The numbers of the nodes with a name, in order.\<close>

definition candidates :: "byte list \<Rightarrow> byte list \<Rightarrow> nat list" where
  "candidates d name = filter (\<lambda>b. node_name d b = name) [2..<1026]"

text \<open>The chain of parents from a node on spells the levels, nearest first, up to the root.\<close>

fun spells :: "byte list \<Rightarrow> 32 word \<Rightarrow> byte list list \<Rightarrow> bool" where
  "spells d parent [] \<longleftrightarrow> parent = 0"
| "spells d parent (level # levels) \<longleftrightarrow>
     parent \<noteq> 0 \<and> node_name d (unat parent) = level \<and>
     spells d (parent_block (node_at d (unat parent))) levels"

definition has_path :: "byte list \<Rightarrow> nat \<Rightarrow> byte list list \<Rightarrow> bool" where
  "has_path d b names \<longleftrightarrow> 2 \<le> b \<and> b \<le> 1025 \<and> node_name d b = last names \<and>
     spells d (parent_block (node_at d b)) (rev (butlast names))"

section \<open>The loops\<close>

lemma scan_table_ok:
  assumes "(b + n) * BLOCK_SIZE \<le> length d" "0 \<notin> set name"
    "\<forall>i < n. 0 \<in> set (fname (node_at d (b + i)))" "length old = BLOCK_SIZE"
  shows "scan_table d name i n (b * BLOCK_SIZE) old =
    Ret (map (\<lambda>j. int j - int b + i + 2) (filter (\<lambda>j. node_name d j = name) [b..<b + n]),
      (b + n) * BLOCK_SIZE)"
  using assms
proof (induction n arbitrary: b i old)
  case (Suc n)
  let ?bs = "fread d (b * BLOCK_SIZE) BLOCK_SIZE"
  have len: "length ?bs = BLOCK_SIZE" using Suc.prems(1) by (simp add: length_fread)
  have upt: "[b..<b + Suc n] = b # [Suc b..<Suc b + n]" by (simp add: upt_conv_Cons)
  have "0 \<in> set (fname (node_at d b))" using Suc.prems(3) by force
  then have eq: "c_streq (fname (node_of_bytes ?bs)) name = Ret (node_name d b = name)"
    using Suc.prems(2) by (simp add: node_at_def c_streq_cstr)
  have pos: "b * BLOCK_SIZE + BLOCK_SIZE = Suc b * BLOCK_SIZE" by simp
  have "\<forall>i < n. 0 \<in> set (fname (node_at d (Suc b + i)))" using Suc.prems(3) by auto
  moreover have "(Suc b + n) * BLOCK_SIZE \<le> length d" using Suc.prems(1) by simp
  ultimately have "scan_table d name (i + 1) n (Suc b * BLOCK_SIZE) ?bs =
      Ret (map (\<lambda>j. int j - int (Suc b) + (i + 1) + 2)
        (filter (\<lambda>j. node_name d j = name) [Suc b..<Suc b + n]), (Suc b + n) * BLOCK_SIZE)"
    using Suc.prems(2) len by (intro Suc.IH)
  moreover have "(\<lambda>j. int j - int (Suc b) + (i + 1) + 2) = (\<lambda>j. int j - int b + i + 2)" by auto
  ultimately have step: "scan_table d name (i + 1) n (Suc b * BLOCK_SIZE) ?bs =
      Ret (map (\<lambda>j. int j - int b + i + 2)
        (filter (\<lambda>j. node_name d j = name) [Suc b..<Suc b + n]), (Suc b + n) * BLOCK_SIZE)"
    by metis
  have "?bs @ drop (length ?bs) old = ?bs" using len Suc.prems(4) by simp
  then have "scan_table d name i (Suc n) (b * BLOCK_SIZE) old =
      Ret (if node_name d b = name
        then (2 + i) # map (\<lambda>j. int j - int b + i + 2)
          (filter (\<lambda>j. node_name d j = name) [Suc b..<Suc b + n])
        else map (\<lambda>j. int j - int b + i + 2)
          (filter (\<lambda>j. node_name d j = name) [Suc b..<Suc b + n]), (Suc b + n) * BLOCK_SIZE)"
    by (simp only: scan_table.simps Let_def eq len pos step obind.simps prod.case)
  then show ?case unfolding upt by (simp del: upt_Suc scan_table.simps)
qed simp

lemma node_fits_parent:
  assumes "table_ok d" "2 \<le> b" "b \<le> 1025" "parent_block (node_at d b) \<noteq> 0"
  shows "2 \<le> unat (parent_block (node_at d b))" "unat (parent_block (node_at d b)) \<le> 1025"
  using assms by (auto simp: table_ok_def node_fits_def)

lemma seek_block: "n \<le> 1025 \<Longrightarrow> seek_to pos (int n * 4096) = Ret (n * BLOCK_SIZE)"
  by (simp add: seek_to_Ret nat_mult_distrib)

lemma table_parent:
  fixes p :: "32 word"
  assumes "table_ok d" "p \<noteq> 0 \<longrightarrow> 2 \<le> unat p \<and> unat p \<le> 1025"
  shows "sint p = int (unat p)" "sint p = 0 \<longleftrightarrow> p = 0"
    "p \<noteq> 0 \<Longrightarrow> seek_to pos (sint p * 4096) = Ret (unat p * BLOCK_SIZE)"
    "p \<noteq> 0 \<Longrightarrow> read_node E d (unat p * BLOCK_SIZE) = node_at d (unat p)"
    "p \<noteq> 0 \<Longrightarrow> length (fread d (unat p * BLOCK_SIZE) BLOCK_SIZE) = BLOCK_SIZE"
proof -
  have u: "unat p \<le> 1025" using assms(2) by (cases "p = 0") auto
  then have "sint (of_nat (unat p) :: 32 word) = int (unat p)" by (intro sint_of_nat32) simp
  moreover have "(of_nat (unat p) :: 32 word) = p" by simp
  ultimately show s: "sint p = int (unat p)" by (simp only:)
  show "sint p = 0 \<longleftrightarrow> p = 0" by (metis sint_0 signed_word_eqI)
  show "seek_to pos (sint p * 4096) = Ret (unat p * BLOCK_SIZE)" if "p \<noteq> 0"
    using seek_block [OF u, of pos] by (simp only: s)
  have "(unat p + 1) * BLOCK_SIZE \<le> 1026 * BLOCK_SIZE" using u by (intro mult_right_mono) auto
  then have le: "(unat p + 1) * BLOCK_SIZE \<le> length d"
    using assms(1) by (simp add: table_ok_def)
  show "read_node E d (unat p * BLOCK_SIZE) = node_at d (unat p)" by (rule read_node_at [OF le])
  show "length (fread d (unat p * BLOCK_SIZE) BLOCK_SIZE) = BLOCK_SIZE"
    using le by (simp add: length_fread)
qed

lemma check_parents_ok:
  assumes "table_ok d" "p \<noteq> 0 \<longrightarrow> 2 \<le> unat p \<and> unat p \<le> 1025" "\<forall>l \<in> set levels. 0 \<notin> set l"
  shows "\<exists>pos'. check_parents E d pos (sint p) levels = Ret (spells d p levels, pos')"
  using assms(2,3)
proof (induction levels arbitrary: pos p)
  case Nil
  show ?case
    using table_parent [OF assms(1) Nil(1)] by (cases "p = 0") auto
next
  case (Cons l ls)
  show ?case
  proof (cases "p = 0")
    case False
    let ?q = "parent_block (node_at d (unat p))"
    have b: "2 \<le> unat p" "unat p \<le> 1025" using Cons.prems(1) False by auto
    then have n0: "0 \<in> set (fname (node_at d (unat p)))"
      using assms(1) by (simp add: table_ok_def node_fits_def)
    have q: "?q \<noteq> 0 \<longrightarrow> 2 \<le> unat ?q \<and> unat ?q \<le> 1025"
      using node_fits_parent [OF assms(1) b] by blast
    have "\<forall>l \<in> set ls. 0 \<notin> set l" "0 \<notin> set l" using Cons.prems(2) by auto
    with Cons.IH [OF q this(1)] table_parent [OF assms(1) Cons.prems(1)] False n0 b
    show ?thesis by (auto simp: Let_def c_streq_cstr)
  qed simp
qed

lemma try_discarded:
  assumes "table_ok d" "\<forall>m \<in> set ms. 2 \<le> m \<and> m \<le> 1025"
  shows "try_matches E d levels pos True (map int ms) = Ret 0"
  using assms(2)
proof (induction ms arbitrary: pos)
  case (Cons m ms)
  then show ?case by (simp add: seek_to_Ret Let_def)
qed simp

lemma find_node_ok:
  assumes "table_ok (disk s)" "node_table_start s = 2" "streams s < max_streams E" "names \<noteq> []"
    "\<forall>l \<in> set names. 0 \<notin> set l"
  shows "find_node E (Inr names) s =
    (let c = candidates (disk s) (last names) in
     Ret (if c \<noteq> [] \<and> has_path (disk s) (last c) names then int (last c) else 0))"
proof -
  let ?d = "disk s" and ?c = "candidates (disk s) (last names)"
  have "scan_table ?d (last names) 0 1024 (2 * BLOCK_SIZE) (fresh_bytes E BLOCK_SIZE) =
      Ret (map (\<lambda>j. int j - int 2 + 0 + 2) (filter (\<lambda>j. node_name ?d j = last names) [2..<2 + 1024]),
        (2 + 1024) * BLOCK_SIZE)"
    using assms(1,4,5) by (intro scan_table_ok) (auto simp: table_ok_def node_fits_def)
  then have scan: "scan_table ?d (last names) 0 1024 8192 (fresh_bytes E BLOCK_SIZE) =
      Ret (map int ?c, 1026 * BLOCK_SIZE)"
    by (simp add: candidates_def cong: map_cong)
  have seek: "seek_to 0 (2 * 4096) = Ret 8192" by (simp add: seek_to_Ret)
  have c: "\<forall>m \<in> set ?c. 2 \<le> m \<and> m \<le> 1025 \<and> node_name ?d m = last names"
    by (auto simp: candidates_def)
  show ?thesis
  proof (cases "?c = []")
    case True
    then show ?thesis
      using assms(2,3,4) scan seek by (simp add: find_node_def fopen_def)
  next
    case False
    define m where "m = last ?c"
    define ms where "ms = rev (butlast ?c)"
    have "?c = butlast ?c @ [m]"
      unfolding m_def by (rule append_butlast_last_id [OF False, symmetric])
    then have "rev ?c = rev (butlast ?c @ [m])" by (rule arg_cong)
    then have rev: "rev ?c = m # ms" by (simp only: ms_def rev_append rev.simps append.simps)
    have m: "2 \<le> m" "m \<le> 1025" "node_name ?d m = last names"
      using c False by (simp_all add: m_def)
    have "\<forall>k \<in> set ms. 2 \<le> k \<and> k \<le> 1025"
      using c by (auto simp: ms_def dest: in_set_butlastD)
    then have disc: "try_matches E ?d levels pos True (map int ms) = Ret 0" for levels pos
      by (rule try_discarded [OF assms(1)])
    let ?p = "parent_block (node_at ?d m)"
    have p: "?p \<noteq> 0 \<longrightarrow> 2 \<le> unat ?p \<and> unat ?p \<le> 1025"
      using node_fits_parent [OF assms(1) m(1,2)] by blast
    have "(m + 1) * BLOCK_SIZE \<le> 1026 * BLOCK_SIZE" using m(2) by (intro mult_right_mono) auto
    then have le: "(m + 1) * BLOCK_SIZE \<le> length ?d" using assms(1) by (simp add: table_ok_def)
    have "\<forall>l \<in> set (rev (butlast names)). 0 \<notin> set l"
      using assms(5) by (auto dest: in_set_butlastD)
    then obtain pos' where "check_parents E ?d (m * BLOCK_SIZE + BLOCK_SIZE) (sint ?p)
        (rev (butlast names)) = Ret (spells ?d ?p (rev (butlast names)), pos')"
      using check_parents_ok [OF assms(1) p] by blast
    then have "try_matches E ?d (rev (butlast names)) (1026 * BLOCK_SIZE) False (map int (m # ms)) =
        Ret (if spells ?d ?p (rev (butlast names)) then int m else 0)"
      using m(2) le disc read_node_at [OF le, of E]
      by (simp add: seek_to_Ret nat_mult_distrib Let_def length_fread)
    moreover have "rev (map int ?c) = map int (m # ms)" using rev by (simp add: rev_map)
    moreover have "has_path ?d m names \<longleftrightarrow> spells ?d ?p (rev (butlast names))"
      using m by (simp add: has_path_def)
    ultimately show ?thesis
      using assms(2,3,4) scan seek False by (simp add: find_node_def fopen_def m_def)
  qed
qed

end
