(* ===== verification/SacActions.thy ===== *)
theory SacActions
  imports SacFind
begin

text \<open>
  The actions of the SAC file server (\<^verbatim>\<open>fileSystem/sac/sac_servidor/sac_servidor.c\<close>): each takes
  the parameters of a request and gives the response, without its terminator, and the new state.
\<close>

section \<open>Open and opendir\<close>

text \<open>\<open>sprintf\<close> of a number into a block of \<open>n\<close> bytes.\<close>

definition sprint_int :: "nat \<Rightarrow> int \<Rightarrow> byte list outcome" where
  "sprint_int n i = (if length (dec_int i) < n then Ret (c_text (dec_int i)) else Fault)"

text \<open>
  From the reading of the node on, for an entry whose field \<open>node_block\<close> is given. The name is copied
  up to its terminator into a fresh block, and the mode is the low byte of an address.
\<close>

definition open_node :: "sac_env \<Rightarrow> int \<Rightarrow> int \<Rightarrow> 32 word \<Rightarrow> sac \<Rightarrow> (byte list \<times> sac) outcome" where
  "open_node E file_node_number file_state node s =
     obind (fopen E s) (\<lambda>s1.
     obind (seek_to 0 (file_node_number * int BLOCK_SIZE)) (\<lambda>pos.
       let file_node = read_node E (disk s1) pos in
       obind (c_strlen (fname file_node)) (\<lambda>n.
       obind (insert_to_opened_files_table E
          \<lparr>fd = 0, node_block = node, mode = addr_byte E, opened_state = of_int file_state,
           opened_fname = fill (indet E) MAX_FILENAME_LENGTH (take n (fname file_node)),
           opened_parent = parent_block file_node\<rparr> (fclose s1)) (\<lambda>(file_descriptor, s2).
       obind (sprint_int 5 file_descriptor) (\<lambda>r. Ret (r, s2))))))"

definition action_open :: "sac_env \<Rightarrow> byte list \<Rightarrow> sac \<Rightarrow> (byte list \<times> sac) outcome" where
  "action_open E path s =
     (if path = [slash] then Ret (c_text ''EISDIR'', s)
      else
        obind (search_for_file E path s) (\<lambda>file_node_number.
          if file_node_number = 0 then Ret (c_text ''-ENOENT'', s)
          else
            obind (check_node_state E file_node_number s) (\<lambda>(file_state, s1).
              if file_state = 0 then Ret (c_text ''-ENOENT'', s1)
              else if file_state = 2 then Ret (c_text ''EISDIR'', s1)
              else open_node E file_node_number file_state (of_int file_node_number) s1)))"

text \<open>It does not set the field \<open>node_block\<close> of the entry.\<close>

definition action_opendir :: "sac_env \<Rightarrow> byte list \<Rightarrow> sac \<Rightarrow> (byte list \<times> sac) outcome" where
  "action_opendir E path s =
     (if path = [slash] then Ret (c_text ''EISDIR'', s)
      else
        obind (search_for_file E path s) (\<lambda>file_node_number.
          if file_node_number = 0 then Ret (c_text ''-ENOENT'', s)
          else
            obind (check_node_state E file_node_number s) (\<lambda>(file_state, s1).
              if file_state = 0 then Ret (c_text ''-ENOENT'', s1)
              else if file_state = 1 then Ret (c_text ''EISDIR'', s1)
              else open_node E file_node_number file_state (of_le32 (map (indet E) [4..<8])) s1)))"

definition action_readdir :: "sac_env \<Rightarrow> byte list \<Rightarrow> sac \<Rightarrow> (byte list \<times> sac) outcome" where
  "action_readdir E path s =
     obind (search_for_file E path s) (\<lambda>dir_node_number.
       if dir_node_number = 0 then Ret (c_text ''EBADF'', s)
       else
         obind (check_node_state E dir_node_number s) (\<lambda>(dir_state, s1).
           if dir_state = 0 \<or> dir_state = 1 then Ret (c_text ''EBADF'', s1)
           else obind (search_for_dir_childs2 E dir_node_number s1) (\<lambda>r. Ret (r, s1))))"

section \<open>Getattr\<close>

text \<open>The stream is handed to \<open>close\<close>, and stays open.\<close>

definition action_getattr :: "sac_env \<Rightarrow> byte list \<Rightarrow> sac \<Rightarrow> (byte list \<times> sac) outcome" where
  "action_getattr E path s =
     (if path = [slash] then Ret (c_text ''S_IFDIR'', s)
      else
        obind (search_for_file E path s) (\<lambda>file_node_number.
          if file_node_number = 0 then Ret (c_text ''-ENOENT'', s)
          else
            obind (fopen E s) (\<lambda>s1.
            obind (seek_to 0 (file_node_number * int BLOCK_SIZE)) (\<lambda>pos.
              let file_node = read_node E (disk s1) pos in
              if node_state file_node = 0 \<or> node_state file_node = 1 then
                obind (sprint_int 5 (sint (filesize file_node))) (\<lambda>file_size_s.
                  Ret (c_text ''S_IFREG '' @ file_size_s, s1))
              else if node_state file_node = 2 then Ret (c_text ''S_IFDIR'', s1)
              else Ret (c_text ''-ENOENT'', s1)))))"

section \<open>Mknod and mkdir\<close>

text \<open>
  The directory of a new file, or the response when there is none: from the length of the name to
  the check of the state of the directory. The path of the directory is written to a block of the
  length of the path less the name.
\<close>

definition parent_path :: "byte list list \<Rightarrow> byte list" where
  "parent_path names = slash # concat (map (\<lambda>name. name @ [slash]) (butlast names))"

definition directory_of ::
  "sac_env \<Rightarrow> byte list \<Rightarrow> sac \<Rightarrow> ((byte list + byte list \<times> int) \<times> sac) outcome" where
  "directory_of E path s =
     (let path_array = string_split E path slash in
      if path_array = [] then Fault
      else let file_name = last path_array in
        if length file_name > MAX_FILENAME_LENGTH then Ret (Inl (c_text ''ENAMETOOLONG''), s)
        else if length path_array = 1 then Ret (Inr (file_name, 0), s)
        else let aux_path = parent_path path_array in
          if int (length path) - int (length file_name) < int (length aux_path) then Fault
          else
            obind (search_for_file E aux_path s) (\<lambda>directory_node_number.
              if directory_node_number = 0 then Ret (Inl (c_text ''ENOENT''), s)
              else
                obind (check_node_state E directory_node_number s) (\<lambda>(directory_state, s1).
                  if directory_state \<noteq> 2 then Ret (Inl (c_text ''ENOTDIR''), s1)
                  else Ret (Inr (file_name, directory_node_number), s1))))"

text \<open>
  The block is marked and the node written to it. What follows passes the address of a local struct
  to \<open>fseek\<close>, which takes a stream: the fault of the two actions. The stream the node goes to is
  neither flushed nor closed before that; the disk of the model is what its streams have been given.
\<close>

definition write_new_node ::
  "sac_env \<Rightarrow> byte \<Rightarrow> byte list \<Rightarrow> int \<Rightarrow> int \<Rightarrow> sac \<Rightarrow> sac outcome" where
  "write_new_node E st name parent free_block s =
     (let (file_node, s1) = new_node E st name parent s in
      obind (fopen E s1) (\<lambda>s2.
      obind (seek_to 0 (int BLOCK_SIZE * free_block)) (\<lambda>pos.
        Ret (s2\<lparr>disk := fwrite (disk s2) pos (node_bytes file_node)\<rparr>))))"

definition mknod_node :: "sac_env \<Rightarrow> byte list \<Rightarrow> int \<Rightarrow> sac \<Rightarrow> (int \<times> sac) outcome" where
  "mknod_node E file_name directory_node_number s =
     obind (find_free_block E 0 s) (\<lambda>free_block.
     obind (dump_block E 1 s) (\<lambda>_.
     obind (set_block_as_occupied E free_block s) (\<lambda>s1.
     obind (dump_block E 1 s1) (\<lambda>_.
     obind (write_new_node E 1 file_name directory_node_number free_block s1) (\<lambda>s2.
       Ret (free_block, s2))))))"

definition action_mknod :: "sac_env \<Rightarrow> byte list \<Rightarrow> sac \<Rightarrow> (byte list \<times> sac) outcome" where
  "action_mknod E path s =
     obind (search_for_file E path s) (\<lambda>file_node_number.
     obind (if file_node_number \<noteq> 0 then check_node_state E file_node_number s else Ret (2, s))
       (\<lambda>(file_state, s1).
     if file_state = 1 \<or> file_state = 0 then Ret (c_text ''EEXIST'', s1)
     else
       obind (directory_of E path s1) (\<lambda>(dir, s2).
         case dir of
           Inl response \<Rightarrow> Ret (response, s2)
         | Inr (file_name, directory_node_number) \<Rightarrow>
             obind (mknod_node E file_name directory_node_number s2) (\<lambda>_. Fault))))"

definition mkdir_node :: "sac_env \<Rightarrow> byte list \<Rightarrow> int \<Rightarrow> sac \<Rightarrow> (int \<times> sac) outcome" where
  "mkdir_node E file_name directory_node_number s =
     obind (find_free_block E 0 s) (\<lambda>free_block.
     obind (set_block_as_occupied E free_block s) (\<lambda>s1.
     obind (write_new_node E 2 file_name directory_node_number free_block s1) (\<lambda>s2.
       Ret (free_block, s2))))"

definition action_mkdir :: "sac_env \<Rightarrow> byte list \<Rightarrow> sac \<Rightarrow> (byte list \<times> sac) outcome" where
  "action_mkdir E path s =
     obind (search_for_file E path s) (\<lambda>file_node_number.
     obind (if file_node_number \<noteq> 0 then check_node_state E file_node_number s else Ret (0, s))
       (\<lambda>(file_state, s1).
     if file_state = 2 then Ret (c_text ''EEXIST'', s1)
     else
       obind (directory_of E path s1) (\<lambda>(dir, s2).
         case dir of
           Inl response \<Rightarrow> Ret (response, s2)
         | Inr (file_name, directory_node_number) \<Rightarrow>
             obind (mkdir_node E file_name directory_node_number s2) (\<lambda>_. Fault))))"

section \<open>Read and write\<close>

text \<open>
  How both begin: the response when the path is not an opened file, or the number of its node.
\<close>

definition opened_node :: "sac_env \<Rightarrow> byte list \<Rightarrow> sac \<Rightarrow> ((byte list + int) \<times> sac) outcome" where
  "opened_node E path s =
     (if path = [slash] then Ret (Inl (c_text ''EISDIR''), s)
      else
        obind (search_for_file E path s) (\<lambda>file_node_number.
          if file_node_number = 0 then Ret (Inl (c_text ''EBADF''), s)
          else
            obind (check_node_state E file_node_number s) (\<lambda>(file_state, s1).
              if file_state = 0 then Ret (Inl (c_text ''EBADF''), s1)
              else if file_state = 2 then Ret (Inl (c_text ''EISDIR''), s1)
              else if is_file_opened file_node_number s1 = 0 then Ret (Inl (c_text ''EBADF''), s1)
              else Ret (Inr file_node_number, s1))))"

text \<open>
  The local array of block numbers gets as many bytes of the node as \<open>strlen\<close> counts from the first
  block number on.
\<close>

definition copy_blocks :: "sac_env \<Rightarrow> GFile \<Rightarrow> 32 word list outcome" where
  "copy_blocks E file_node =
     (let bs = concat (map le32 (blocks file_node)) in
      obind (c_strlen bs) (\<lambda>n. Ret (of_le32s 1000 (fill (indet E) 4000 (take n bs)))))"

text \<open>The loops that go forward to the block of an offset: while it is above the limit.\<close>

function skip_blocks :: "int \<Rightarrow> nat \<Rightarrow> int \<Rightarrow> nat \<times> int" where
  "skip_blocks limit i offset =
     (if limit < offset then skip_blocks limit (Suc i) (offset - int BLOCK_SIZE) else (i, offset))"
  by auto
termination by (relation "measure (\<lambda>(limit, _, offset). nat (offset - limit))") auto

declare skip_blocks.simps [simp del]

text \<open>
  The loop of \<open>action_read\<close>, over the block numbers from position \<open>i\<close> on: it ends at a zero and not
  at the size asked for. \<open>buff\<close> is a block of \<open>n\<close> bytes.
\<close>

fun read_loop :: "sac_env \<Rightarrow> nat \<Rightarrow> 32 word list \<Rightarrow> int \<Rightarrow> byte list \<Rightarrow> sac \<Rightarrow> byte list outcome" where
  "read_loop E n [] offset_d buff s = Fault"
| "read_loop E n (b # bs) offset_d buff s =
     (if b = 0 then Ret buff
      else
        obind (read_block E (sint b) offset_d s) (\<lambda>temporal_buff.
        obind (c_strlen temporal_buff) (\<lambda>k.
          if length buff + k + 1 > n then Fault
          else read_loop E n bs 0 (buff @ take k temporal_buff) s)))"

definition action_read ::
  "sac_env \<Rightarrow> byte list \<Rightarrow> byte list \<Rightarrow> byte list \<Rightarrow> sac \<Rightarrow> (byte list \<times> sac) outcome" where
  "action_read E path size_s offset_s s =
     obind (opened_node E path s) (\<lambda>(r, s1).
     case r of
       Inl response \<Rightarrow> Ret (response, s1)
     | Inr file_node_number \<Rightarrow>
         obind (fopen E s1) (\<lambda>s2.
         obind (seek_to 0 (file_node_number * int BLOCK_SIZE)) (\<lambda>pos.
         let file_node = read_node E (disk s2) pos in
         obind (copy_blocks E file_node) (\<lambda>bs.
           if bs ! 0 = 0 then Ret (c_text ''emptyfile'', s2)
           else
             obind (atoi (offset_s @ [0])) (\<lambda>offset_d.
             obind (atoi (size_s @ [0])) (\<lambda>size_d.
               if \<not> in_int (offset_d + size_d) then Fault
               else if of_int (offset_d + size_d) > filesize file_node
               then Ret (c_text ''EOVERFLOW'', s2)
               else if size_d < 0 then Fault
               else
                 let (i, offset_d) = skip_blocks (int BLOCK_SIZE) 0 offset_d in
                 obind (read_loop E (nat size_d + 1) (drop i bs) offset_d [] s2) (\<lambda>buff.
                   Ret (buff, s2))))))))"

text \<open>
  The blocks a longer file needs: each goes to the position of the first zero, which stays the same.
\<close>

fun add_blocks :: "sac_env \<Rightarrow> nat \<Rightarrow> nat \<Rightarrow> GFile \<Rightarrow> sac \<Rightarrow> (GFile \<times> sac) outcome" where
  "add_blocks E 0 last_block_position g s = Ret (g, s)"
| "add_blocks E (Suc b) last_block_position g s =
     obind (find_free_block E 1 s) (\<lambda>free_block.
       if last_block_position + 1 \<ge> length (blocks g) then Fault
       else
         obind (set_block_as_occupied E free_block s) (\<lambda>s1.
           add_blocks E b last_block_position
             (g\<lparr>blocks := (blocks g)[last_block_position := of_int free_block,
                last_block_position + 1 := 0]\<rparr>) s1))"

fun first_zero :: "32 word list \<Rightarrow> nat outcome" where
  "first_zero [] = Fault"
| "first_zero (b # bs) = (if b = 0 then Ret 0 else obind (first_zero bs) (\<lambda>n. Ret (Suc n)))"

definition grow_file :: "sac_env \<Rightarrow> int \<Rightarrow> GFile \<Rightarrow> sac \<Rightarrow> (GFile \<times> sac) outcome" where
  "grow_file E new_file_size g s =
     (let old_blocks_count = filesize g div 4096 + (if filesize g mod 4096 \<noteq> 0 then 1 else 0);
        new_blocks_count = new_file_size sdiv 4096 + (if new_file_size smod 4096 \<noteq> 0 then 1 else 0) in
      obind (first_zero (blocks g)) (\<lambda>last_block_position.
        add_blocks E (nat (new_blocks_count - uint old_blocks_count)) last_block_position g s))"

fun c_strncpy :: "nat \<Rightarrow> mem \<Rightarrow> byte list outcome" where
  "c_strncpy 0 src = Ret []"
| "c_strncpy (Suc n) [] = Fault"
| "c_strncpy (Suc n) (b # bs) =
     (if b = 0 then Ret (replicate (Suc n) 0) else obind (c_strncpy n bs) (\<lambda>cs. Ret (b # cs)))"

text \<open>
  One pass of the loop of \<open>action_write\<close>, for \<open>temporal_write\<close> bytes from position \<open>amount_written\<close>
  of the text on. A negative size is a huge one for \<open>malloc\<close> and \<open>strncpy\<close>.
\<close>

definition write_pass ::
  "sac_env \<Rightarrow> GFile \<Rightarrow> nat \<Rightarrow> int \<Rightarrow> byte list \<Rightarrow> int \<Rightarrow> int \<Rightarrow> sac \<Rightarrow> sac outcome" where
  "write_pass E g block_position offset_d buf amount_written temporal_write s =
     (if temporal_write < 0 \<or> int (length buf) < amount_written then Fault
      else
        obind (c_strncpy (nat temporal_write) (drop (nat amount_written) (buf @ [0])))
          (\<lambda>temporal_string.
        if length (blocks g) \<le> block_position then Fault
        else write_block E (sint (blocks g ! block_position)) offset_d
          (temporal_string @ [indet E (nat temporal_write)]) s))"

text \<open>The passes after the first one; a negative size ends in the fault of its pass.\<close>

function write_loop ::
  "sac_env \<Rightarrow> GFile \<Rightarrow> nat \<Rightarrow> int \<Rightarrow> byte list \<Rightarrow> int \<Rightarrow> int \<Rightarrow> sac \<Rightarrow> (int \<times> sac) outcome" where
  "write_loop E g block_position offset_d buf amount_written size_to_write s =
     (if size_to_write = 0 then Ret (amount_written, s)
      else if size_to_write < 0 then Fault
      else
        let temporal_write = (if size_to_write \<ge> int BLOCK_SIZE then int BLOCK_SIZE else size_to_write) in
        obind (write_pass E g block_position offset_d buf amount_written temporal_write s) (\<lambda>s1.
          write_loop E g block_position offset_d buf (amount_written + temporal_write)
            (size_to_write - temporal_write) s1))"
  by pat_completeness auto
termination
  by (relation "measure (\<lambda>(_, _, _, _, _, _, size_to_write, _). nat size_to_write)") auto

declare write_loop.simps [simp del]

text \<open>The whole loop, with its first pass up to the end of the block.\<close>

definition write_text ::
  "sac_env \<Rightarrow> GFile \<Rightarrow> nat \<Rightarrow> int \<Rightarrow> byte list \<Rightarrow> int \<Rightarrow> sac \<Rightarrow> (int \<times> sac) outcome" where
  "write_text E g block_position offset_d buf size_d s =
     (if size_d = 0 then Ret (0, s)
      else
        let temporal_write = int BLOCK_SIZE - offset_d in
        obind (write_pass E g block_position offset_d buf 0 temporal_write s) (\<lambda>s1.
          write_loop E g block_position offset_d buf temporal_write (size_d - temporal_write) s1))"

text \<open>From the computation of the new size on, for the node and its position on the disk.\<close>

definition write_file ::
  "sac_env \<Rightarrow> GFile \<Rightarrow> nat \<Rightarrow> byte list \<Rightarrow> int \<Rightarrow> int \<Rightarrow> sac \<Rightarrow> (byte list \<times> sac) outcome" where
  "write_file E g pos buf size_d offset0 s =
     (let offset1 = (if of_int offset0 > filesize g then sint (filesize g) else offset0) in
      if \<not> in_int (offset1 + size_d) then Fault
      else
        let new_file_size =
              (if of_int (offset1 + size_d) > filesize g then offset1 + size_d
               else sint (filesize g));
          (block_position, offset_d) = skip_blocks (int BLOCK_SIZE - 1) 0 offset1 in
        obind (if of_int new_file_size > filesize g then grow_file E new_file_size g s
               else Ret (g, s)) (\<lambda>(g1, s1).
        obind (write_text E g1 block_position offset_d buf size_d s1) (\<lambda>(amount_written, s2).
          let g2 = g1\<lparr>filesize := of_int new_file_size, modified_at := time_now E (times s2)\<rparr> in
          obind (fopen E (s2\<lparr>times := Suc (times s2)\<rparr>)) (\<lambda>s3.
          obind (sprint_int 10 amount_written) (\<lambda>response.
            Ret (response, fclose (s3\<lparr>disk := fwrite (disk s3) pos (node_bytes g2)\<rparr>)))))))"

definition action_write ::
  "sac_env \<Rightarrow> byte list \<Rightarrow> byte list \<Rightarrow> byte list \<Rightarrow> byte list \<Rightarrow> sac \<Rightarrow>
    (byte list \<times> sac) outcome" where
  "action_write E path buf size_s offset_s s =
     obind (opened_node E path s) (\<lambda>(r, s1).
     case r of
       Inl response \<Rightarrow> Ret (response, s1)
     | Inr file_node_number \<Rightarrow>
         obind (fopen E s1) (\<lambda>s2.
         obind (seek_to 0 (file_node_number * int BLOCK_SIZE)) (\<lambda>pos.
         let g = read_node E (disk s2) pos in
         obind (copy_blocks E g) (\<lambda>_.
         obind (atoi (offset_s @ [0])) (\<lambda>offset0.
         obind (atoi (size_s @ [0])) (\<lambda>size_d.
           write_file E g pos buf size_d offset0 (fclose s2)))))))"

end
