(* ===== verification/SacAlloc.thy ===== *)
theory SacAlloc
  imports SacFindLemmas SacActions
begin

text \<open>
  Allocation of blocks and creation of nodes in the SAC file server: the first free block of an area
  is found, marked, and the node is written to it, and nothing else changes.
\<close>

section \<open>The first free block\<close>

lemma find_Some_upto:
  fixes a b :: int
  assumes "find P [a..b] = Some i"
  shows "a \<le> i \<and> i \<le> b \<and> P i \<and> (\<forall>j. a \<le> j \<longrightarrow> j < i \<longrightarrow> \<not> P j)"
proof -
  obtain n where n: "n < length [a..b]" "P ([a..b] ! n)" "i = [a..b] ! n"
    "\<forall>m < n. \<not> P ([a..b] ! m)"
    using assms by (auto simp: find_Some_iff)
  have len: "int (length [a..b]) = b - a + 1" using n(1) by simp
  have nth: "[a..b] ! m = a + int m" if "m < length [a..b]" for m
    using that by (intro nth_upto) simp
  have "\<not> P j" if j: "a \<le> j" "j < i" for j
  proof -
    have "nat (j - a) < n" using j n(1,3) nth [of n] by auto
    moreover from this have "[a..b] ! nat (j - a) = j" using nth [of "nat (j - a)"] n(1) j by auto
    ultimately show ?thesis using n(4) by force
  qed
  then show ?thesis using n nth [of n] len by auto
qed

definition area_ok :: "int \<Rightarrow> int \<Rightarrow> sac \<Rightarrow> bool" where
  "area_ok a b s \<longleftrightarrow> 0 \<le> a \<and> b < 8 * bitmap_size_bytes s"

lemma first_free_cases:
  assumes "bitarray_lsb E" "bitmap_ok s" "area_ok a b s"
  obtains "first_free E (bitmap s @ rest) (bitmap_size_bytes s) [a..b] = Ret (- 1)"
      "\<forall>i. a \<le> int i \<longrightarrow> int i \<le> b \<longrightarrow> occupied s i"
    | i where "first_free E (bitmap s @ rest) (bitmap_size_bytes s) [a..b] = Ret (int i)"
      "a \<le> int i" "int i \<le> b" "\<not> occupied s i" "\<forall>j < i. a \<le> int j \<longrightarrow> occupied s j"
proof -
  have ok: "first_free E (bitmap s @ rest) (bitmap_size_bytes s) [a..b] =
      Ret (case find (\<lambda>i. \<not> occupied s (nat i)) [a..b] of None \<Rightarrow> - 1 | Some i \<Rightarrow> i)"
    using assms(3) by (intro first_free_ok [OF assms(1,2)]) (auto simp: area_ok_def)
  show thesis
  proof (cases "find (\<lambda>i. \<not> occupied s (nat i)) [a..b]")
    case None
    then have "\<forall>i \<in> set [a..b]. occupied s (nat i)" by (simp add: find_None_iff)
    then have that': "\<forall>i \<in> {a..b}. occupied s (nat i)" by simp
    have "occupied s i" if "a \<le> int i" "int i \<le> b" for i
      using bspec [OF that', of "int i"] that by simp
    then have "\<forall>i. a \<le> int i \<longrightarrow> int i \<le> b \<longrightarrow> occupied s i" by blast
    with ok None show thesis by (intro that(1)) simp_all
  next
    case (Some i)
    note i = find_Some_upto [OF Some]
    have i0: "0 \<le> i" using i assms(3) by (simp add: area_ok_def)
    have "occupied s j" if "j < nat i" "a \<le> int j" for j
    proof -
      have "int j < i" using that by linarith
      with i that(2) show ?thesis by fastforce
    qed
    with ok Some i i0 show thesis by (intro that(2) [of "nat i"]) simp_all
  qed
qed

lemma bitmap_ok_streams [simp]:
  "bitmap_ok (s\<lparr>streams := k\<rparr>) = bitmap_ok s" "occupied (s\<lparr>streams := k\<rparr>) = occupied s"
  "bitmap_pos (s\<lparr>streams := k\<rparr>) = bitmap_pos s" "bitmap_len (s\<lparr>streams := k\<rparr>) = bitmap_len s"
  by (auto simp: bitmap_ok_def occupied_def bitmap_pos_def bitmap_len_def fun_eq_iff)

lemma find_free_block_cases:
  assumes "bitarray_lsb E" "bitmap_ok s" "streams s < max_streams E"
    "area_ok a b s" "area = 0 \<and> a = node_table_start s \<and> b = node_table_end s \<or>
      area = 1 \<and> a = data_blocks_start s \<and> b = data_blocks_end s"
  obtains "find_free_block E area s = Ret (- 1)"
      "\<forall>i. a \<le> int i \<longrightarrow> int i \<le> b \<longrightarrow> occupied s i"
    | i where "find_free_block E area s = Ret (int i)"
      "a \<le> int i" "int i \<le> b" "\<not> occupied s i" "\<forall>j < i. a \<le> int j \<longrightarrow> occupied s j"
proof -
  have "find_free_block E area s = first_free E (bitmap s @ [indet E (bitmap_len s)])
      (bitmap_size_bytes s) [a..b]"
    using assms(2,3,5) by (auto simp: find_free_block_def fopen_def read_bitmap_ok)
  with first_free_cases [OF assms(1,2,4), of "[indet E (bitmap_len s)]"] show thesis
    by (metis that)
qed

section \<open>The new node\<close>

lemma node_ok_new_node:
  assumes "length name \<le> MAX_FILENAME_LENGTH"
  shows "node_ok (fst (new_node E st name parent s))"
proof -
  have "node_ok (node_of_bytes (fresh_bytes E BLOCK_SIZE))"
    by (rule node_ok_node_of_bytes) simp
  with assms show ?thesis by (simp add: new_node_def node_ok_def Let_def)
qed

lemma new_node_sel:
  "node_state (fst (new_node E st name parent s)) = st"
  "fname (fst (new_node E st name parent s)) =
     name @ drop (length name) (fname (node_of_bytes (fresh_bytes E BLOCK_SIZE)))"
  "parent_block (fst (new_node E st name parent s)) = of_int parent"
  "filesize (fst (new_node E st name parent s)) = 0"
  by (simp_all add: new_node_def Let_def)

lemma new_node_snd: "snd (new_node E st name parent s) = s\<lparr>times := times s + 2\<rparr>"
  by (simp add: new_node_def Let_def)

lemma node_at_other:
  assumes "node_ok g" "b \<noteq> b'" "(b + 1) * BLOCK_SIZE \<le> length d" "(b' + 1) * BLOCK_SIZE \<le> length d"
  shows "node_at (fwrite d (b * BLOCK_SIZE) (node_bytes g)) b' = node_at d b'"
proof -
  have "b' + 1 \<le> b \<or> b + 1 \<le> b'" using assms(2) by auto
  then have "(b' + 1) * BLOCK_SIZE \<le> b * BLOCK_SIZE \<or> (b + 1) * BLOCK_SIZE \<le> b' * BLOCK_SIZE"
    using mult_le_mono1 by blast
  then show ?thesis
    using assms length_node_bytes [OF assms(1)]
    by (auto simp: node_at_def fread_fwrite_other)
qed

lemma write_new_node_ok:
  assumes "streams s < max_streams E" "2 \<le> b" "b \<le> 1025" "1026 * BLOCK_SIZE \<le> length (disk s)"
    "length name \<le> MAX_FILENAME_LENGTH"
  shows "write_new_node E st name parent (int b) s =
    Ret (s\<lparr>times := times s + 2, streams := Suc (streams s),
      disk := fwrite (disk s) (b * BLOCK_SIZE) (node_bytes (fst (new_node E st name parent s)))\<rparr>)"
proof -
  obtain g where g: "new_node E st name parent s = (g, s\<lparr>times := times s + 2\<rparr>)"
    by (metis new_node_snd prod.collapse)
  then show ?thesis
    using assms seek_block [OF assms(3), of 0]
    by (simp add: write_new_node_def fopen_def mult.commute)
qed

text \<open>
  A bitmap in block 1 that covers the table and has a zero byte behind the bits of the table.
\<close>

definition alloc_ok :: "sac \<Rightarrow> bool" where
  "alloc_ok s \<longleftrightarrow> bitmap_ok s \<and> bitmap_start s = 1 \<and> bitmap_len s \<le> BLOCK_SIZE \<and>
     node_table_start s = 2 \<and> node_table_end s = 1025 \<and> table_ok (disk s) \<and>
     (\<exists>k. 128 < k \<and> k < bitmap_len s \<and> disk s ! (BLOCK_SIZE + k) = 0)"

lemma alloc_area: "alloc_ok s \<Longrightarrow> area_ok 2 1025 s"
  by (auto simp: alloc_ok_def area_ok_def bitmap_len_def bitmap_ok_def)

lemma node_at_occupy:
  assumes "alloc_ok s" "b < 8 * bitmap_len s" "2 \<le> b'" "b' \<le> 1025"
  shows "node_at (disk (occupy b s)) b' = node_at (disk s) b'"
proof -
  have "b div 8 < BLOCK_SIZE" using div_8_less [OF assms(2)] assms(1) by (simp add: alloc_ok_def)
  moreover have "2 * BLOCK_SIZE \<le> b' * BLOCK_SIZE" using assms(3) by (intro mult_right_mono) auto
  ultimately have "bitmap_pos s + b div 8 < b' * BLOCK_SIZE"
    using assms(1) by (simp add: alloc_ok_def bitmap_pos_def)
  then show ?thesis by (simp add: node_at_def fread_def occupy_def)
qed

lemma node_created:
  assumes "alloc_ok s" "2 \<le> b" "b \<le> 1025" "length name \<le> MAX_FILENAME_LENGTH"
    "disk s' = fwrite (disk (occupy b s)) (b * BLOCK_SIZE) (node_bytes (fst (new_node E st name p t)))"
    "bitmap_start s' = bitmap_start s" "bitmap_size_bytes s' = bitmap_size_bytes s"
  shows "node_at (disk s') b = fst (new_node E st name p t) \<and>
    (\<forall>b'. 2 \<le> b' \<longrightarrow> b' \<le> 1025 \<longrightarrow> b' \<noteq> b \<longrightarrow> node_at (disk s') b' = node_at (disk s) b') \<and>
    (\<forall>i < 8 * bitmap_len s. occupied s' i \<longleftrightarrow> i = b \<or> occupied s i)"
proof -
  note ok = node_ok_new_node [OF assms(4), of E st p t]
  let ?d = "disk (occupy b s)"
  have len: "1026 * BLOCK_SIZE \<le> length ?d" using assms(1) by (simp add: alloc_ok_def table_ok_def)
  have le: "(b' + 1) * BLOCK_SIZE \<le> length ?d" if "b' \<le> 1025" for b'
  proof -
    have "(b' + 1) * BLOCK_SIZE \<le> 1026 * BLOCK_SIZE" using that by (intro mult_right_mono) auto
    with len show ?thesis by linarith
  qed
  have area: "b < 8 * bitmap_len s"
    using alloc_area [OF assms(1)] assms(3) by (simp add: area_ok_def bitmap_len_def)
  have "node_at (disk s') b = fst (new_node E st name p t)"
    unfolding assms(5) by (rule node_at_write [OF ok le [OF assms(3)]])
  moreover have "node_at (disk s') b' = node_at (disk s) b'"
    if "2 \<le> b'" "b' \<le> 1025" "b' \<noteq> b" for b'
    unfolding assms(5)
    using node_at_other [OF ok _ le [OF assms(3)] le [OF that(2)]] that
      node_at_occupy [OF assms(1) area that(1,2)] by simp
  moreover have "occupied s' i \<longleftrightarrow> i = b \<or> occupied s i" if i: "i < 8 * bitmap_len s" for i
  proof -
    have pos: "bitmap_pos s' = BLOCK_SIZE" "bitmap_pos s = BLOCK_SIZE"
      using assms(1,6) by (simp_all add: bitmap_pos_def alloc_ok_def)
    have "i div 8 < BLOCK_SIZE" using div_8_less [OF i] assms(1) by (simp add: alloc_ok_def)
    moreover have "2 * BLOCK_SIZE \<le> b * BLOCK_SIZE" using assms(2) by (intro mult_right_mono) auto
    ultimately have "BLOCK_SIZE + i div 8 < b * BLOCK_SIZE" by linarith
    moreover have "b * BLOCK_SIZE + BLOCK_SIZE \<le> length ?d" using le [OF assms(3)] by simp
    ultimately have "disk s' ! (BLOCK_SIZE + i div 8) = ?d ! (BLOCK_SIZE + i div 8)"
      unfolding assms(5) using length_node_bytes [OF ok] by (subst nth_fwrite) simp_all
    then have "occupied s' i \<longleftrightarrow> occupied (occupy b s) i"
      by (simp add: occupied_def pos)
    then show ?thesis
      using occupied_occupy [OF _ area i] assms(1) by (simp add: alloc_ok_def)
  qed
  ultimately show ?thesis by blast
qed

lemma set_block_alloc:
  assumes "bitarray_lsb E" "alloc_ok s" "streams s < max_streams E" "b \<le> 1025"
  shows "set_block_as_occupied E (int b) s = Ret (occupy b s)"
proof -
  obtain k where k: "128 < k" "k < bitmap_len s" "disk s ! (BLOCK_SIZE + k) = 0"
    using assms(2) by (auto simp: alloc_ok_def)
  have "b div 8 \<le> 128" using assms(4) by auto
  moreover have "b < 8 * bitmap_len s" using k assms(4) by linarith
  ultimately show ?thesis
    using k assms by (intro set_block_ok [of E s b k]) (auto simp: alloc_ok_def bitmap_pos_def)
qed

end
