(* ===== verification/SacServer.thy ===== *)
theory SacServer
  imports SacActions
begin

text \<open>
  The requests of the SAC file server: \<open>parse_input\<close> of
  \<^verbatim>\<open>fileSystem/sac/sac_servidor/parser.c\<close> and the loop of \<^verbatim>\<open>server.c\<close> that serves a client.
\<close>

section \<open>Parsing a request\<close>

text \<open>
  The loop over the copy of the request: every run of blanks and line ends outside quotation marks
  becomes one bar. The first flag is \<open>openText\<close>, the second \<open>last_character_was_null\<close>; the
  character after a run is moved onto its second character.
\<close>

fun bar_blanks :: "bool \<Rightarrow> bool \<Rightarrow> byte list \<Rightarrow> byte list" where
  "bar_blanks openText last_null [] = []"
| "bar_blanks openText last_null (c # cs) =
     (if \<not> openText then
        if c = 10 \<or> c = 32 then
          if last_null then bar_blanks False True cs else 124 # bar_blanks False True cs
        else c # bar_blanks (c = quote) False cs
      else c # bar_blanks (c \<noteq> quote) last_null cs)"

abbreviation wrong_number :: "byte list" where
  "wrong_number \<equiv> c_text ''Numero de parametros incorrectos'' @ [10]"

text \<open>One definition per instruction: the number of the parameters and the action.\<close>

definition run_open :: "sac_env \<Rightarrow> byte list list \<Rightarrow> sac \<Rightarrow> (byte list \<times> sac) outcome" where
  "run_open E p s =
     (if length p \<noteq> 3 then Ret (wrong_number, s) else action_open E (p ! 1) s)"

definition run_read :: "sac_env \<Rightarrow> byte list list \<Rightarrow> sac \<Rightarrow> (byte list \<times> sac) outcome" where
  "run_read E p s =
     (if length p \<noteq> 4 then Ret (wrong_number, s) else action_read E (p ! 1) (p ! 2) (p ! 3) s)"

definition run_getattr :: "sac_env \<Rightarrow> byte list list \<Rightarrow> sac \<Rightarrow> (byte list \<times> sac) outcome" where
  "run_getattr E p s =
     (if length p \<noteq> 2 then Ret (wrong_number, s) else action_getattr E (p ! 1) s)"

definition run_mknod :: "sac_env \<Rightarrow> byte list list \<Rightarrow> sac \<Rightarrow> (byte list \<times> sac) outcome" where
  "run_mknod E p s =
     (if length p \<noteq> 2 then Ret (wrong_number, s) else action_mknod E (p ! 1) s)"

definition run_mkdir :: "sac_env \<Rightarrow> byte list list \<Rightarrow> sac \<Rightarrow> (byte list \<times> sac) outcome" where
  "run_mkdir E p s =
     (if length p \<noteq> 2 then Ret (wrong_number, s) else action_mkdir E (p ! 1) s)"

definition run_write :: "sac_env \<Rightarrow> byte list list \<Rightarrow> sac \<Rightarrow> (byte list \<times> sac) outcome" where
  "run_write E p s =
     (if length p \<noteq> 5 then Ret (wrong_number, s) else action_write E (p ! 1) (p ! 2) (p ! 3) (p ! 4) s)"

definition run_opendir :: "sac_env \<Rightarrow> byte list list \<Rightarrow> sac \<Rightarrow> (byte list \<times> sac) outcome" where
  "run_opendir E p s =
     (if length p \<noteq> 3 then Ret (wrong_number, s) else action_opendir E (p ! 1) s)"

definition run_readdir :: "sac_env \<Rightarrow> byte list list \<Rightarrow> sac \<Rightarrow> (byte list \<times> sac) outcome" where
  "run_readdir E p s =
     (if length p \<noteq> 2 then Ret (wrong_number, s) else action_readdir E (p ! 1) s)"

definition run_instruction ::
  "sac_env \<Rightarrow> byte list list \<Rightarrow> sac \<Rightarrow> (byte list \<times> sac) outcome" where
  "run_instruction E p s =
     (if hd p = c_text ''open'' then run_open E p s
      else if hd p = c_text ''read'' then run_read E p s
      else if hd p = c_text ''getattr'' then run_getattr E p s
      else if hd p = c_text ''mknod'' then run_mknod E p s
      else if hd p = c_text ''mkdir'' then run_mkdir E p s
      else if hd p = c_text ''write'' then run_write E p s
      else if hd p = c_text ''opendir'' then run_opendir E p s
      else if hd p = c_text ''readdir'' then run_readdir E p s
      else Ret (c_text ''No es una instruccion valida'' @ [10], s))"

definition parse_input :: "sac_env \<Rightarrow> mem \<Rightarrow> sac \<Rightarrow> (byte list \<times> sac) outcome" where
  "parse_input E instr_buff s =
     obind (c_strlen instr_buff) (\<lambda>n.
       let parameters = string_split E (bar_blanks False False (take n instr_buff)) 124 in
       if parameters = [] then Ret ([], s)
       else
         obind (unquote_all parameters) (\<lambda>v.
           case v of
             None \<Rightarrow> Ret (c_text ''Parametro malformado.'' @ [10], s)
           | Some p \<Rightarrow> run_instruction E p s))"

section \<open>The server\<close>

text \<open>
  The loop that serves a client, on what its calls of \<open>read\<close> give: \<open>None\<close> for an error, which the
  loop does not tell from a request, and nothing at the end. The buffer keeps the bytes of earlier
  requests. The result holds the bytes written to the client.
\<close>

fun serve_client ::
  "sac_env \<Rightarrow> byte list option list \<Rightarrow> mem \<Rightarrow> sac \<Rightarrow> (byte list \<times> mem \<times> sac) outcome" where
  "serve_client E [] buf s = Hang"
| "serve_client E (r # rs) buf s =
     (if r = Some [] then Ret ([], buf, s)
      else
        let received = (case r of None \<Rightarrow> [] | Some bs \<Rightarrow> take 3000 bs);
          buf1 = received @ drop (length received) buf in
        obind (parse_input E buf1 s) (\<lambda>(response, s1).
        obind (serve_client E rs buf1 s1) (\<lambda>(out, buf2, s2).
          Ret (response @ 0 # out, buf2, s2))))"

end
