(* ===== verification/SacClient.thy ===== *)
theory SacClient
  imports SacServer
begin

text \<open>
  The FUSE client of the file server (\<^verbatim>\<open>fileSystem/sac/sac_cli/sac_cli.c\<close>): for each operation the
  message it sends and what it makes of the response. A response is what one \<open>read\<close> of at most 100
  bytes gives; it goes to a fresh block whose first byte is zero. The result of an operation is the
  number it returns and the error it sets, if any.
\<close>

section \<open>Messages and responses\<close>

datatype errno = EISDIR | ENOENT | EBADF | EOVERFLOW | EEXIST | ENAMETOOLONG | ENOTDIR

definition sac_send :: "byte list \<Rightarrow> byte list" where
  "sac_send msg = msg @ [0]"

definition response_buff :: "(nat \<Rightarrow> byte) \<Rightarrow> byte list \<Rightarrow> mem" where
  "response_buff fresh r =
     (let bs = take 100 r in bs @ drop (length bs) (0 # map fresh [1..<100]))"

text \<open>The first of some texts that the response is equal to, if any.\<close>

fun match_error :: "mem \<Rightarrow> (string \<times> errno) list \<Rightarrow> errno option outcome" where
  "match_error buff [] = Ret None"
| "match_error buff ((name, err) # rest) =
     obind (c_streq buff (c_text name)) (\<lambda>eq. if eq then Ret (Some err) else match_error buff rest)"

section \<open>Open and opendir\<close>

definition sac_open_msg :: "byte list \<Rightarrow> int \<Rightarrow> byte list outcome" where
  "sac_open_msg path flags =
     obind (sprint_int 10 flags) (\<lambda>flags_s.
       Ret (sac_send (c_text ''open '' @ path @ c_text '' '' @ flags_s)))"

definition sac_opendir_msg :: "byte list \<Rightarrow> int \<Rightarrow> byte list outcome" where
  "sac_opendir_msg path flags =
     obind (sprint_int 10 flags) (\<lambda>flags_s.
       Ret (sac_send (c_text ''opendir '' @ path @ c_text '' '' @ flags_s)))"

definition sac_open :: "(nat \<Rightarrow> byte) \<Rightarrow> byte list \<Rightarrow> (int \<times> errno option) outcome" where
  "sac_open fresh r =
     (let buff = response_buff fresh r in
      obind (match_error buff [(''EISDIR'', EISDIR), (''-ENOENT'', ENOENT)]) (\<lambda>err.
        case err of
          Some e \<Rightarrow> Ret (- 1, Some e)
        | None \<Rightarrow>
            obind (if hd buff = 0 then atoi buff else Ret 0) (\<lambda>file_descriptor.
              Ret (file_descriptor, None))))"

definition sac_opendir :: "(nat \<Rightarrow> byte) \<Rightarrow> byte list \<Rightarrow> (int \<times> errno option) outcome" where
  "sac_opendir fresh r =
     (let buff = response_buff fresh r in
      obind (match_error buff [(''EISDIR'', EISDIR), (''-ENOENT'', ENOENT)]) (\<lambda>err.
        case err of
          Some e \<Rightarrow> Ret (- 1, Some e)
        | None \<Rightarrow>
            obind (if hd buff = 0 then atoi buff else Ret 0) (\<lambda>file_descriptor.
              Ret (file_descriptor, None))))"

section \<open>Read and write\<close>

definition sac_read_msg :: "byte list \<Rightarrow> int \<Rightarrow> int \<Rightarrow> byte list outcome" where
  "sac_read_msg path size_p offset_p =
     obind (sprint_int 16 size_p) (\<lambda>size_s.
     obind (sprint_int 16 offset_p) (\<lambda>offset_s.
       Ret (sac_send
         (c_text ''read '' @ path @ c_text '' '' @ size_s @ c_text '' '' @ offset_s))))"

text \<open>
  The response goes straight to the buffer of the caller, and the value returned for data is the
  address of the buffer.
\<close>

definition sac_read :: "int \<Rightarrow> mem \<Rightarrow> byte list \<Rightarrow> (int \<times> errno option \<times> mem) outcome" where
  "sac_read addr buf r =
     (let bs = take 100 r; buff = bs @ drop (length bs) buf in
      if length buf < length bs then Fault
      else
        obind (match_error buff [(''EISDIR'', EISDIR), (''EBADF'', EBADF), (''EOVERFLOW'', EOVERFLOW)])
          (\<lambda>err.
          case err of
            Some e \<Rightarrow> Ret (- 1, Some e, buff)
          | None \<Rightarrow>
              obind (c_streq buff (c_text ''emptyfile'')) (\<lambda>empty.
                Ret (if empty then 0 else addr, None, buff))))"

definition sac_write_msg :: "byte list \<Rightarrow> mem \<Rightarrow> int \<Rightarrow> int \<Rightarrow> byte list outcome" where
  "sac_write_msg path buf size_p offset_p =
     obind (sprint_int 16 size_p) (\<lambda>size_s.
     obind (sprint_int 16 offset_p) (\<lambda>offset_s.
     obind (c_strlen buf) (\<lambda>n.
       Ret (sac_send (c_text ''write '' @ path @ c_text '' '' @ take n buf @ c_text '' '' @ size_s @
         c_text '' '' @ offset_s)))))"

text \<open>The errors are looked for in the text that was written.\<close>

definition sac_write :: "(nat \<Rightarrow> byte) \<Rightarrow> mem \<Rightarrow> byte list \<Rightarrow> (int \<times> errno option) outcome" where
  "sac_write fresh buf r =
     obind (match_error buf [(''EISDIR'', EISDIR), (''EBADF'', EBADF)]) (\<lambda>err.
       case err of
         Some e \<Rightarrow> Ret (- 1, Some e)
       | None \<Rightarrow> obind (atoi (response_buff fresh r)) (\<lambda>response. Ret (response, None)))"

section \<open>Getattr\<close>

record stat =
  st_dir :: bool
  st_perm :: nat
  st_nlink :: nat
  st_size :: int

definition sac_getattr_msg :: "byte list \<Rightarrow> byte list" where
  "sac_getattr_msg path = sac_send (c_text ''getattr '' @ path)"

text \<open>The attributes and 0, or minus \<open>ENOENT\<close>.\<close>

definition sac_getattr ::
  "(byte list \<Rightarrow> byte \<Rightarrow> byte list list) \<Rightarrow> (nat \<Rightarrow> byte) \<Rightarrow> byte list \<Rightarrow>
    (stat option \<times> int) outcome" where
  "sac_getattr split fresh r =
     (let buff = response_buff fresh r in
      obind (c_streq buff (c_text ''-ENOENT'')) (\<lambda>noent.
      if noent then Ret (None, - 2)
      else
        obind (c_streq buff (c_text ''S_IFDIR'')) (\<lambda>dir.
        if dir
        then Ret (Some \<lparr>st_dir = True, st_perm = 493, st_nlink = 2, st_size = 0\<rparr>, 0)
        else
          obind (c_strlen buff) (\<lambda>n.
          let response_array = split (take n buff) 32 in
          if response_array = [] then Fault
          else if hd response_array = c_text ''S_IFREG'' then
            if length response_array < 2 then Fault
            else
              obind (atoi (response_array ! 1 @ [0])) (\<lambda>file_size.
                Ret (Some \<lparr>st_dir = False, st_perm = 511, st_nlink = 1, st_size = file_size\<rparr>, 0))
          else Ret (None, - 2)))))"

section \<open>Mknod, mkdir and readdir\<close>

definition sac_mknod_msg :: "byte list \<Rightarrow> byte list" where
  "sac_mknod_msg path = sac_send (c_text ''mknod '' @ path)"

definition sac_mkdir_msg :: "byte list \<Rightarrow> byte list" where
  "sac_mkdir_msg path = sac_send (c_text ''mkdir '' @ path)"

definition sac_mknod :: "(nat \<Rightarrow> byte) \<Rightarrow> byte list \<Rightarrow> (int \<times> errno option) outcome" where
  "sac_mknod fresh r =
     obind (match_error (response_buff fresh r)
       [(''EEXIST'', EEXIST), (''ENAMETOOLONG'', ENAMETOOLONG), (''ENOENT'', ENOENT),
        (''ENOTDIR'', ENOTDIR)]) (\<lambda>err.
       Ret (case err of Some e \<Rightarrow> (- 1, Some e) | None \<Rightarrow> (0, None)))"

definition sac_mkdir :: "(nat \<Rightarrow> byte) \<Rightarrow> byte list \<Rightarrow> (int \<times> errno option) outcome" where
  "sac_mkdir fresh r =
     obind (match_error (response_buff fresh r)
       [(''EEXIST'', EEXIST), (''ENAMETOOLONG'', ENAMETOOLONG), (''ENOENT'', ENOENT),
        (''ENOTDIR'', ENOTDIR)]) (\<lambda>err.
       Ret (case err of Some e \<Rightarrow> (- 1, Some e) | None \<Rightarrow> (0, None)))"

definition sac_readdir_msg :: "byte list \<Rightarrow> byte list" where
  "sac_readdir_msg path = sac_send (c_text ''readdir '' @ path)"

text \<open>The names handed to \<open>filler\<close>, in order.\<close>

definition sac_readdir ::
  "(byte list \<Rightarrow> byte \<Rightarrow> byte list list) \<Rightarrow> (nat \<Rightarrow> byte) \<Rightarrow> byte list \<Rightarrow>
    (int \<times> errno option \<times> byte list list) outcome" where
  "sac_readdir split fresh r =
     (let buff = response_buff fresh r in
      obind (c_streq buff []) (\<lambda>empty.
      if empty then Ret (0, None, [c_text ''.'', c_text ''..''])
      else
        obind (c_streq buff (c_text ''EBADF'')) (\<lambda>bad.
        if bad then Ret (- 1, Some EBADF, [])
        else
          obind (c_strlen buff) (\<lambda>n.
            Ret (0, None, [c_text ''.'', c_text ''..''] @ split (take n buff) slash)))))"

end
