(* ===== verification/SacText.thy ===== *)
theory SacText
  imports SacClient
begin

text \<open>
  The texts that the client and the file server exchange: splitting them as so-commons documents it,
  and what \<open>parse_input\<close> makes of the words of a request.
\<close>

section \<open>Splitting\<close>

text \<open>The parts of a text between the separators, without empty ones.\<close>

fun tokens_from :: "byte \<Rightarrow> byte list \<Rightarrow> byte list \<Rightarrow> byte list list" where
  "tokens_from sep cur [] = (if cur = [] then [] else [rev cur])"
| "tokens_from sep cur (b # bs) =
     (if b = sep then (if cur = [] then [] else [rev cur]) @ tokens_from sep [] bs
      else tokens_from sep (b # cur) bs)"

definition tokens :: "byte list \<Rightarrow> byte \<Rightarrow> byte list list" where
  "tokens bs sep = tokens_from sep [] bs"

fun join_by :: "byte \<Rightarrow> byte list list \<Rightarrow> byte list" where
  "join_by sep [] = []"
| "join_by sep [p] = p"
| "join_by sep (p # q # ps) = p @ sep # join_by sep (q # ps)"

lemma tokens_from_word:
  "sep \<notin> set p \<Longrightarrow> tokens_from sep cur (p @ rest) = tokens_from sep (rev p @ cur) rest"
  by (induction p arbitrary: cur) auto

lemma tokens_join:
  assumes "\<forall>p \<in> set ps. p \<noteq> [] \<and> sep \<notin> set p"
  shows "tokens (join_by sep ps) sep = ps"
  using assms unfolding tokens_def
proof (induction sep ps rule: join_by.induct)
  case (2 sep p)
  then show ?case using tokens_from_word [of sep p "[]" "[]"] by simp
next
  case (3 sep p q ps)
  then show ?case using tokens_from_word [of sep p "[]" "sep # join_by sep (q # ps)"] by simp
qed simp

section \<open>Words of a request\<close>

definition word_ok :: "byte list \<Rightarrow> bool" where
  "word_ok w \<longleftrightarrow> w \<noteq> [] \<and> set w \<inter> {0, 10, 32, 34, 124} = {}"

lemma word_ok_digits: "word_ok (c_text (dec_nat n))"
proof -
  have "list_all is_digit (c_text (dec_nat n))"
    using dec_nat_digits [of n] by (simp add: c_text_def)
  then have "set (c_text (dec_nat n)) \<inter> {0, 10, 32, 34, 124} = {}"
    by (auto simp: list_all_iff is_digit_def)
  then show ?thesis by (simp add: word_ok_def c_text_def dec_nat_not_Nil)
qed

lemma bar_blanks_word:
  "set w \<inter> {10, 32, 34} = {} \<Longrightarrow> bar_blanks False nul (w @ rest) =
    w @ bar_blanks False (if w = [] then nul else False) rest"
  by (induction w arbitrary: nul) auto

lemma bar_blanks_join:
  assumes "\<forall>w \<in> set ws. word_ok w"
  shows "bar_blanks False nul (join_by 32 ws) = join_by 124 ws"
  using assms
proof (induction "32 :: byte" ws arbitrary: nul rule: join_by.induct)
  case (2 p)
  then have "set p \<inter> {10, 32, 34} = {}" by (auto simp: word_ok_def)
  from bar_blanks_word [OF this, of nul "[]"] show ?case by simp
next
  case (3 p q ps)
  then have p: "set p \<inter> {10, 32, 34} = {}" "p \<noteq> []" by (auto simp: word_ok_def)
  from 3 have "bar_blanks False True (join_by 32 (q # ps)) = join_by 124 (q # ps)" by simp
  with bar_blanks_word [OF p(1), of nul "32 # join_by 32 (q # ps)"] p(2) show ?case by simp
qed simp

lemma c_strlen_end: "0 \<notin> set bs \<Longrightarrow> c_strlen (bs @ 0 # rest) = Ret (length bs)"
  by (induction bs) auto

lemma unquote_all_words: "\<forall>w \<in> set ws. word_ok w \<Longrightarrow> unquote_all ws = Ret (Some ws)"
proof (induction ws)
  case (Cons w ws)
  then have "w \<noteq> []" "hd w \<noteq> 34" by (auto simp: word_ok_def) (metis list.set_sel(1))
  with Cons show ?case by (simp add: unquote_def)
qed simp

lemma zero_join: "\<forall>w \<in> set ws. word_ok w \<Longrightarrow> 0 \<notin> set (join_by 32 ws)"
  by (induction "32 :: byte" ws rule: join_by.induct) (auto simp: word_ok_def)

text \<open>A request of words is handed to its instruction.\<close>

lemma parse_words:
  assumes "\<forall>w \<in> set ws. word_ok w" "ws \<noteq> []" "string_split E = tokens"
  shows "parse_input E (sac_send (join_by 32 ws) @ rest) s = run_instruction E ws s"
proof -
  have "tokens (join_by 124 ws) 124 = ws"
    using assms(1) by (intro tokens_join) (auto simp: word_ok_def)
  then show ?thesis
    using assms c_strlen_end [OF zero_join [OF assms(1)], of rest]
    by (simp add: parse_input_def sac_send_def bar_blanks_join unquote_all_words)
qed

lemma dec_int_nonneg: "0 \<le> n \<Longrightarrow> dec_int n = dec_nat (nat n)"
  by (simp add: dec_int_def)

lemma sprint_int_ok: "0 \<le> n \<Longrightarrow> n < 10 ^ Suc k \<Longrightarrow> Suc k < m \<Longrightarrow> sprint_int m n = Ret (c_text (dec_nat (nat n)))"
proof -
  assume n: "0 \<le> n" "n < 10 ^ Suc k" "Suc k < m"
  then have "nat n < 10 ^ Suc k" by (simp add: nat_less_iff)
  then have "length (dec_nat (nat n)) \<le> Suc k" by (simp only: length_dec_nat)
  with n show ?thesis by (simp add: sprint_int_def dec_int_nonneg)
qed

lemma instruction_words [simp]:
  "word_ok (c_text ''open'')" "word_ok (c_text ''read'')" "word_ok (c_text ''getattr'')"
  "word_ok (c_text ''mknod'')" "word_ok (c_text ''mkdir'')" "word_ok (c_text ''write'')"
  "word_ok (c_text ''opendir'')" "word_ok (c_text ''readdir'')"
  by (simp_all add: word_ok_def c_text_def)

lemma c_text_append [simp]: "c_text (a @ b) = c_text a @ c_text b"
  by (simp add: c_text_def)

lemma c_text_blank: "c_text (w @ '' '') = c_text w @ [32]" "c_text '' '' = [32]"
  by (simp_all add: c_text_def)

end
