(* ===== verification/SacDemo.thy ===== *)
theory SacDemo
  imports SacFindLemmas SacText
begin

text \<open>
  A disk of 32768 blocks to apply the theorems on the file server to: the directories \<open>a\<close> and \<open>b\<close>, a
  file \<open>x\<close> in each of them, and nothing else in the table of nodes; and functions with the
  documented behaviour of those of so-commons.
\<close>

section \<open>The functions of so-commons\<close>

definition demo_sac_env :: sac_env where
  "demo_sac_env = \<lparr>indet = (\<lambda>_. 0), max_streams = 10, time_now = (\<lambda>_. 0), addr_byte = 0,
     string_split = tokens, bit_test = (\<lambda>bs i. bit (bs ! (i div 8)) (i mod 8)),
     bit_set = (\<lambda>bs i. bs[i div 8 := set_bit (i mod 8) (bs ! (i div 8))]),
     bit_clean = (\<lambda>bs i. bs[i div 8 := unset_bit (i mod 8) (bs ! (i div 8))])\<rparr>"

lemma demo_sac_env_sel [simp]:
  "indet demo_sac_env = (\<lambda>_. 0)" "max_streams demo_sac_env = 10" "string_split demo_sac_env = tokens"
  "addr_byte demo_sac_env = 0"
  by (simp_all add: demo_sac_env_def)

lemma demo_bitarray: "bitarray_lsb demo_sac_env"
  by (simp add: bitarray_lsb_def demo_sac_env_def)

section \<open>Disks made of nodes\<close>

definition mk_node :: "byte \<Rightarrow> string \<Rightarrow> 32 word \<Rightarrow> 32 word \<Rightarrow> 32 word list \<Rightarrow> GFile" where
  "mk_node st name parent n bs =
     \<lparr>node_state = st, fname = c_text name @ replicate (MAX_FILENAME_LENGTH - length name) 0,
      parent_block = parent, filesize = n, created_at = 0, modified_at = 0,
      blocks = bs @ replicate (1000 - length bs) 0\<rparr>"

lemma node_ok_mk_node: "length name \<le> 71 \<Longrightarrow> length bs \<le> 1000 \<Longrightarrow> node_ok (mk_node st name p n bs)"
  by (simp add: node_ok_def mk_node_def c_text_def)

lemma mk_node_sel [simp]:
  "node_state (mk_node st name p n bs) = st" "parent_block (mk_node st name p n bs) = p"
  "filesize (mk_node st name p n bs) = n"
  "blocks (mk_node st name p n bs) = bs @ replicate (1000 - length bs) 0"
  "fname (mk_node st name p n bs) = c_text name @ replicate (71 - length name) 0"
  by (simp_all add: mk_node_def)

lemma nth_concat_same:
  assumes "\<forall>x \<in> set xs. length (f x) = n" "i < length xs"
  shows "take n (drop (i * n) (concat (map f xs) @ rest)) = f (xs ! i)"
  using assms
proof (induction xs arbitrary: i)
  case (Cons x xs)
  then show ?case by (cases i) (auto simp: add.commute)
qed simp

definition disk_of :: "byte list \<Rightarrow> GFile list \<Rightarrow> nat \<Rightarrow> byte list" where
  "disk_of bm nodes n = replicate BLOCK_SIZE 0 @ bm @ concat (map node_bytes nodes) @ replicate n 0"

lemma node_at_disk_of:
  assumes "\<forall>g \<in> set nodes. node_ok g" "length bm = BLOCK_SIZE" "2 \<le> b" "b < 2 + length nodes"
  shows "node_at (disk_of bm nodes n) b = nodes ! (b - 2)"
proof -
  have "drop (b * BLOCK_SIZE) (disk_of bm nodes n) =
      drop ((b - 2) * BLOCK_SIZE) (concat (map node_bytes nodes) @ replicate n 0)"
    using assms(2,3) by (simp add: disk_of_def diff_mult_distrib)
  moreover have "take BLOCK_SIZE (drop ((b - 2) * BLOCK_SIZE)
      (concat (map node_bytes nodes) @ replicate n 0)) = node_bytes (nodes ! (b - 2))"
    using assms by (intro nth_concat_same) (auto simp: length_node_bytes)
  ultimately have "fread (disk_of bm nodes n) (b * BLOCK_SIZE) BLOCK_SIZE = node_bytes (nodes ! (b - 2))"
    by (simp only: fread_def)
  then show ?thesis
    using node_of_bytes_node_bytes [of "nodes ! (b - 2)" "[]"] assms by (simp add: node_at_def)
qed

lemma length_concat_nodes:
  "\<forall>g \<in> set nodes. node_ok g \<Longrightarrow> length (concat (map node_bytes nodes)) = length nodes * BLOCK_SIZE"
  by (induction nodes) (auto simp: length_node_bytes)

lemma length_disk_of:
  "\<forall>g \<in> set nodes. node_ok g \<Longrightarrow> length bm = BLOCK_SIZE \<Longrightarrow>
   length (disk_of bm nodes n) = (2 + length nodes) * BLOCK_SIZE + n"
  by (simp add: disk_of_def length_concat_nodes)

section \<open>The example\<close>

definition demo_nodes :: "GFile list" where
  "demo_nodes = [mk_node 2 ''root'' 0 0 [], mk_node 2 ''a'' 0 0 [], mk_node 2 ''b'' 0 0 [],
     mk_node 1 ''x'' 3 0 [], mk_node 1 ''x'' 4 5000 [1026]] @ replicate 1019 (mk_node 0 '''' 0 0 [])"

definition demo_bitmap :: "byte list" where
  "demo_bitmap = 127 # replicate 4095 0"

definition demo_sac :: sac where
  "demo_sac = \<lparr>disk = disk_of demo_bitmap demo_nodes (31742 * BLOCK_SIZE),
     node_table_start = 2, node_table_end = 1025, bitmap_start = 1, bitmap_end = 1,
     data_blocks_start = 1026, data_blocks_end = 32767, bitmap_size_bytes = 4096,
     opened_files = [], streams = 0, times = 0\<rparr>"

lemma demo_nodes_ok: "\<forall>g \<in> set demo_nodes. node_ok g" "length demo_nodes = 1024"
  by (auto simp: demo_nodes_def node_ok_mk_node)

lemma demo_sac_sel [simp]:
  "node_table_start demo_sac = 2" "node_table_end demo_sac = 1025" "bitmap_start demo_sac = 1"
  "data_blocks_start demo_sac = 1026" "data_blocks_end demo_sac = 32767"
  "bitmap_size_bytes demo_sac = 4096" "opened_files demo_sac = []" "streams demo_sac = 0"
  "times demo_sac = 0"
  by (simp_all add: demo_sac_def)

lemma length_demo_disk: "length (disk demo_sac) = 134217728"
  using demo_nodes_ok by (simp add: demo_sac_def length_disk_of demo_bitmap_def)

lemma node_at_demo:
  "2 \<le> b \<Longrightarrow> b < 1026 \<Longrightarrow> node_at (disk demo_sac) b = demo_nodes ! (b - 2)"
  using demo_nodes_ok by (simp add: demo_sac_def node_at_disk_of demo_bitmap_def)

lemma demo_nodes_nth:
  "demo_nodes ! 0 = mk_node 2 ''root'' 0 0 []" "demo_nodes ! Suc 0 = mk_node 2 ''a'' 0 0 []"
  "demo_nodes ! 2 = mk_node 2 ''b'' 0 0 []" "demo_nodes ! 3 = mk_node 1 ''x'' 3 0 []"
  "demo_nodes ! 4 = mk_node 1 ''x'' 4 5000 [1026]"
  "5 \<le> i \<Longrightarrow> i < 1024 \<Longrightarrow> demo_nodes ! i = mk_node 0 '''' 0 0 []"
  by (simp_all add: demo_nodes_def nth_append)

lemma demo_node:
  assumes "2 \<le> b" "b < 1026"
  obtains "b = 2" "node_at (disk demo_sac) b = mk_node 2 ''root'' 0 0 []"
    | "b = 3" "node_at (disk demo_sac) b = mk_node 2 ''a'' 0 0 []"
    | "b = 4" "node_at (disk demo_sac) b = mk_node 2 ''b'' 0 0 []"
    | "b = 5" "node_at (disk demo_sac) b = mk_node 1 ''x'' 3 0 []"
    | "b = 6" "node_at (disk demo_sac) b = mk_node 1 ''x'' 4 5000 [1026]"
    | "7 \<le> b" "node_at (disk demo_sac) b = mk_node 0 '''' 0 0 []"
proof -
  have "b = 2 \<or> b = 3 \<or> b = 4 \<or> b = 5 \<or> b = 6 \<or> 7 \<le> b" using assms by auto
  then show thesis
    using node_at_demo [OF assms] assms demo_nodes_nth
    by (elim disjE) (auto intro: that)
qed

lemma zero_in_fname: "length name < 71 \<Longrightarrow> 0 \<in> set (fname (mk_node st name p n bs))"
  by simp

lemma demo_table: "table_ok (disk demo_sac)"
proof -
  have "node_fits (disk demo_sac) b" if b: "2 \<le> b" "b \<le> 1025" for b
  proof -
    have "b < 1026" using b by simp
    with b(1) show ?thesis by (cases b rule: demo_node) (simp_all add: node_fits_def zero_in_fname)
  qed
  then show ?thesis by (simp add: table_ok_def length_demo_disk)
qed

lemma cstr_text: "cstr (c_text name @ replicate n 0) = c_text name" if "\<forall>c \<in> set name. of_char c \<noteq> (0 :: byte)"
  using that by (induction name) (auto simp: cstr_def c_text_def)

lemma demo_bitmap_ok: "bitmap_ok demo_sac"
  by (simp add: bitmap_ok_def bitmap_pos_def bitmap_len_def length_demo_disk)

lemma demo_disk_bitmap: "k < 4096 \<Longrightarrow> disk demo_sac ! (4096 + k) = (if k = 0 then 127 else 0)"
  by (auto simp: demo_sac_def disk_of_def demo_bitmap_def nth_append nth_Cons split: nat.split)

lemma demo_occupied: "i < 32768 \<Longrightarrow> occupied demo_sac i \<longleftrightarrow> i < 7"
proof -
  assume i: "i < 32768"
  have "occupied demo_sac i \<longleftrightarrow> bit (disk demo_sac ! (4096 + i div 8)) (i mod 8)"
    by (simp add: occupied_def bitmap_pos_def)
  moreover have "i div 8 < 4096" using i by auto
  moreover have "bit (127 :: byte) k \<longleftrightarrow> k < 7" if "k < 8" for k
  proof -
    have "k \<in> {0,1,2,3,4,5,6,7}" using that by auto
    then show ?thesis by auto
  qed
  ultimately show ?thesis by (auto simp: demo_disk_bitmap)
qed

section \<open>Names on the disk\<close>

lemma upt_2_1026: "[2..<1026] = [2, 3, 4, 5, 6] @ [7..<1026 :: nat]"
proof -
  have "[2..<1026 :: nat] = [2..<2 + 5] @ [2 + 5..<2 + 5 + 1019]"
    by (simp only: upt_add_eq_append [symmetric]) simp
  moreover have "[2..<2 + 5 :: nat] = [2, 3, 4, 5, 6]" by (simp add: upt_rec)
  ultimately show ?thesis by simp
qed

lemma demo_name:
  assumes "2 \<le> b" "b < 1026"
  shows "node_name (disk demo_sac) b =
    c_text (if b = 2 then ''root'' else if b = 3 then ''a'' else if b = 4 then ''b''
      else if b = 5 \<or> b = 6 then ''x'' else '''')"
proof -
  have "cstr (fname (mk_node st name p n bs)) = c_text name"
    if "\<forall>c \<in> set name. of_char c \<noteq> (0 :: byte)" for st name p n bs
    using cstr_text [OF that] by simp
  then have "cstr (fname (mk_node st ''root'' p n bs)) = c_text ''root''"
    "cstr (fname (mk_node st ''a'' p n bs)) = c_text ''a''"
    "cstr (fname (mk_node st ''b'' p n bs)) = c_text ''b''"
    "cstr (fname (mk_node st ''x'' p n bs)) = c_text ''x''"
    "cstr (fname (mk_node st [] p n bs)) = c_text []" for st p n bs
    by (simp_all del: mk_node_sel)
  with assms show ?thesis by (cases b rule: demo_node) (simp_all del: mk_node_sel)
qed

lemma demo_candidates_x: "candidates (disk demo_sac) (c_text ''x'') = [5, 6]"
proof -
  have "node_name (disk demo_sac) b \<noteq> c_text ''x''" if "b \<in> set [7..<1026]" for b
    using that demo_name [of b] by (auto simp: c_text_def)
  then have "filter (\<lambda>b. node_name (disk demo_sac) b = c_text ''x'') [7..<1026] = []"
    by (simp add: filter_empty_conv)
  moreover have "filter (\<lambda>b. node_name (disk demo_sac) b = c_text ''x'') [2, 3, 4, 5, 6] = [5, 6]"
    by (simp add: demo_name) (simp add: c_text_def)
  ultimately show ?thesis
    unfolding candidates_def upt_2_1026 filter_append by simp
qed

lemma demo_parents:
  "parent_block (node_at (disk demo_sac) 3) = 0" "parent_block (node_at (disk demo_sac) 4) = 0"
  "parent_block (node_at (disk demo_sac) 5) = 3" "parent_block (node_at (disk demo_sac) 6) = 4"
  by (simp_all add: node_at_demo demo_nodes_nth)

lemma demo_paths:
  "has_path (disk demo_sac) 5 [c_text ''a'', c_text ''x'']"
  "has_path (disk demo_sac) 6 [c_text ''b'', c_text ''x'']"
  "\<not> has_path (disk demo_sac) 6 [c_text ''a'', c_text ''x'']"
  by (simp_all add: has_path_def demo_name demo_parents) (simp_all add: c_text_def)

lemma demo_split:
  "tokens (c_text ''/a/x'') 47 = [c_text ''a'', c_text ''x'']"
  "tokens (c_text ''/b/x'') 47 = [c_text ''b'', c_text ''x'']"
  by (simp_all add: tokens_def c_text_def)

lemma demo_parse:
  "parse_path demo_sac_env (c_text ''/a/x'') = Ret (Inr [c_text ''a'', c_text ''x''])"
  "parse_path demo_sac_env (c_text ''/b/x'') = Ret (Inr [c_text ''b'', c_text ''x''])"
  by (simp_all add: parse_path_def demo_split unquote_def) (simp_all add: c_text_def)

lemma demo_find:
  assumes "streams s < 10" "disk s = disk demo_sac" "node_table_start s = 2"
  shows "find_node demo_sac_env (Inr [c_text ''a'', c_text ''x'']) s = Ret 0"
    "find_node demo_sac_env (Inr [c_text ''b'', c_text ''x'']) s = Ret 6"
proof -
  have n: "\<forall>l \<in> set [c_text ''a'', c_text ''x'']. 0 \<notin> set l"
    "\<forall>l \<in> set [c_text ''b'', c_text ''x'']. 0 \<notin> set l"
    by (simp_all add: c_text_def)
  show "find_node demo_sac_env (Inr [c_text ''a'', c_text ''x'']) s = Ret 0"
    by (subst find_node_ok)
      (use assms demo_table n in \<open>simp_all add: demo_candidates_x demo_paths\<close>)
  show "find_node demo_sac_env (Inr [c_text ''b'', c_text ''x'']) s = Ret 6"
    by (subst find_node_ok)
      (use assms demo_table n in \<open>simp_all add: demo_candidates_x demo_paths\<close>)
qed

lemma demo_search:
  assumes "streams s < 10" "disk s = disk demo_sac" "node_table_start s = 2"
  shows "search_for_file demo_sac_env (c_text ''/a/x'') s = Ret 0"
    "search_for_file demo_sac_env (c_text ''/b/x'') s = Ret 6"
  by (simp_all add: search_for_file_def demo_parse demo_find [OF assms])
    (simp_all add: c_text_def)

end
