(* ===== verification/SacProps.thy ===== *)
theory SacProps
  imports SacAlloc SacDemo
begin

text \<open>
  The properties of path lookup and of the creation of nodes in the SAC file server.
\<close>

section \<open>Path lookup\<close>





text \<open>
  A file hidden by another with the same name: on the disk of the example \<^verbatim>\<open>/a/x\<close> exists, as node
  5, but \<open>search_for_file\<close> does not find it, because the node 6 of \<^verbatim>\<open>/b/x\<close> has the same last name and
  a higher number: after it is discarded the flag is never set back and node 5 is not examined.
\<close>

theorem shadowed_file_not_found:
  "has_path (disk demo_sac) 5 [c_text ''a'', c_text ''x''] \<and>
   search_for_file demo_sac_env (c_text ''/a/x'') demo_sac = Ret 0 \<and>
   search_for_file demo_sac_env (c_text ''/b/x'') demo_sac = Ret 6"
  using demo_paths demo_search [of demo_sac] by simp

section \<open>Blocks and nodes\<close>

text \<open>
  \<open>find_free_block\<close> returns the first free block of the table of nodes, and -1 exactly when all its
  blocks are in use.
\<close>

theorem free_block_is_first:
  assumes "bitarray_lsb E" "bitmap_ok s" "streams s < max_streams E"
    "area_ok (node_table_start s) (node_table_end s) s"
  shows "\<exists>r. find_free_block E 0 s = Ret r \<and>
    (r = - 1 \<and> (\<forall>i. node_table_start s \<le> int i \<and> int i \<le> node_table_end s \<longrightarrow> occupied s i) \<or>
     node_table_start s \<le> r \<and> r \<le> node_table_end s \<and> \<not> occupied s (nat r) \<and>
       (\<forall>j. node_table_start s \<le> int j \<and> int j < r \<longrightarrow> occupied s j))"
  using find_free_block_cases [OF assms, of 0] by (cases rule: find_free_block_cases [OF assms, of 0]) auto

theorem free_block_is_first_witness:
  "\<exists>r. find_free_block demo_sac_env 0 demo_sac = Ret r \<and> r = 7"
proof -
  have "area_ok (node_table_start demo_sac) (node_table_end demo_sac) demo_sac"
    by (simp add: area_ok_def)
  then obtain r where r: "find_free_block demo_sac_env 0 demo_sac = Ret r"
    "r = - 1 \<and> (\<forall>i. 2 \<le> int i \<and> int i \<le> 1025 \<longrightarrow> occupied demo_sac i) \<or>
     2 \<le> r \<and> r \<le> 1025 \<and> \<not> occupied demo_sac (nat r) \<and>
       (\<forall>j. 2 \<le> int j \<and> int j < r \<longrightarrow> occupied demo_sac j)"
    using free_block_is_first [OF demo_bitarray demo_bitmap_ok] by auto
  have "\<not> occupied demo_sac 7" by (simp add: demo_occupied)
  with r(2) have "2 \<le> r" "r \<le> 1025" "\<not> occupied demo_sac (nat r)" "\<not> 7 < r"
    by (auto dest: spec [of _ 7])
  moreover from this have "\<not> nat r < 7" using demo_occupied [of "nat r"] by auto
  ultimately have "r = 7" by linarith
  with r(1) show ?thesis by blast
qed





end
