(* ===== verification/SacReplies.thy ===== *)
theory SacReplies
  imports SacAlloc SacDemo
begin

text \<open>
  Replies of the file server: what the actions can answer and what of it reaches the client.
\<close>

section \<open>Replies\<close>

text \<open>
  C27: \<open>mknod\<close> and \<open>mkdir\<close> never succeed: when they answer, the answer is an error and the disk is as
  it was. A creation that gets past the checks marks a block, writes the node and then hands a local
  struct to \<open>fseek\<close>.
\<close>

theorem creation_never_succeeds:
  assumes "action_mknod E path s = Ret (r, s') \<or> action_mkdir E path s = Ret (r, s')"
  shows "r \<in> {c_text ''EEXIST'', c_text ''ENAMETOOLONG'', c_text ''ENOENT'', c_text ''ENOTDIR''} \<and>
    disk s' = disk s"
proof -
  have state: "disk t' = disk t" if "check_node_state E n t = Ret (st, t')" for n t st t'
    using that by (auto simp: check_node_state_def obind_Ret_iff fopen_def split: if_splits)
  have dir: "r \<in> {c_text ''ENAMETOOLONG'', c_text ''ENOENT'', c_text ''ENOTDIR''} \<and> disk t' = disk t"
    if "directory_of E path t = Ret (Inl r, t')" for t t' r
    using that by (auto simp: directory_of_def Let_def obind_Ret_iff dest: state split: if_splits)
  have rest: "r \<in> {c_text ''ENAMETOOLONG'', c_text ''ENOENT'', c_text ''ENOTDIR''} \<and> disk s' = disk t"
    if "obind (directory_of E path t) (\<lambda>(dir, s2). case dir of Inl response \<Rightarrow> Ret (response, s2)
      | Inr (name, d) \<Rightarrow> obind (create name d s2) (\<lambda>_. Fault)) = Ret (r, s')"
    for t and create :: "byte list \<Rightarrow> int \<Rightarrow> sac \<Rightarrow> (int \<times> sac) outcome"
  proof -
    obtain d s2 where d: "directory_of E path t = Ret (d, s2)"
      "(case d of Inl response \<Rightarrow> Ret (response, s2)
        | Inr (name, d) \<Rightarrow> obind (create name d s2) (\<lambda>_. Fault)) = Ret (r, s')"
      using \<open>obind _ _ = _\<close> by (auto simp: obind_Ret_iff)
    then have "d = Inl r \<and> s2 = s'" by (cases d) (auto simp: obind_Ret_iff split: prod.splits)
    with d(1) dir show ?thesis by blast
  qed
  from assms show ?thesis
  proof
    assume "action_mknod E path s = Ret (r, s')"
    then show ?thesis
      unfolding action_mknod_def
      by (elim obind_RetE) (auto dest!: state rest split: if_splits prod.splits)
  next
    assume "action_mkdir E path s = Ret (r, s')"
    then show ?thesis
      unfolding action_mkdir_def
      by (elim obind_RetE) (auto dest!: state rest split: if_splits prod.splits)
  qed
qed

lemma demo_state:
  assumes "2 \<le> n" "n \<le> 1025" "disk s = disk demo_sac" "streams s < 10"
  shows "check_node_state demo_sac_env (int n) s =
    Ret (uint (node_state (node_at (disk demo_sac) n)), s\<lparr>streams := Suc (streams s)\<rparr>)"
proof -
  have "(n + 1) * BLOCK_SIZE \<le> 1026 * BLOCK_SIZE" using assms(2) by (intro mult_right_mono) auto
  then have "(n + 1) * BLOCK_SIZE \<le> length (disk demo_sac)" by (simp add: length_demo_disk)
  from read_node_at [OF this, of demo_sac_env] assms seek_block [OF assms(2), of 0]
  show ?thesis by (simp add: check_node_state_def fopen_def)
qed

theorem creation_never_succeeds_witness:
  "action_mknod demo_sac_env (c_text ''/b/x'') demo_sac = Ret (c_text ''EEXIST'', demo_sac\<lparr>streams := 1\<rparr>) \<and>
   disk (demo_sac\<lparr>streams := 1\<rparr>) = disk demo_sac"
proof
  show e: "action_mknod demo_sac_env (c_text ''/b/x'') demo_sac =
      Ret (c_text ''EEXIST'', demo_sac\<lparr>streams := 1\<rparr>)"
    using demo_state [of 6 demo_sac]
    by (simp add: action_mknod_def demo_search node_at_demo demo_nodes_nth)
  then show "disk (demo_sac\<lparr>streams := 1\<rparr>) = disk demo_sac"
    using creation_never_succeeds [of demo_sac_env "c_text ''/b/x''" demo_sac] by blast
qed

lemma read_table_node:
  assumes "table_ok (disk s)" "2 \<le> n" "n \<le> 1025"
  shows "read_node E (disk s) (n * BLOCK_SIZE) = node_at (disk s) n"
proof -
  have "(n + 1) * BLOCK_SIZE \<le> 1026 * BLOCK_SIZE" using assms(3) by (intro mult_right_mono) auto
  with assms(1) show ?thesis by (intro read_node_at) (simp add: table_ok_def)
qed

lemma response_buff_short: "length r \<le> 100 \<Longrightarrow> \<exists>rest. response_buff fresh r = r @ rest"
  by (simp add: response_buff_def)

text \<open>
  C22: The attributes of a regular file travel from the node to FUSE: for a file of less than ten
  thousand bytes the client reports a regular file of the size in the node. For a larger one the
  number does not fit in the five bytes \<open>action_getattr\<close> prints it to.
\<close>

theorem getattr_size_arrives:
  assumes "table_ok (disk s)" "streams s < max_streams E" "path \<noteq> [slash]"
    "search_for_file E path s = Ret (int n)" "2 \<le> n" "n \<le> 1025"
    "node_state (node_at (disk s) n) = 1" "filesize (node_at (disk s) n) = of_nat k" "k < 2 ^ 31"
  shows "(k < 10000 \<longrightarrow> (\<exists>r s'. action_getattr E path s = Ret (r, s') \<and>
      sac_getattr tokens fresh (r @ [0]) =
        Ret (Some \<lparr>st_dir = False, st_perm = 511, st_nlink = 1, st_size = int k\<rparr>, 0))) \<and>
    (10000 \<le> k \<longrightarrow> action_getattr E path s = Fault)"
proof -
  note node = read_table_node [OF assms(1,5,6), of E]
  have size: "sint (filesize (node_at (disk s) n)) = int k"
    using assms(8,9) by (simp only: sint_of_nat32)
  have seek: "seek_to 0 (int n * 4096) = Ret (n * BLOCK_SIZE)" by (rule seek_block [OF assms(6)])
  have get: "action_getattr E path s = obind (sprint_int 5 (int k)) (\<lambda>file_size_s.
      Ret (c_text ''S_IFREG '' @ file_size_s, s\<lparr>streams := Suc (streams s)\<rparr>))"
    using assms(2-7) node seek size by (simp add: action_getattr_def fopen_def)
  let ?k = "c_text (dec_nat k)"
  show ?thesis
  proof (cases "k < 10000")
    case True
    let ?r = "join_by 32 [c_text ''S_IFREG'', ?k]"
    have "sprint_int 5 (int k) = Ret ?k" using True sprint_int_ok [of "int k" 3 5] by simp
    then have act: "action_getattr E path s = Ret (?r, s\<lparr>streams := Suc (streams s)\<rparr>)"
      using get by (simp add: c_text_def)
    have "length (dec_nat k) \<le> 4" using True length_dec_nat [of k 3] by simp
    then have "length (?r @ [0]) \<le> 100" by (simp add: c_text_def)
    from response_buff_short [OF this] obtain rest
      where buff: "response_buff fresh (?r @ [0]) = ?r @ 0 # rest"
      by auto
    have w: "word_ok (c_text ''S_IFREG'')" "word_ok ?k"
      by (simp add: word_ok_def c_text_def, rule word_ok_digits)
    then have "0 \<notin> set ?r" by (intro zero_join) simp
    then have "c_strlen (?r @ 0 # rest) = Ret (length ?r)" by (rule c_strlen_end)
    moreover have "tokens ?r 32 = [c_text ''S_IFREG'', ?k]"
      using w by (intro tokens_join) (auto simp: word_ok_def)
    moreover have "c_streq (?r @ 0 # rest) (c_text ''-ENOENT'') = Ret False"
      "c_streq (?r @ 0 # rest) (c_text ''S_IFDIR'') = Ret False"
      by (simp_all add: c_text_def)
    moreover have "atoi (?k @ [0]) = Ret (int k)"
      using atoi_dec_nat [of k 0 "[]"] assms(9) by (simp add: is_digit_def c_text_def)
    ultimately have "sac_getattr tokens fresh (?r @ [0]) =
        Ret (Some \<lparr>st_dir = False, st_perm = 511, st_nlink = 1, st_size = int k\<rparr>, 0)"
      unfolding sac_getattr_def buff by (simp del: join_by.simps)
    with act True show ?thesis by auto
  next
    case False
    then have "\<not> length (dec_nat k) \<le> Suc 3" by (subst length_dec_nat) simp
    then have "sprint_int 5 (int k) = Fault" by (simp add: sprint_int_def dec_int_nonneg)
    with get False show ?thesis by simp
  qed
qed

theorem getattr_size_arrives_witness:
  "\<exists>r s'. action_getattr demo_sac_env (c_text ''/b/x'') demo_sac = Ret (r, s') \<and>
    sac_getattr tokens (\<lambda>_. 0) (r @ [0]) =
      Ret (Some \<lparr>st_dir = False, st_perm = 511, st_nlink = 1, st_size = 5000\<rparr>, 0)"
proof -
  have "c_text ''/b/x'' \<noteq> [slash]" by (simp add: c_text_def)
  moreover have "node_state (node_at (disk demo_sac) 6) = 1"
    "filesize (node_at (disk demo_sac) 6) = of_nat 5000"
    by (simp_all add: node_at_demo demo_nodes_nth)
  ultimately show ?thesis
    using getattr_size_arrives [OF demo_table, of demo_sac_env "c_text ''/b/x''" 6 5000 "\<lambda>_. 0"]
      demo_search [of demo_sac] by simp
qed

text \<open>
  The client never learns a descriptor: when the server answers \<open>open\<close> with one, \<open>sac_open\<close>
  returns 0, because it converts the answer only when it is empty.
\<close>

theorem descriptor_is_lost:
  assumes "0 < d" "d < 10000"
  shows "sac_open fresh (c_text (dec_int d) @ [0]) = Ret (0, None)"
proof -
  obtain b bs where b: "c_text (dec_nat (nat d)) = b # bs" "is_digit b"
    unfolding c_text_def by (rule dec_nat_head)
  then have "b \<noteq> of_char CHR ''E''" "b \<noteq> of_char CHR ''-''" "b \<noteq> 0"
    by (auto simp: is_digit_def)
  moreover have "response_buff fresh (c_text (dec_int d) @ [0]) = b # tl (response_buff fresh (c_text (dec_int d) @ [0]))"
    using assms b by (simp add: response_buff_def dec_int_nonneg Let_def)
  then obtain rest where "response_buff fresh (c_text (dec_int d) @ [0]) = b # rest" by blast
  ultimately show ?thesis by (simp add: sac_open_def c_text_def)
qed

theorem descriptor_is_lost_witness: "sac_open (\<lambda>_. 0) (c_text (dec_int 7) @ [0]) = Ret (0, None)"
  by (rule descriptor_is_lost) simp_all

section \<open>Descriptors and streams\<close>

text \<open>
  Descriptors: as long as fewer than 65535 files have been opened, the entries of the table are
  numbered from 1 on, an insertion returns the next number, and afterwards the file counts as opened.
\<close>

theorem descriptors_ascend:
  assumes "map (\<lambda>f. uint (fd f)) (opened_files s) = map int [1..<Suc (length (opened_files s))]"
    "length (opened_files s) < 65535"
    "insert_to_opened_files_table E f s = Ret (d, s')"
  shows "d = int (length (opened_files s)) + 1 \<and>
    length (opened_files s') = Suc (length (opened_files s)) \<and>
    map (\<lambda>f. uint (fd f)) (opened_files s') = map int [1..<Suc (length (opened_files s'))] \<and>
    0 < is_file_opened (uint (node_block f)) s'"
proof -
  let ?fs = "opened_files s" and ?n = "length (opened_files s)"
  have d: "d = int ?n + 1 \<and> (\<exists>g. opened_files s' = ?fs @ [g] \<and> fd g = of_int d \<and> node_block g = node_block f)"
  proof (cases "?fs = []")
    case True
    then show ?thesis using assms(3) by (auto simp: insert_to_opened_files_table_def)
  next
    case False
    have "uint (fd (last ?fs)) = last (map (\<lambda>f. uint (fd f)) ?fs)" using False by (simp add: last_map)
    also have "\<dots> = int ?n"
      unfolding assms(1) using False by (cases "opened_files s") (simp_all add: last_map)
    finally show ?thesis
      using assms(3) False by (auto simp: insert_to_opened_files_table_def Let_def obind_Ret_iff)
  qed
  then obtain g where g: "opened_files s' = ?fs @ [g]" "fd g = of_int d" "node_block g = node_block f"
    by blast
  have "d < 2 ^ 16" using d assms(2) by simp
  moreover have d0: "0 \<le> d" using d by simp
  ultimately have "take_bit 16 d = d" by (intro take_bit_int_eq_self) simp_all
  then have "uint (of_int d :: 16 word) = d" using d0 by (simp add: unsigned_of_int)
  then have u: "uint (fd g) = d" by (simp only: g(2))
  have find: "0 < find_opened (fs @ [g]) (node_block g)"
    if "\<forall>f \<in> set fs. 0 < uint (fd f)" for fs
    using that u d by (induction fs) auto
  have "\<forall>f \<in> set ?fs. 0 < uint (fd f)"
  proof
    fix f assume "f \<in> set ?fs"
    then have "uint (fd f) \<in> set (map (\<lambda>f. uint (fd f)) ?fs)" by simp
    then have "uint (fd f) \<in> set (map int [1..<Suc ?n])" unfolding assms(1) .
    then show "0 < uint (fd f)" by auto
  qed
  from find [OF this] g have "0 < is_file_opened (uint (node_block f)) s'"
    by (simp add: is_file_opened_def)
  with d g u assms(1) show ?thesis by simp
qed

definition demo_file :: sac_opened_file where
  "demo_file = \<lparr>fd = 0, node_block = 6, mode = 0, opened_state = 1,
     opened_fname = c_text ''x'' @ replicate 70 0, opened_parent = 4\<rparr>"

theorem descriptors_ascend_witness:
  "0 < is_file_opened 6 (demo_sac\<lparr>opened_files := [demo_file\<lparr>fd := 1\<rparr>]\<rparr>)"
proof -
  have "insert_to_opened_files_table demo_sac_env demo_file demo_sac =
      Ret (1, demo_sac\<lparr>opened_files := [demo_file\<lparr>fd := 1\<rparr>]\<rparr>)"
    by (simp add: insert_to_opened_files_table_def)
  from descriptors_ascend [OF _ _ this] show ?thesis by (simp add: demo_file_def)
qed

text \<open>A number of calls in a row.\<close>

fun check_many :: "sac_env \<Rightarrow> int list \<Rightarrow> sac \<Rightarrow> sac outcome" where
  "check_many E [] s = Ret s"
| "check_many E (n # ns) s = obind (check_node_state E n s) (\<lambda>(_, s1). check_many E ns s1)"

text \<open>
  \<open>check_node_state\<close> leaks a stream: it never closes the one it opens, so of any number of calls
  in a row at most as many return as streams are left, and the next operation on the disk faults.
\<close>

theorem node_state_leaks:
  assumes "check_many E ns s = Ret s'" "streams s \<le> max_streams E"
  shows "streams s' = streams s + length ns \<and> streams s' \<le> max_streams E \<and>
    (streams s' = max_streams E \<longrightarrow> find_free_block E 0 s' = Fault \<and> check_node_state E 2 s' = Fault)"
  using assms
proof (induction ns arbitrary: s)
  case Nil
  then show ?case by (simp add: find_free_block_def check_node_state_def fopen_def)
next
  case (Cons n ns)
  obtain st s1 where s1: "check_node_state E n s = Ret (st, s1)" "check_many E ns s1 = Ret s'"
    using Cons.prems(1) by (auto simp: obind_Ret_iff)
  then have "streams s1 = Suc (streams s)" "streams s < max_streams E"
    by (auto simp: check_node_state_def fopen_def obind_Ret_iff split: if_splits)
  with Cons.IH [OF s1(2)] show ?case by simp
qed

theorem node_state_leaks_witness:
  "check_many demo_sac_env [6, 6] demo_sac = Ret (demo_sac\<lparr>streams := 2\<rparr>) \<and>
   streams (demo_sac\<lparr>streams := 2\<rparr>) = 2"
proof
  show c: "check_many demo_sac_env [6, 6] demo_sac = Ret (demo_sac\<lparr>streams := 2\<rparr>)"
    using demo_state [of 6 demo_sac] demo_state [of 6 "demo_sac\<lparr>streams := Suc 0\<rparr>"] by simp
  show "streams (demo_sac\<lparr>streams := 2\<rparr>) = 2"
    using node_state_leaks [OF c] by simp
qed

end
