(* ===== verification/SacSession.thy ===== *)
theory SacSession
  imports SacReplies
begin

text \<open>
  Sessions with the SAC file server: what a client's requests can change at all. Every action keeps
  the layout of the disk, adds to the table of opened files only at its end and never gives a stream
  back that it did not open; and only a write changes the disk.
\<close>

section \<open>What an action keeps\<close>

definition same_layout :: "sac \<Rightarrow> sac \<Rightarrow> bool" where
  "same_layout s s' \<longleftrightarrow> node_table_start s' = node_table_start s \<and>
     node_table_end s' = node_table_end s \<and> bitmap_start s' = bitmap_start s \<and>
     bitmap_end s' = bitmap_end s \<and> data_blocks_start s' = data_blocks_start s \<and>
     data_blocks_end s' = data_blocks_end s \<and> bitmap_size_bytes s' = bitmap_size_bytes s"

definition grown :: "sac \<Rightarrow> sac \<Rightarrow> bool" where
  "grown s s' \<longleftrightarrow> same_layout s s' \<and> (\<exists>fs. opened_files s' = opened_files s @ fs) \<and>
     streams s \<le> streams s'"

definition kept :: "sac \<Rightarrow> sac \<Rightarrow> bool" where
  "kept s s' \<longleftrightarrow> grown s s' \<and> disk s' = disk s"

lemma grown_refl [simp]: "grown s s"
  by (simp add: grown_def same_layout_def)

lemma kept_refl [simp]: "kept s s"
  by (simp add: kept_def)

lemma grown_trans: "grown s t \<Longrightarrow> grown t u \<Longrightarrow> grown s u"
  by (auto simp: grown_def same_layout_def)

lemma kept_trans: "kept s t \<Longrightarrow> kept t u \<Longrightarrow> kept s u"
  by (auto simp: kept_def intro: grown_trans)

lemma fopen_kept [kept_rules]: "fopen E s = Ret s' \<Longrightarrow> kept s s' \<and> kept s (fclose s')"
  by (auto simp: fopen_def fclose_def kept_def grown_def same_layout_def split: if_splits)

lemma check_node_state_kept [kept_rules]: "check_node_state E n s = Ret (r, s') \<Longrightarrow> kept s s'"
  using fopen_kept by (auto simp: check_node_state_def obind_Ret_iff Let_def)

lemma insert_kept [kept_rules]: "insert_to_opened_files_table E f s = Ret (d, s') \<Longrightarrow> kept s s'"
  by (auto simp: insert_to_opened_files_table_def obind_Ret_iff Let_def kept_def grown_def
    same_layout_def split: if_splits)

lemma open_node_kept: "open_node E n st b s = Ret (r, s') \<Longrightarrow> kept s s'"
  using fopen_kept insert_kept kept_trans
  by (auto simp: open_node_def obind_Ret_iff Let_def) blast

text \<open>The interface of an action: a response and a state in which only what may change has changed.\<close>

locale reading_action =
  fixes act :: "sac \<Rightarrow> (byte list \<times> sac) outcome"
  assumes keeps: "act s = Ret (r, s') \<Longrightarrow> kept s s'"
begin

lemma keeps_disk: "act s = Ret (r, s') \<Longrightarrow> disk s' = disk s"
  using keeps by (simp add: kept_def)

lemma guarded: "(if b then Ret (text, s) else act s) = Ret (r, s') \<Longrightarrow> kept s s'"
  using keeps by (auto split: if_splits)

end

lemma action_open_kept: "action_open E path s = Ret (r, s') \<Longrightarrow> kept s s'"
  using check_node_state_kept open_node_kept kept_trans
  by (auto simp: action_open_def obind_Ret_iff split: if_splits) blast+

lemma action_opendir_kept: "action_opendir E path s = Ret (r, s') \<Longrightarrow> kept s s'"
  using check_node_state_kept open_node_kept kept_trans
  by (auto simp: action_opendir_def obind_Ret_iff split: if_splits) blast+

lemma action_readdir_kept: "action_readdir E path s = Ret (r, s') \<Longrightarrow> kept s s'"
  by (auto simp: action_readdir_def obind_Ret_iff dest: kept_rules split: if_splits)

lemma action_getattr_kept: "action_getattr E path s = Ret (r, s') \<Longrightarrow> kept s s'"
  by (auto simp: action_getattr_def obind_Ret_iff Let_def dest: kept_rules split: if_splits)

lemma directory_of_kept: "directory_of E path s = Ret (r, s') \<Longrightarrow> kept s s'"
  by (auto simp: directory_of_def obind_Ret_iff Let_def dest: kept_rules split: if_splits)

text \<open>A result that is a response already, or a value to go on with.\<close>

lemma response_cases:
  assumes "obind m (\<lambda>(x, s1). case x of Inl t \<Rightarrow> Ret (t, s1) | Inr y \<Rightarrow> f y s1) = Ret (r, s')"
  obtains "m = Ret (Inl r, s')" | y s1 where "m = Ret (Inr y, s1)" "f y s1 = Ret (r, s')"
proof -
  obtain x s1 where "m = Ret (x, s1)" "(case x of Inl t \<Rightarrow> Ret (t, s1) | Inr y \<Rightarrow> f y s1) = Ret (r, s')"
    using assms by (auto simp: obind_Ret_iff)
  with that show thesis by (cases x) auto
qed

lemma directory_response:
  assumes "obind (directory_of E path s) (\<lambda>(dir, s2).
      case dir of Inl response \<Rightarrow> Ret (response, s2)
      | Inr (name, d) \<Rightarrow> obind (f name d s2) (\<lambda>_. Fault)) = Ret (r, s')"
  shows "kept s s'"
  using assms
proof (cases rule: response_cases)
  case 1
  then show ?thesis by (rule directory_of_kept)
next
  case (2 y s1)
  then show ?thesis by (auto simp: obind_Ret_iff split: prod.splits)
qed

lemma action_mknod_kept:
  assumes "action_mknod E path s = Ret (r, s')"
  shows "kept s s'"
proof -
  obtain n st s1 where "obind (if n \<noteq> 0 then check_node_state E n s else Ret (2, s)) Ret = Ret (st, s1)"
    and rest: "(if st = 1 \<or> st = 0 then Ret (c_text ''EEXIST'', s1)
      else obind (directory_of E path s1) (\<lambda>(dir, s2).
        case dir of Inl response \<Rightarrow> Ret (response, s2)
        | Inr (name, d) \<Rightarrow> obind (mknod_node E name d s2) (\<lambda>_. Fault))) = Ret (r, s')"
    using assms by (force simp: action_mknod_def obind_Ret_iff)
  then have "kept s s1" using check_node_state_kept by (auto split: if_splits)
  moreover have "kept s1 s'" using rest directory_response by (auto split: if_splits)
  ultimately show ?thesis by (rule kept_trans)
qed

lemma action_mkdir_kept:
  assumes "action_mkdir E path s = Ret (r, s')"
  shows "kept s s'"
proof -
  obtain n st s1 where "obind (if n \<noteq> 0 then check_node_state E n s else Ret (0, s)) Ret = Ret (st, s1)"
    and rest: "(if st = 2 then Ret (c_text ''EEXIST'', s1)
      else obind (directory_of E path s1) (\<lambda>(dir, s2).
        case dir of Inl response \<Rightarrow> Ret (response, s2)
        | Inr (name, d) \<Rightarrow> obind (mkdir_node E name d s2) (\<lambda>_. Fault))) = Ret (r, s')"
    using assms by (force simp: action_mkdir_def obind_Ret_iff)
  then have "kept s s1" using check_node_state_kept by (auto split: if_splits)
  moreover have "kept s1 s'" using rest directory_response by (auto split: if_splits)
  ultimately show ?thesis by (rule kept_trans)
qed

lemma opened_node_kept: "opened_node E path s = Ret (r, s') \<Longrightarrow> kept s s'"
  by (auto simp: opened_node_def obind_Ret_iff dest: kept_rules split: if_splits)

lemma action_read_kept:
  assumes "action_read E path size_s offset_s s = Ret (r, s')"
  shows "kept s s'"
  using assms unfolding action_read_def
proof (cases rule: response_cases)
  case 1
  then show ?thesis by (rule opened_node_kept)
next
  case (2 n s1)
  from 2(2) obtain s2 where "fopen E s1 = Ret s2" "s' = s2"
    by (auto simp: obind_Ret_iff Let_def split: if_splits prod.splits)
  then have "kept s1 s'" using fopen_kept by simp
  with opened_node_kept [OF 2(1)] show ?thesis by (rule kept_trans)
qed

interpretation open_file: reading_action "action_open E path" for E path
  by unfold_locales (rule action_open_kept)

interpretation open_dir: reading_action "action_opendir E path" for E path
  by unfold_locales (rule action_opendir_kept)

interpretation listing: reading_action "action_readdir E path" for E path
  by unfold_locales (rule action_readdir_kept)

interpretation asking: reading_action "action_getattr E path" for E path
  by unfold_locales (rule action_getattr_kept)

interpretation making: reading_action "action_mknod E path" for E path
  by unfold_locales (rule action_mknod_kept)

interpretation making_dir: reading_action "action_mkdir E path" for E path
  by unfold_locales (rule action_mkdir_kept)

interpretation reading: reading_action "action_read E path size_s offset_s" for E path size_s offset_s
  by unfold_locales (rule action_read_kept)

section \<open>What a write keeps\<close>

lemma kept_grown: "kept s s' \<Longrightarrow> grown s s'"
  by (simp add: kept_def)

text \<open>What happens between an \<open>fopen\<close> and its \<open>fclose\<close> changes the disk only.\<close>

lemma fopen_disk_grown: "fopen E s = Ret s1 \<Longrightarrow> grown s (fclose (s1\<lparr>disk := d\<rparr>))"
  by (auto simp: fopen_def fclose_def grown_def same_layout_def split: if_splits)

lemma write_block_grown: "write_block E n off t s = Ret s' \<Longrightarrow> grown s s'"
  using fopen_disk_grown by (auto simp: write_block_def obind_Ret_iff split: if_splits)

lemma set_block_as_occupied_grown: "set_block_as_occupied E n s = Ret s' \<Longrightarrow> grown s s'"
  using fopen_disk_grown by (auto simp: set_block_as_occupied_def obind_Ret_iff Let_def split: if_splits)

lemma add_blocks_grown: "add_blocks E n k g s = Ret (g', s') \<Longrightarrow> grown s s'"
proof (induction n arbitrary: g s)
  case (Suc n)
  then obtain b s1 g1 where "set_block_as_occupied E b s = Ret s1" "add_blocks E n k g1 s1 = Ret (g', s')"
    by (auto simp: obind_Ret_iff split: if_splits)
  then show ?case using Suc.IH set_block_as_occupied_grown grown_trans by blast
qed simp

lemma grow_file_grown: "grow_file E n g s = Ret (g', s') \<Longrightarrow> grown s s'"
  using add_blocks_grown by (auto simp: grow_file_def obind_Ret_iff Let_def)

lemma write_pass_grown: "write_pass E g k off buf a t s = Ret s' \<Longrightarrow> grown s s'"
  using write_block_grown by (auto simp: write_pass_def obind_Ret_iff split: if_splits)

lemma write_loop_grown: "write_loop E g k off buf a n s = Ret (a', s') \<Longrightarrow> grown s s'"
proof (induction E g k off buf a n s rule: write_loop.induct)
  case (1 E g k off buf a n s)
  let ?t = "if n \<ge> int BLOCK_SIZE then int BLOCK_SIZE else n"
  show ?case
  proof (cases "n \<le> 0")
    case True
    with "1.prems" show ?thesis by (auto simp: write_loop.simps [of E g k off buf a n] split: if_splits)
  next
    case False
    with "1.prems" obtain s1 where s1: "write_pass E g k off buf a ?t s = Ret s1"
      "write_loop E g k off buf (a + ?t) (n - ?t) s1 = Ret (a', s')"
      by (auto simp: write_loop.simps [of E g k off buf a n] obind_Ret_iff Let_def)
    have "grown s1 s'" by (rule "1.IH" [OF _ _ refl s1(2)]) (use False in auto)
    with write_pass_grown [OF s1(1)] show ?thesis by (rule grown_trans)
  qed
qed

lemma write_text_grown: "write_text E g k off buf n s = Ret (a, s') \<Longrightarrow> grown s s'"
  using write_pass_grown write_loop_grown grown_trans
  by (fastforce simp: write_text_def obind_Ret_iff Let_def split: if_splits)

lemma write_file_grown:
  assumes "write_file E g pos buf n off s = Ret (r, s')"
  shows "grown s s'"
proof -
  obtain k x y g1 s1 a s2 s3 d where
      grow: "grow_file E k g s = Ret (g1, s1) \<or> s1 = s"
    and wr: "write_text E g1 x y buf n s1 = Ret (a, s2)"
    and op: "fopen E (s2\<lparr>times := Suc (times s2)\<rparr>) = Ret s3"
    and s': "s' = fclose (s3\<lparr>disk := d\<rparr>)"
    using assms
    by (auto simp: write_file_def obind_Ret_iff Let_def case_prod_beta split: if_splits) blast+
  have "grown s s1" using grow grow_file_grown by auto
  moreover have "grown s1 s2" by (rule write_text_grown [OF wr])
  moreover have "grown s2 (s2\<lparr>times := Suc (times s2)\<rparr>)" by (simp add: grown_def same_layout_def)
  moreover have "grown (s2\<lparr>times := Suc (times s2)\<rparr>) s'" using s' fopen_disk_grown [OF op] by auto
  ultimately show ?thesis using grown_trans by blast
qed

lemma action_write_grown:
  assumes "action_write E path buf size_s offset_s s = Ret (r, s')"
  shows "grown s s'"
  using assms unfolding action_write_def
proof (cases rule: response_cases)
  case 1
  then show ?thesis by (intro kept_grown opened_node_kept)
next
  case (2 n s1)
  from 2(2) obtain s2 g pos k off where "fopen E s1 = Ret s2"
    and w: "write_file E g pos buf k off (fclose s2) = Ret (r, s')"
    by (auto simp: obind_Ret_iff Let_def)
  then have "grown s1 (fclose s2)" using fopen_kept kept_grown by blast
  moreover have "grown (fclose s2) s'" by (rule write_file_grown [OF w])
  moreover have "grown s s1" by (intro kept_grown opened_node_kept) (rule 2(1))
  ultimately show ?thesis using grown_trans by blast
qed

section \<open>Requests and sessions\<close>

lemmas action_keeps [kept_rules] = open_file.keeps reading.keeps asking.keeps making.keeps
  making_dir.keeps open_dir.keeps listing.keeps

lemma run_instruction_kept:
  assumes "run_instruction E p s = Ret (r, s')" "hd p \<noteq> c_text ''write''"
  shows "kept s s'"
  using assms
  by (auto simp: run_instruction_def run_open_def run_read_def run_getattr_def run_mknod_def
    run_mkdir_def run_opendir_def run_readdir_def split: if_splits dest: kept_rules)

lemma run_instruction_grown: "run_instruction E p s = Ret (r, s') \<Longrightarrow> grown s s'"
proof (cases "hd p = c_text ''write''")
  case True
  assume "run_instruction E p s = Ret (r, s')"
  with True show ?thesis
    using action_write_grown
    by (auto simp: run_instruction_def run_write_def c_text_def split: if_splits)
qed (use run_instruction_kept kept_grown in blast)

text \<open>The request in a buffer is a write.\<close>

definition is_write :: "sac_env \<Rightarrow> mem \<Rightarrow> bool" where
  "is_write E buf \<longleftrightarrow> (case obind (c_strlen buf) (\<lambda>n.
       unquote_all (string_split E (bar_blanks False False (take n buf)) 124)) of
     Ret (Some (instruction # _)) \<Rightarrow> instruction = c_text ''write''
   | _ \<Rightarrow> False)"

lemma parse_input_kept:
  assumes "parse_input E buf s = Ret (r, s')" "\<not> is_write E buf"
  shows "kept s s'"
proof -
  obtain n where n: "c_strlen buf = Ret n" using assms(1) by (auto simp: parse_input_def obind_Ret_iff)
  let ?ps = "string_split E (bar_blanks False False (take n buf)) 124"
  show ?thesis
  proof (cases "?ps = []")
    case True
    with assms(1) n show ?thesis by (simp add: parse_input_def)
  next
    case False
    then obtain v where v: "unquote_all ?ps = Ret v"
      using assms(1) n by (auto simp: parse_input_def obind_Ret_iff)
    show ?thesis
    proof (cases v)
      case None
      with assms(1) n v False show ?thesis by (simp add: parse_input_def)
    next
      case (Some p)
      with assms(1) n v False have run: "run_instruction E p s = Ret (r, s')"
        by (simp add: parse_input_def)
      have "p \<noteq> []"
        using v Some False by (cases ?ps) (auto simp: obind_Ret_iff split: option.splits)
      with assms(2) n v Some have "hd p \<noteq> c_text ''write''"
        by (cases p) (simp_all add: is_write_def)
      with run show ?thesis by (rule run_instruction_kept)
    qed
  qed
qed

text \<open>The buffers the requests of a client leave, one after the other.\<close>

fun session_buffers :: "byte list option list \<Rightarrow> mem \<Rightarrow> mem list" where
  "session_buffers [] buf = []"
| "session_buffers (r # rs) buf =
     (if r = Some [] then []
      else
        let received = (case r of None \<Rightarrow> [] | Some bs \<Rightarrow> take 3000 bs);
          buf1 = received @ drop (length received) buf in
        buf1 # session_buffers rs buf1)"

lemma serve_client_kept:
  assumes "serve_client E rs buf s = Ret (out, buf', s')"
    "\<forall>b \<in> set (session_buffers rs buf). \<not> is_write E b"
  shows "kept s s'"
  using assms
proof (induction rs arbitrary: buf s out buf')
  case (Cons q rs)
  show ?case
  proof (cases "q = Some []")
    case False
    define b where "b = (let received = (case q of None \<Rightarrow> [] | Some bs \<Rightarrow> take 3000 bs) in
      received @ drop (length received) buf)"
    have b: "session_buffers (q # rs) buf = b # session_buffers rs b"
      using False by (simp add: b_def Let_def)
    obtain r s1 out1 buf1 where 1: "parse_input E b s = Ret (r, s1)"
      and 2: "serve_client E rs b s1 = Ret (out1, buf1, s')"
      using Cons.prems(1) False by (auto simp: b_def Let_def obind_Ret_iff)
    have "kept s s1" by (rule parse_input_kept [OF 1]) (use Cons.prems(2) b in simp)
    moreover have "kept s1 s'" by (rule Cons.IH [OF 2]) (use Cons.prems(2) b in simp)
    ultimately show ?thesis by (rule kept_trans)
  qed (use Cons.prems in simp)
qed simp

lemma parse_input_grown: "parse_input E buf s = Ret (r, s') \<Longrightarrow> grown s s'"
  using run_instruction_grown
  by (auto simp: parse_input_def obind_Ret_iff Let_def split: if_splits option.splits)

lemma serve_client_grown: "serve_client E rs buf s = Ret (out, buf', s') \<Longrightarrow> grown s s'"
proof (induction rs arbitrary: buf s out buf')
  case (Cons q rs)
  show ?case
  proof (cases "q = Some []")
    case False
    then obtain b r s1 out1 where "parse_input E b s = Ret (r, s1)"
      "serve_client E rs b s1 = Ret (out1, buf', s')"
      using Cons.prems by (auto simp: Let_def obind_Ret_iff)
    then show ?thesis using parse_input_grown Cons.IH grown_trans by blast
  qed (use Cons.prems in simp)
qed simp

text \<open>
  C11: A session that is served to its end, whatever its requests are, leaves the layout of the disk as
  it was, extends the table of opened files at its end only and gives no stream back that it did
  not open; and when no request is a write, every byte of the disk is as it was. A session whose
  server faults has no end: that is how the creation of a file or a directory goes that is not
  refused, after it has changed the bitmap and written a node.
\<close>

theorem session_keeps_disk:
  assumes "serve_client E rs buf s = Ret (out, buf', s')"
  shows "same_layout s s' \<and> (\<exists>fs. opened_files s' = opened_files s @ fs) \<and> streams s \<le> streams s' \<and>
    ((\<forall>b \<in> set (session_buffers rs buf). \<not> is_write E b) \<longrightarrow> disk s' = disk s)"
  using serve_client_grown [OF assms] serve_client_kept [OF assms]
  by (auto simp: grown_def kept_def)

text \<open>A session of one request, and the end of the connection.\<close>

lemma root_asked:
  "parse_input demo_sac_env (sac_getattr_msg [slash] @ rest) s = Ret (c_text ''S_IFDIR'', s)"
proof -
  have m: "sac_getattr_msg [slash] = sac_send (join_by 32 [c_text ''getattr'', [slash]])"
    by (simp add: sac_getattr_msg_def c_text_def)
  have "\<forall>w \<in> set [c_text ''getattr'', [slash]]. word_ok w" by (simp add: word_ok_def c_text_def)
  from parse_words [OF this, of demo_sac_env rest s]
  show ?thesis
    by (simp add: m run_instruction_def run_getattr_def action_getattr_def c_text_def [of "_ # _"]
      del: join_by.simps)
qed

lemma root_request_reads: "\<not> is_write demo_sac_env (sac_getattr_msg [slash] @ rest)"
proof -
  have m: "sac_getattr_msg [slash] = c_text ''getattr /'' @ [0]"
    by (simp add: sac_getattr_msg_def sac_send_def c_text_def)
  have "c_strlen (c_text ''getattr /'' @ [0] @ rest) = Ret 9"
    using c_strlen_end [of "c_text ''getattr /''" rest] by (simp add: c_text_def)
  then show ?thesis
    by (simp add: m is_write_def c_text_def) code_simp
qed

theorem session_keeps_disk_witness:
  "\<exists>out buf' s'. serve_client demo_sac_env [Some (sac_getattr_msg [slash]), Some []]
      (replicate 3000 0) demo_sac = Ret (out, buf', s') \<and> out = c_text ''S_IFDIR'' @ [0] \<and>
    opened_files s' = [] \<and> disk s' = disk demo_sac"
proof -
  let ?rest = "drop (length (sac_getattr_msg [slash])) (replicate 3000 0)"
  let ?b = "sac_getattr_msg [slash] @ ?rest" and ?rs = "[Some (sac_getattr_msg [slash]), Some []]"
  have len: "length (sac_getattr_msg [slash]) = 10"
    by (simp add: sac_getattr_msg_def sac_send_def c_text_def)
  then have "sac_getattr_msg [slash] \<noteq> []" by auto
  then have "serve_client demo_sac_env ?rs (replicate 3000 0) demo_sac =
      Ret (c_text ''S_IFDIR'' @ [0], ?b, demo_sac)"
    using root_asked [of ?rest demo_sac] len by (simp add: Let_def del: drop_replicate)
  moreover have "\<forall>b \<in> set (session_buffers ?rs (replicate 3000 0)). \<not> is_write demo_sac_env b"
    using root_request_reads len \<open>sac_getattr_msg [slash] \<noteq> []\<close> by (simp add: Let_def del: drop_replicate)
  ultimately show ?thesis
    using session_keeps_disk [of demo_sac_env ?rs "replicate 3000 0" demo_sac] by fastforce
qed

end
