(* ===== verification/SacRun.thy ===== *)
theory SacRun
  imports SacSession
begin

text \<open>
  The file server as its clients see it: a session is the sequence of the actions the client asked
  for, the requests that do not fit the buffer, and the loop of \<open>run_server\<close> that takes one client
  after the other.
\<close>

section \<open>Requests of the client\<close>

text \<open>What FUSE asks the client for, with the parameters the client passes on.\<close>

datatype sac_request =
  Open "byte list" int
| Read "byte list" int int
| Write "byte list" "byte list" int int
| Opendir "byte list" int
| Getattr "byte list"
| Mknod "byte list"
| Mkdir "byte list"
| Readdir "byte list"

fun request_msg :: "sac_request \<Rightarrow> byte list outcome" where
  "request_msg (Open path flags) = sac_open_msg path flags"
| "request_msg (Read path size_p offset_p) = sac_read_msg path size_p offset_p"
| "request_msg (Write path text_p size_p offset_p) = sac_write_msg path (text_p @ [0]) size_p offset_p"
| "request_msg (Opendir path flags) = sac_opendir_msg path flags"
| "request_msg (Getattr path) = Ret (sac_getattr_msg path)"
| "request_msg (Mknod path) = Ret (sac_mknod_msg path)"
| "request_msg (Mkdir path) = Ret (sac_mkdir_msg path)"
| "request_msg (Readdir path) = Ret (sac_readdir_msg path)"

text \<open>The action the server is to run, its numbers in decimal.\<close>

fun perform :: "sac_env \<Rightarrow> sac_request \<Rightarrow> sac \<Rightarrow> (byte list \<times> sac) outcome" where
  "perform E (Open path flags) s = action_open E path s"
| "perform E (Read path size_p offset_p) s =
     action_read E path (c_text (dec_int size_p)) (c_text (dec_int offset_p)) s"
| "perform E (Write path text_p size_p offset_p) s =
     action_write E path text_p (c_text (dec_int size_p)) (c_text (dec_int offset_p)) s"
| "perform E (Opendir path flags) s = action_opendir E path s"
| "perform E (Getattr path) s = action_getattr E path s"
| "perform E (Mknod path) s = action_mknod E path s"
| "perform E (Mkdir path) s = action_mkdir E path s"
| "perform E (Readdir path) s = action_readdir E path s"

fun perform_all :: "sac_env \<Rightarrow> sac_request list \<Rightarrow> sac \<Rightarrow> (byte list \<times> sac) outcome" where
  "perform_all E [] s = Ret ([], s)"
| "perform_all E (r # rs) s =
     obind (perform E r s) (\<lambda>(response, s1).
     obind (perform_all E rs s1) (\<lambda>(out, s2). Ret (response @ 0 # out, s2)))"

text \<open>The words of a message, which blanks separate.\<close>

fun request_words :: "sac_request \<Rightarrow> byte list list" where
  "request_words (Open path flags) = [c_text ''open'', path, c_text (dec_int flags)]"
| "request_words (Read path size_p offset_p) =
     [c_text ''read'', path, c_text (dec_int size_p), c_text (dec_int offset_p)]"
| "request_words (Write path text_p size_p offset_p) =
     [c_text ''write'', path, text_p, c_text (dec_int size_p), c_text (dec_int offset_p)]"
| "request_words (Opendir path flags) = [c_text ''opendir'', path, c_text (dec_int flags)]"
| "request_words (Getattr path) = [c_text ''getattr'', path]"
| "request_words (Mknod path) = [c_text ''mknod'', path]"
| "request_words (Mkdir path) = [c_text ''mkdir'', path]"
| "request_words (Readdir path) = [c_text ''readdir'', path]"

fun request_numbers :: "sac_request \<Rightarrow> int list" where
  "request_numbers (Open path flags) = [flags]"
| "request_numbers (Read path size_p offset_p) = [size_p, offset_p]"
| "request_numbers (Write path text_p size_p offset_p) = [size_p, offset_p]"
| "request_numbers (Opendir path flags) = [flags]"
| "request_numbers _ = []"

text \<open>
  Requests whose words have no blank, line end, quotation mark or bar and whose numbers fit the texts
  of the client, and those among them whose message fits the buffer of the server.
\<close>

definition plain_request :: "sac_request \<Rightarrow> bool" where
  "plain_request r \<longleftrightarrow> (\<forall>w \<in> set (request_words r). word_ok w) \<and>
     (\<forall>i \<in> set (request_numbers r). 0 \<le> i \<and> i < 10 ^ 8)"

definition short_request :: "sac_request \<Rightarrow> bool" where
  "short_request r \<longleftrightarrow> length (join_by 32 (request_words r)) < 3000"

lemma plain_msg:
  assumes "plain_request r"
  shows "request_msg r = Ret (sac_send (join_by 32 (request_words r)))"
proof -
  have num: "sprint_int m i = Ret (c_text (dec_int i))"
    if "0 \<le> i" "i < 10 ^ 8" "9 \<le> m" for m i
    using that by (simp add: sprint_int_ok [of _ 7] dec_int_nonneg)
  have len: "c_strlen (w @ [0]) = Ret (length w)" if "word_ok w" for w
    using that by (intro c_strlen_end) (auto simp: word_ok_def)
  note defs = sac_send_def sac_open_msg_def sac_read_msg_def sac_write_msg_def sac_opendir_msg_def
    sac_getattr_msg_def sac_mknod_msg_def sac_mkdir_msg_def sac_readdir_msg_def
  show ?thesis
    using assms by (cases r) (simp_all add: plain_request_def defs num len c_text_def [of "_ # _"])
qed

lemma words_perform: "run_instruction E (request_words r) s = perform E r s"
  by (cases r) (simp_all add: run_instruction_def run_open_def run_read_def run_write_def
    run_opendir_def run_getattr_def run_mknod_def run_mkdir_def run_readdir_def
    c_text_def [of "_ # _"])

lemma plain_parsed:
  assumes "plain_request r" "string_split E = tokens"
  shows "parse_input E (sac_send (join_by 32 (request_words r)) @ rest) s = perform E r s"
proof -
  have "request_words r \<noteq> []" by (cases r) auto
  then show ?thesis
    using parse_words [of "request_words r" E rest s] assms by (simp add: plain_request_def words_perform)
qed

text \<open>
  Every message of the client is parsed as the operation it is for, with the same parameters,
  whatever the buffer of the server holds behind it.
\<close>

theorem requests_parsed:
  assumes "string_split E = tokens" "word_ok path" "word_ok buf" "0 \<le> a" "a < 10 ^ 8" "0 \<le> b" "b < 10 ^ 8"
  shows "\<exists>m1 m2 m3 m4. sac_open_msg path a = Ret m1 \<and> parse_input E (m1 @ rest) s = action_open E path s \<and>
    sac_read_msg path a b = Ret m2 \<and>
      parse_input E (m2 @ rest) s = action_read E path (c_text (dec_int a)) (c_text (dec_int b)) s \<and>
    sac_write_msg path (buf @ [0]) a b = Ret m3 \<and>
      parse_input E (m3 @ rest) s =
        action_write E path buf (c_text (dec_int a)) (c_text (dec_int b)) s \<and>
    sac_opendir_msg path a = Ret m4 \<and> parse_input E (m4 @ rest) s = action_opendir E path s \<and>
    parse_input E (sac_getattr_msg path @ rest) s = action_getattr E path s \<and>
    parse_input E (sac_mknod_msg path @ rest) s = action_mknod E path s \<and>
    parse_input E (sac_mkdir_msg path @ rest) s = action_mkdir E path s \<and>
    parse_input E (sac_readdir_msg path @ rest) s = action_readdir E path s"
proof -
  have plain: "plain_request (Open path a)" "plain_request (Read path a b)"
    "plain_request (Write path buf a b)" "plain_request (Opendir path a)"
    "plain_request (Getattr path)" "plain_request (Mknod path)" "plain_request (Mkdir path)"
    "plain_request (Readdir path)"
    using assms(2-7) word_ok_digits
    by (simp_all add: plain_request_def dec_int_nonneg word_ok_def [of "_ # _"]
      c_text_def [of "_ # _"])
  note msgs = plain [THEN plain_msg]
  note parsed = plain [THEN plain_parsed [OF _ assms(1), of _ rest s]]
  show ?thesis using msgs parsed by simp
qed

theorem requests_parsed_witness:
  "\<exists>m. sac_open_msg (c_text ''/b/x'') 2 = Ret m \<and>
    parse_input demo_sac_env (m @ [7, 7]) demo_sac = action_open demo_sac_env (c_text ''/b/x'') demo_sac"
  using requests_parsed [of demo_sac_env "c_text ''/b/x''" "c_text ''t''" 2 0 "[7, 7]" demo_sac]
  by (auto simp: word_ok_def c_text_def)

section \<open>Sessions\<close>

lemma full_buffer: "length m \<le> 3000 \<Longrightarrow> length buf = 3000 \<Longrightarrow> length (m @ drop (length m) buf) = 3000"
  by simp

text \<open>
  C10: A session with the file server is the sequence of the actions the client asks for: the messages
  of its requests, each read at once, make the server run these actions in this order on the disk and
  write back their responses, each with its end, whether they return or not. The requests are those the
  text of a message can carry: no path or text to write is empty or has a blank, an end of line, a
  quote, a bar or a zero byte in it, the numbers are from 0 to below \<open>10 ^ 8\<close>, and the message is
  shorter than the buffer of 3000 bytes; \<open>string_split\<close> is the splitting at blanks.
\<close>

theorem session_performs:
  assumes "string_split E = tokens" "\<forall>r \<in> set rs. plain_request r \<and> short_request r"
    "length buf = 3000"
  shows "\<exists>ms. list_all2 (\<lambda>r m. request_msg r = Ret m) rs ms \<and>
    obind (serve_client E (map Some ms @ [Some []]) buf s) (\<lambda>(out, buf', s'). Ret (out, s')) =
      perform_all E rs s"
proof -
  let ?m = "\<lambda>r. sac_send (join_by 32 (request_words r))"
  have "list_all2 (\<lambda>r m. request_msg r = Ret m) rs (map ?m rs)"
    using assms(2) by (induction rs) (auto simp: plain_msg)
  moreover have "obind (serve_client E (map Some (map ?m rs) @ [Some []]) buf s)
      (\<lambda>(out, buf', s'). Ret (out, s')) = perform_all E rs s"
    using assms(2,3)
  proof (induction rs arbitrary: buf s)
    case (Cons r rs)
    let ?b = "?m r @ drop (length (?m r)) buf"
    have len: "length (?m r) \<le> 3000" "?m r \<noteq> []"
      using Cons.prems(1) by (auto simp: short_request_def sac_send_def)
    have run: "parse_input E ?b s = perform E r s"
      using Cons.prems(1) assms(1) by (simp add: plain_parsed)
    have rest: "obind (serve_client E (map Some (map ?m rs) @ [Some []]) ?b s1)
        (\<lambda>(out, buf', s'). Ret (out, s')) = perform_all E rs s1" for s1
      using Cons.prems full_buffer [OF len(1)] by (intro Cons.IH) auto
    show ?case
      using len by (simp add: Let_def run rest [symmetric] obind_assoc case_prod_unfold)
  qed simp
  ultimately show ?thesis by blast
qed

text \<open>A session of two requests.\<close>

lemma plain_root: "plain_request (Getattr [slash])" "short_request (Getattr [slash])"
  "plain_request (Open [slash] 0)" "short_request (Open [slash] 0)"
proof -
  have "c_text (dec_int 0) = [48]" by code_simp
  then show "plain_request (Getattr [slash])" "short_request (Getattr [slash])"
    "plain_request (Open [slash] 0)" "short_request (Open [slash] 0)"
    by (simp_all add: plain_request_def short_request_def word_ok_def c_text_def [of "_ # _"])
qed

theorem session_performs_witness:
  "\<exists>ms. list_all2 (\<lambda>r m. request_msg r = Ret m) [Getattr [slash], Open [slash] 0] ms \<and>
    obind (serve_client demo_sac_env (map Some ms @ [Some []]) (replicate 3000 7) demo_sac)
      (\<lambda>(out, buf', s'). Ret (out, s')) =
    Ret (c_text ''S_IFDIR'' @ 0 # c_text ''EISDIR'' @ [0], demo_sac)"
proof -
  have "\<forall>r \<in> set [Getattr [slash], Open [slash] 0]. plain_request r \<and> short_request r"
    using plain_root by simp
  from session_performs [of demo_sac_env, OF _ this, of "replicate 3000 7" demo_sac]
  show ?thesis by (simp add: action_getattr_def action_open_def)
qed

section \<open>Requests that do not fit\<close>

lemma no_end: "0 \<notin> set bs \<Longrightarrow> c_strlen bs = Fault"
  by (induction bs) auto

text \<open>
  C35: A request of 3000 bytes or more, which a write of one FUSE page is, leaves no end of the text
  in the buffer of the server: \<open>parse_input\<close> reads beyond it.
\<close>

theorem long_request_overruns:
  assumes "plain_request r" "\<not> short_request r" "length buf = 3000"
  shows "\<exists>m. request_msg r = Ret m \<and> serve_client E (Some m # rs) buf s = Fault"
proof -
  let ?m = "join_by 32 (request_words r)"
  have len: "3000 \<le> length ?m" using assms(2) by (simp add: short_request_def)
  have "0 \<notin> set (take 3000 ?m)"
    using zero_join [of "request_words r"] assms(1) set_take_subset [of 3000 ?m]
    by (auto simp: plain_request_def)
  with len have "parse_input E (take 3000 (sac_send ?m)) s = Fault"
    by (simp add: parse_input_def sac_send_def no_end)
  then show ?thesis
    using plain_msg [OF assms(1)] assms(3) len by (auto simp: sac_send_def Let_def)
qed

theorem long_request_overruns_witness:
  "\<exists>m. request_msg (Write (c_text ''/b/x'') (replicate 4096 97) 4096 0) = Ret m \<and>
    serve_client demo_sac_env [Some m] (replicate 3000 0) demo_sac = Fault"
proof (rule long_request_overruns)
  have "dec_int 4096 = ''4096''" "dec_int 0 = ''0''" by code_simp+
  then show "plain_request (Write (c_text ''/b/x'') (replicate 4096 97) 4096 0)"
    by (simp add: plain_request_def word_ok_def c_text_def)
  show "\<not> short_request (Write (c_text ''/b/x'') (replicate 4096 97) 4096 0)"
    by (simp add: short_request_def)
qed simp

section \<open>One client after the other\<close>

text \<open>
  The outer loop of \<open>run_server\<close> on the connections it accepts: the reads of each client, or \<open>None\<close>
  where \<open>accept\<close> fails. The loop then goes on with the descriptor -1, of which every \<open>read\<close> is an
  error; the model looks at the first \<open>n\<close> of them. \<open>Ret\<close> is the state in which the loop waits for
  the next connection, with what it wrote to each. \<open>sac_main\<close> formats the disk first.
\<close>

fun serve_clients :: "sac_env \<Rightarrow> nat \<Rightarrow> byte list option list option list \<Rightarrow> mem \<Rightarrow> sac \<Rightarrow>
    (byte list list \<times> mem \<times> sac) outcome" where
  "serve_clients E n [] buf s = Ret ([], buf, s)"
| "serve_clients E n (c # cs) buf s =
     obind (serve_client E (case c of None \<Rightarrow> replicate n None | Some rs \<Rightarrow> rs) buf s) (\<lambda>(out, buf1, s1).
     obind (serve_clients E n cs buf1 s1) (\<lambda>(outs, buf2, s2). Ret (out # outs, buf2, s2)))"

definition sac_main :: "sac_env \<Rightarrow> nat \<Rightarrow> byte list option list option list \<Rightarrow> mem \<Rightarrow> sac \<Rightarrow>
    (byte list list \<times> mem \<times> sac) outcome" where
  "sac_main E n cs buf s = obind (format_disk E s) (serve_clients E n cs buf)"

text \<open>The request in the buffer, run again and again.\<close>

fun request_again :: "sac_env \<Rightarrow> nat \<Rightarrow> mem \<Rightarrow> sac \<Rightarrow> (byte list \<times> sac) outcome" where
  "request_again E 0 buf s = Ret ([], s)"
| "request_again E (Suc n) buf s =
     obind (parse_input E buf s) (\<lambda>(response, s1).
     obind (request_again E n buf s1) (\<lambda>(out, s2). Ret (response @ 0 # out, s2)))"

lemma errors_repeat:
  "serve_client E (replicate n None) buf s = obind (request_again E n buf s) (\<lambda>_. Hang)"
proof (induction n arbitrary: s)
  case (Suc n)
  then show ?case by (simp add: Let_def obind_assoc case_prod_unfold)
qed simp

text \<open>
  C40: When \<open>accept\<close> fails the server never takes another client: it runs the request that the client
  before left in the buffer, as often as one looks, until a run of it faults or hangs.
\<close>

theorem accept_error_repeats_request:
  "serve_clients E n (None # cs) buf s = obind (request_again E n buf s) (\<lambda>_. Hang) \<and>
   serve_clients E n (None # cs) buf s \<noteq> Ret r"
proof -
  have eq: "serve_clients E n (None # cs) buf s = obind (request_again E n buf s) (\<lambda>_. Hang)"
    by (simp add: errors_repeat obind_assoc)
  then show ?thesis by (cases "request_again E n buf s") simp_all
qed

lemma serve_clients_grown: "serve_clients E n cs buf s = Ret (outs, buf', s') \<Longrightarrow> grown s s'"
proof (induction cs arbitrary: buf s outs buf')
  case (Cons c cs)
  then obtain rs out buf1 s1 outs1 where "serve_client E rs buf s = Ret (out, buf1, s1)"
    "serve_clients E n cs buf1 s1 = Ret (outs1, buf', s')"
    by (auto simp: obind_Ret_iff)
  then show ?case using serve_client_grown Cons.IH grown_trans by blast
qed simp

text \<open>Formatting leaves the layout as \<open>disk_layout\<close> computes it, and so does all that follows.\<close>

lemma same_layout_trans: "same_layout s t \<Longrightarrow> same_layout t u \<Longrightarrow> same_layout s u"
  by (simp add: same_layout_def)

lemma fopen_layout: "fopen E s = Ret s' \<Longrightarrow> same_layout s s'"
  using fopen_kept by (auto simp: kept_def grown_def)

lemma format_bitmap_layout: "format_bitmap_nodetable E s = Ret s' \<Longrightarrow> same_layout s s'"
  by (auto simp: format_bitmap_nodetable_def obind_Ret_iff Let_def fclose_def same_layout_def
    dest!: fopen_layout split: if_splits)

lemma dump_layout: "dump_file_node E b s = Ret s' \<Longrightarrow> same_layout s s'"
  using fopen_layout by (auto simp: dump_file_node_def obind_Ret_iff)

lemma format_disk_layout:
  assumes "format_disk E s = Ret s'"
  shows "same_layout (disk_layout s) s'"
proof -
  obtain s2 where s2: "fopen E (disk_layout s) = Ret s2" using assms
    by (auto simp: format_disk_def obind_Ret_iff Let_def)
  have close: "same_layout s (fclose s)" "same_layout s (s\<lparr>disk := d\<rparr>)"
    "same_layout s (s\<lparr>times := k\<rparr>)" for s d k
    by (simp_all add: fclose_def same_layout_def)
  have occ: "set_block_as_occupied E b t = Ret u \<Longrightarrow> same_layout t u" for b t u
    using set_block_as_occupied_grown by (auto simp: grown_def)
  consider "s' = fclose s2"
    | s3 s4 s5 s6 s8 d where "format_bitmap_nodetable E (fclose s2) = Ret s3"
      "set_block_as_occupied E 0 s3 = Ret s4" "set_block_as_occupied E 1 s4 = Ret s5"
      "set_block_as_occupied E 2 s5 = Ret s6" "fopen E (s6\<lparr>times := times s6 + 2\<rparr>) = Ret s8"
      "dump_file_node E 2 (fclose (s8\<lparr>disk := d\<rparr>)) = Ret s'"
    using assms s2
    by (auto simp: format_disk_def obind_Ret_iff Let_def new_node_def split: if_splits)
  then show ?thesis
  proof cases
    case 1
    then show ?thesis using fopen_layout [OF s2] close(1) same_layout_trans by blast
  next
    case 2
    note steps = fopen_layout [OF s2] close(1) [of s2] format_bitmap_layout [OF 2(1)] occ [OF 2(2)]
      occ [OF 2(3)] occ [OF 2(4)] close(3) [of s6 "times s6 + 2"] fopen_layout [OF 2(5)]
      close(2) [of s8 d] close(1) [of "s8\<lparr>disk := d\<rparr>"] dump_layout [OF 2(6)]
    have "same_layout (disk_layout s) (fclose s2)" by (metis same_layout_trans steps(1,2))
    then have "same_layout (disk_layout s) s6" by (metis same_layout_trans steps(3-6))
    then have "same_layout (disk_layout s) (fclose (s8\<lparr>disk := d\<rparr>))"
      by (metis same_layout_trans steps(7-10))
    then show ?thesis by (metis same_layout_trans steps(11))
  qed
qed

lemma sac_main_layout:
  "sac_main E n cs buf s = Ret (outs, buf', s') \<Longrightarrow> same_layout (disk_layout s) s'"
  using format_disk_layout serve_clients_grown same_layout_trans
  by (fastforce simp: sac_main_def obind_Ret_iff grown_def)

end
