(* ===== verification/SacFiles.thy ===== *)
theory SacFiles
  imports SacReplies
begin

text \<open>
  The layout of the disk and the contents of files: where the parts of the disk are, blocks written
  and read back, and what a write request comes to.
\<close>

section \<open>The layout\<close>

lemma sdiv_nonneg: "0 \<le> a \<Longrightarrow> 0 < b \<Longrightarrow> a sdiv b = a div (b :: int)"
  by (cases "a = 0") (simp_all add: signed_divide_int_def)

text \<open>
  C37: The parts of a disk of \<open>n\<close> blocks. The table of nodes follows the bitmap and the data follows
  the table up to the last block. But the number of blocks of the bitmap is rounded down: with less
  than 32768 blocks it is 0 and the table of nodes starts on the block of the bitmap, and the bitmap
  fits in its blocks only if less than 8 blocks are left over.
\<close>

theorem layout_of_disk:
  assumes "length (disk s) = n * BLOCK_SIZE" "n < 2 ^ 19"
  shows "bitmap_start (disk_layout s) = 1 \<and>
    node_table_start (disk_layout s) = bitmap_end (disk_layout s) + 1 \<and>
    node_table_end (disk_layout s) - node_table_start (disk_layout s) = 1023 \<and>
    data_blocks_start (disk_layout s) = node_table_end (disk_layout s) + 1 \<and>
    data_blocks_end (disk_layout s) = int n - 1 \<and>
    (node_table_start (disk_layout s) = bitmap_start (disk_layout s) \<longleftrightarrow> n < 32768) \<and>
    (bitmap_size_bytes (disk_layout s) \<le>
      (bitmap_end (disk_layout s) - bitmap_start (disk_layout s) + 1) * int BLOCK_SIZE \<longleftrightarrow>
      n mod 32768 < 8)"
proof -
  have "n * BLOCK_SIZE < 2 ^ 31" using assms(2) by simp
  then have size: "sint (of_nat (length (disk s)) :: 32 word) = int n * 4096"
    unfolding assms(1) by (subst sint_of_nat32) simp_all
  have sdiv: "((int n * 4096) sdiv 4096) = int n" "int n sdiv 8 = int (n div 8)"
    "int (n div 8) sdiv 4096 = int (n div 32768)"
    by (simp_all add: sdiv_nonneg zdiv_int div_mult2_eq [symmetric] flip: of_nat_mult)
  have zero: "n div 32768 = 0 \<longleftrightarrow> n < 32768" by (simp add: div_eq_0_iff)
  define q r where "q = n div 32768" and "r = n mod 32768"
  have "n = r + 8 * (4096 * q)" by (simp add: q_def r_def)
  then have "n div 8 = 4096 * q + r div 8" by (simp only: div_mult_self2)
  then have fits: "n div 8 \<le> 4096 * (n div 32768) \<longleftrightarrow> n mod 32768 < 8"
    by (simp add: div_eq_0_iff flip: q_def r_def)
  then have "int (n div 8) \<le> int (n div 32768) * 4096 \<longleftrightarrow> n mod 32768 < 8"
    by (metis mult.commute of_nat_le_iff of_nat_mult of_nat_numeral)
  with zero show ?thesis by (simp add: disk_layout_def Let_def size sdiv)
qed

theorem layout_of_disk_witness:
  "node_table_start (disk_layout demo_sac) = 2 \<and> data_blocks_end (disk_layout demo_sac) = 32767"
proof -
  have "length (disk demo_sac) = 32768 * BLOCK_SIZE" by (simp add: length_demo_disk)
  from layout_of_disk [OF this] show ?thesis by (simp add: disk_layout_def Let_def length_demo_disk)
qed

section \<open>Blocks\<close>

text \<open>
  C23: What \<open>write_block\<close> puts in a block \<open>read_block\<close> gives back: the text is at the start of what it
  reads from the same offset, and the rest of the disk is unchanged.
\<close>

theorem written_block_is_read:
  assumes "streams s < max_streams E" "(b + 1) * BLOCK_SIZE \<le> length (disk s)"
    "length (disk s) < 2 ^ 31" "0 \<notin> set str" "off + length str \<le> BLOCK_SIZE"
  shows "\<exists>s' m. write_block E (int b) (int off) (str @ [0]) s = Ret s' \<and>
    read_block E (int b) (int off) s' = Ret m \<and> take (length str) m = str \<and>
    length (disk s') = length (disk s) \<and>
    (\<forall>i < length (disk s). i < b * BLOCK_SIZE + off \<or> b * BLOCK_SIZE + off + length str \<le> i \<longrightarrow>
      disk s' ! i = disk s ! i)"
proof -
  let ?pos = "b * BLOCK_SIZE + off" and ?n = "BLOCK_SIZE - off"
  have int: "in_int (4096 * int b)" "4096 * int b + int off = int ?pos" "?pos < 2 ^ 31"
    using assms(2,3,5) by (simp_all add: in_int_def)
  then have seek: "seek_to 0 (4096 * int b + int off) = Ret ?pos"
    by (simp only: int(2)) (simp add: seek_to_def in_int_def)
  have inside: "?pos + ?n \<le> length (disk s)" "?pos + length str \<le> length (disk s)"
    using assms(2,5) by simp_all
  define s' where "s' = s\<lparr>disk := fwrite (disk s) ?pos str\<rparr>"
  have "write_block E (int b) (int off) (str @ [0]) s = Ret s'"
    using assms(1) int(1) seek c_strlen_end [OF assms(4), of "[]"]
    by (simp add: write_block_def fopen_def fclose_def s'_def)
  moreover have len: "length (disk s') = length (disk s)"
    using inside(2) by (simp add: s'_def)
  have "fread (disk s') ?pos ?n = str @ drop (length str) (fread (disk s') ?pos ?n)"
  proof -
    have "take (length str) (fread (disk s') ?pos ?n) = fread (disk s') ?pos (length str)"
      using assms(5) by (simp add: fread_def min_def)
    also have "\<dots> = str" by (simp add: s'_def fread_fwrite_same)
    finally show ?thesis by (metis append_take_drop_id)
  qed
  then obtain rest where rest: "fread (disk s') ?pos ?n = str @ rest" by blast
  have "read_block E (int b) (int off) s' =
      Ret (fill (indet E) (?n + 1) (fread (disk s') ?pos ?n))"
  proof -
    have "nat (4096 - int off) = ?n" using assms(5) by simp
    then show ?thesis
      using assms(1,5) int(1) seek by (simp add: read_block_def fopen_def s'_def Let_def)
  qed
  moreover have "take (length str) (fill (indet E) (?n + 1) (fread (disk s') ?pos ?n)) = str"
    by (simp add: rest fill_def)
  moreover have "disk s' ! i = disk s ! i"
    if "i < length (disk s)" "i < ?pos \<or> ?pos + length str \<le> i" for i
    using that inside(2) by (auto simp: s'_def nth_fwrite)
  ultimately show ?thesis using len by blast
qed

theorem written_block_is_read_witness:
  "\<exists>s' m. write_block demo_sac_env 1026 5 ([104, 105] @ [0]) demo_sac = Ret s' \<and>
    read_block demo_sac_env 1026 5 s' = Ret m \<and> take (length [104, 105 :: byte]) m = [104, 105]"
proof -
  have "(1026 + 1) * BLOCK_SIZE \<le> length (disk demo_sac)" "length (disk demo_sac) < 2 ^ 31"
    "0 \<notin> set [104, 105 :: byte]" "5 + length [104, 105 :: byte] \<le> BLOCK_SIZE"
    by (simp_all add: length_demo_disk)
  from written_block_is_read [OF _ this, of demo_sac_env]
  show ?thesis by (metis demo_sac_env_sel(2) demo_sac_sel(8) of_nat_numeral zero_less_numeral)
qed

section \<open>Write requests\<close>

lemma skip_blocks_mod:
  "0 \<le> ofs \<Longrightarrow> skip_blocks (int BLOCK_SIZE - 1) i ofs = (i + nat (ofs div 4096), ofs mod 4096)"
proof (induction "int BLOCK_SIZE - 1" i ofs rule: skip_blocks.induct)
  case (1 i ofs)
  show ?case
  proof (cases "ofs < 4096")
    case True
    then show ?thesis using 1(2) by (subst skip_blocks.simps) simp
  next
    case False
    then have "skip_blocks (int BLOCK_SIZE - 1) (Suc i) (ofs - 4096) =
        (Suc i + nat ((ofs - 4096) div 4096), (ofs - 4096) mod 4096)"
      using 1 by simp
    moreover have "(ofs - 4096) div 4096 = ofs div 4096 - 1" "(ofs - 4096) mod 4096 = ofs mod 4096"
      using div_add_self2 [of 4096 "ofs - 4096"] mod_add_self2 [of "ofs - 4096" 4096] by simp_all
    moreover have "1 \<le> ofs div 4096" using False by simp
    ultimately show ?thesis
      using False by (subst skip_blocks.simps) (simp add: nat_diff_distrib)
  qed
qed

lemma short_write_text:
  assumes "0 < z" "z < 4096 - ofs"
  shows "write_text E g p ofs buf z s \<noteq> Ret r"
proof -
  have "write_loop E g p ofs buf a (z - (4096 - ofs)) t = Fault" for a t
    using assms by (subst write_loop.simps) simp
  with assms(1) show ?thesis by (auto simp: write_text_def Let_def obind_Ret_iff)
qed

text \<open>
  C28: A short write never ends well: when the bytes to write do not reach the end of their block, the
  first pass of the loop counts a whole block as written, the size that is left is negative, and the
  next pass allocates and copies a negative number of bytes.
\<close>

theorem short_write_faults:
  assumes "opened_node E path s = Ret (Inr (int n), s1)" "table_ok (disk s1)" "2 \<le> n" "n \<le> 1025"
    "atoi (offset_s @ [0]) = Ret ofs" "atoi (size_s @ [0]) = Ret z"
    "0 \<le> ofs" "ofs \<le> uint (filesize (node_at (disk s1) n))" "0 < z" "z < 4096 - ofs mod 4096"
  shows "action_write E path buf size_s offset_s s \<noteq> Ret r"
proof
  let ?g = "node_at (disk s1) n"
  assume "action_write E path buf size_s offset_s s = Ret r"
  then obtain s2 where "fopen E s1 = Ret s2"
    and "write_file E (read_node E (disk s2) (n * BLOCK_SIZE)) (n * BLOCK_SIZE) buf z ofs (fclose s2) = Ret r"
    using assms(1,5,6) seek_block [OF assms(4), of 0] by (auto simp: action_write_def Let_def obind_Ret_iff)
  moreover from this(1) have "disk s2 = disk s1" by (auto simp: fopen_def split: if_splits)
  ultimately have wr: "write_file E ?g (n * BLOCK_SIZE) buf z ofs (fclose s2) = Ret r"
    using read_table_node [OF assms(2-4), of E] by simp
  have "ofs < 2 ^ 32" using assms(8) uint_lt2p [of "filesize ?g"] by simp
  then have "uint (of_int ofs :: 32 word) = ofs"
    using assms(7) by (simp add: unsigned_of_int take_bit_int_eq_self)
  then have "\<not> of_int ofs > filesize ?g" using assms(8) by (simp add: word_less_def)
  then show False
    using wr skip_blocks_mod [OF assms(7), of 0] short_write_text [OF assms(9,10)]
    by (auto simp: write_file_def Let_def obind_Ret_iff split: if_splits)
qed

definition demo_opened :: sac where
  "demo_opened = demo_sac\<lparr>opened_files := [demo_file\<lparr>fd := 1\<rparr>]\<rparr>"

lemma demo_opened_node:
  "opened_node demo_sac_env (c_text ''/b/x'') demo_opened =
    Ret (Inr 6, demo_opened\<lparr>streams := Suc 0\<rparr>)"
proof -
  have d: "disk demo_opened = disk demo_sac" "streams demo_opened = 0" "node_table_start demo_opened = 2"
    by (simp_all add: demo_opened_def)
  then have "check_node_state demo_sac_env 6 demo_opened = Ret (1, demo_opened\<lparr>streams := Suc 0\<rparr>)"
    using demo_state [of 6 demo_opened] by (simp add: node_at_demo demo_nodes_nth)
  then show ?thesis
    using demo_search [of demo_opened] d
    by (simp add: opened_node_def is_file_opened_def) (simp add: demo_opened_def demo_file_def c_text_def)
qed

theorem short_write_faults_witness:
  "\<forall>r. action_write demo_sac_env (c_text ''/b/x'') [104, 105] [50] [48] demo_opened \<noteq> Ret r"
proof (rule allI, rule short_write_faults)
  let ?s = "demo_opened\<lparr>streams := Suc 0\<rparr>"
  show "opened_node demo_sac_env (c_text ''/b/x'') demo_opened = Ret (Inr (int 6), ?s)"
    using demo_opened_node by simp
  show "table_ok (disk ?s)" using demo_table by (simp add: demo_opened_def)
  show "atoi ([48] @ [0]) = Ret 0" "atoi ([50] @ [0]) = Ret 2"
    by (simp_all add: is_space_def is_digit_def in_int_def)
  show "(0 :: int) \<le> uint (filesize (node_at (disk ?s) 6))" by simp
qed simp_all

end
