(* ===== verification/SacRead.thy ===== *)
theory SacRead
  imports SacRun SacFiles
begin

text \<open>
  Reading files: which blocks \<open>action_read\<close> of \<^verbatim>\<open>fileSystem/sac/sac_servidor/sac_servidor.c\<close> gets to
  see, and what it answers, whatever the memory holds that the server has not written.
\<close>

section \<open>The block numbers that are copied\<close>

text \<open>
  The local array of block numbers when the first block of the file is \<open>w\<close>: the bytes of \<open>w\<close> up to its
  first zero byte, and unwritten memory after them.
\<close>

definition seen_blocks :: "(nat \<Rightarrow> byte) \<Rightarrow> 32 word \<Rightarrow> 32 word list" where
  "seen_blocks mem w = of_le32s 1000 (fill mem 4000 (cstr (le32 w)))"

lemma top_byte_zero:
  assumes "uint (w :: 32 word) < 2 ^ 24"
  shows "0 \<in> set (le32 w)"
proof -
  have "uint w < 16777216" using assms by simp
  then have "unat w < 16777216" by (simp only: uint_nat of_nat_less_numeral_iff)
  then have "drop_bit 24 w = 0" by (simp add: drop_bit_eq_div word_arith_nat_div)
  then show ?thesis by (simp add: le32_def)
qed

lemma cstr_append: "0 \<in> set bs \<Longrightarrow> cstr (bs @ rest) = cstr bs"
  by (simp add: cstr_def takeWhile_append1)

lemma cstr_take: "take (length (cstr bs)) (bs @ rest) = cstr bs"
  by (induction bs) (auto simp: cstr_def)

text \<open>The numbers of the other blocks are never copied.\<close>

lemma copied_blocks:
  assumes "blocks g = w # ws" "uint w < 2 ^ 24"
  shows "copy_blocks E g = Ret (seen_blocks (indet E) w)"
proof -
  have z: "0 \<in> set (le32 w)" by (rule top_byte_zero [OF assms(2)])
  have "c_strlen (le32 w @ concat (map le32 ws)) = Ret (length (cstr (le32 w)))"
    using z c_strlen_cstr [of "le32 w @ concat (map le32 ws)"] by (simp add: cstr_append)
  then show ?thesis by (simp add: copy_blocks_def assms(1) seen_blocks_def cstr_take del: take_append)
qed

lemma of_le32s_two: "of_le32s 1000 bs = of_le32 bs # of_le32 (drop 4 bs) # of_le32s 998 (drop 8 bs)"
proof -
  have "of_le32s (Suc (Suc 998)) bs = of_le32 bs # of_le32 (drop 4 bs) # of_le32s 998 (drop 8 bs)"
    by (simp only: of_le32s.simps drop_drop) simp
  moreover have "Suc (Suc 998) = (1000 :: nat)" by simp
  ultimately show ?thesis by simp
qed

lemma le32_two_bytes:
  assumes "uint w < 65536"
  shows "le32 w = [ucast w, ucast (drop_bit 8 w), 0, 0]"
proof -
  have "unat w < 65536" using assms by (simp only: uint_nat of_nat_less_numeral_iff)
  then have "drop_bit 16 w = 0" "drop_bit 24 w = 0"
    by (simp_all add: drop_bit_eq_div word_arith_nat_div)
  then show ?thesis by (simp add: le32_def)
qed

text \<open>
  With zeros behind, a number of at most two bytes arrives, unless its low byte is zero, and it is
  the only one.
\<close>

lemma seen_zero:
  assumes "\<forall>j < 8. mem j = 0" "uint w < 65536"
  shows "seen_blocks mem w ! 0 = (if (ucast w :: byte) = 0 then 0 else w) \<and> seen_blocks mem w ! 1 = 0"
proof -
  let ?lo = "ucast w :: byte" and ?hi = "ucast (drop_bit 8 w) :: byte" and ?k = "length (cstr (le32 w))"
  have le: "le32 w = [?lo, ?hi, 0, 0]" by (rule le32_two_bytes [OF assms(2)])
  then have k: "?k \<le> 2" by (simp add: cstr_def)
  have "map mem [?k..<4000] = map mem [?k..<8] @ map mem [8..<4000]"
    using k upt_add_eq_append [of ?k 8 3992] by simp
  moreover have "map mem [?k..<8] = replicate (8 - ?k) 0"
    using assms(1) by (intro replicate_eqI) auto
  ultimately have "fill mem 4000 (cstr (le32 w)) =
      cstr (le32 w) @ replicate (8 - ?k) 0 @ map mem [8..<4000]"
    by (simp add: fill_def)
  then obtain rest where m: "fill mem 4000 (cstr (le32 w)) = cstr (le32 w) @ replicate (8 - ?k) 0 @ rest"
    by blast
  have zero: "le32 0 = [0, 0, 0, 0]" by (simp add: le32_def)
  have "cstr (le32 w) @ replicate (8 - ?k) 0 = le32 (if ?lo = 0 then 0 else w) @ le32 0"
    by (simp add: le zero cstr_def numeral_eq_Suc)
  with m have "\<exists>rest. fill mem 4000 (cstr (le32 w)) = le32 (if ?lo = 0 then 0 else w) @ le32 0 @ rest"
    by (metis append.assoc)
  then obtain rest where "fill mem 4000 (cstr (le32 w)) = le32 (if ?lo = 0 then 0 else w) @ le32 0 @ rest"
    by blast
  then show ?thesis by (simp add: seen_blocks_def of_le32s_two)
qed

section \<open>What is read\<close>

lemma read_block_at:
  assumes "streams s < max_streams E" "0 \<le> off" "off \<le> 4096" "uint (b :: 32 word) < 2 ^ 19 - 1"
  shows "read_block E (sint b) off s = Ret (fill (indet E) (nat (4096 - off) + 1)
    (fread (disk s) (unat b * BLOCK_SIZE + nat off) (BLOCK_SIZE - nat off)))"
proof -
  have "uint b < 524287" using assms(4) by simp
  then have u: "unat b < 524287" by (simp only: uint_nat of_nat_less_numeral_iff)
  then have s: "sint b = uint b" using sint_of_nat32 [of "unat b"] by simp
  have pos: "4096 * uint b + off = int (unat b * BLOCK_SIZE + nat off)"
    "nat (4096 - off) = BLOCK_SIZE - nat off" using assms(2,3) by simp_all
  have small: "unat b * BLOCK_SIZE + nat off < 2 ^ 31" using u assms(3) by simp
  have "seek_to 0 (int k) = Ret k" if "k < 2 ^ 31" for k
    using that seek_to_Ret [of "int k" 0] by simp
  from this [OF small] have "seek_to 0 (4096 * uint b + off) = Ret (unat b * BLOCK_SIZE + nat off)"
    by (simp only: pos(1))
  moreover have "- 524288 \<le> uint b" by (rule order_trans [of _ 0]) simp_all
  ultimately show ?thesis
    using assms by (simp add: read_block_def Let_def in_int_def fopen_def s pos(2))
qed

text \<open>
  C29: A file is read by its first block alone. The array of block numbers that \<open>action_read\<close> goes
  through has the bytes of the first number up to their first zero, and memory the server has not
  written after them: the numbers of the other blocks of the file do not count. When the second
  number in it comes out as zero, the answer is the text from the offset on in the one block seen, up
  to its first zero, if that fits the size asked for, and the buffer of the server is overrun if it
  does not fit; a first number that comes out as zero is answered as an empty file. With zeros in
  the unwritten memory that is so, and a number below 65536 comes out as it is, except the
  multiples of 256, which come out as zero. Conditions: the request is one that is not refused, with a
  first block below \<open>2 ^ 24\<close>; for the text an offset of at most one block and a position within
  \<open>2 ^ 31\<close> bytes.
\<close>

theorem read_sees_first_block:
  assumes opened: "opened_node E path s = Ret (Inr (int n), s1)"
    and node: "g = read_node E (disk s1) (n * BLOCK_SIZE)" "blocks g = w # ws" "uint w < 2 ^ 24"
    and mem: "streams s1 + 1 < max_streams E" "int n * 4096 < 2 ^ 31"
    and nums: "atoi (offset_s @ [0]) = Ret off" "atoi (size_s @ [0]) = Ret sz" "0 \<le> off"
      "0 \<le> sz" "off + sz \<le> uint (filesize g)" "off + sz < 2 ^ 31"
    and seen: "bs = seen_blocks (indet E) w" and s2: "s2 = s1\<lparr>streams := Suc (streams s1)\<rparr>"
  shows "action_read E path size_s offset_s s =
      (if bs ! 0 = 0 then Ret (c_text ''emptyfile'', s2)
       else let (i, off') = skip_blocks (int BLOCK_SIZE) 0 off in
         obind (read_loop E (nat sz + 1) (drop i bs) off' [] s2) (\<lambda>buff. Ret (buff, s2))) \<and>
    (bs ! 1 = 0 \<longrightarrow> off \<le> 4096 \<longrightarrow> uint (bs ! 0) < 2 ^ 19 - 1 \<longrightarrow>
      action_read E path size_s offset_s s =
      (let t = fill (indet E) (nat (4096 - off) + 1)
         (fread (disk s1) (unat (bs ! 0) * BLOCK_SIZE + nat off) (BLOCK_SIZE - nat off)) in
       if bs ! 0 = 0 then Ret (c_text ''emptyfile'', s2)
       else obind (c_strlen t) (\<lambda>k. if int k \<le> sz then Ret (take k t, s2) else Fault))) \<and>
    ((\<forall>j < 8. indet E j = 0) \<longrightarrow> uint w < 65536 \<longrightarrow>
      bs ! 0 = (if (ucast w :: byte) = 0 then 0 else w) \<and> bs ! 1 = 0)"
proof (intro conjI impI)
  show one: "action_read E path size_s offset_s s =
      (if bs ! 0 = 0 then Ret (c_text ''emptyfile'', s2)
       else let (i, off') = skip_blocks (int BLOCK_SIZE) 0 off in
         obind (read_loop E (nat sz + 1) (drop i bs) off' [] s2) (\<lambda>buff. Ret (buff, s2)))"
  proof -
    have fopen: "fopen E s1 = Ret s2" using mem(1) by (simp add: fopen_def s2)
    have seek: "seek_to 0 (int n * 4096) = Ret (n * BLOCK_SIZE)"
      using mem(2) seek_to_Ret [of "int n * 4096" 0] by (simp add: nat_mult_distrib)
    have d: "disk s2 = disk s1" by (simp add: s2)
    have "uint (of_int (off + sz) :: 32 word) = off + sz"
      using nums(3,4,6) by (simp add: uint_word_of_int_eq take_bit_eq_mod del: of_int_add)
    then have fits: "in_int (off + sz)" "\<not> of_int (off + sz) > filesize g"
      using nums(3-6) by (simp_all add: in_int_def word_less_def del: of_int_add)
    note copied = copied_blocks [OF node(2,3), of E, folded seen]
    show ?thesis
      using fits nums(4)
      by (simp add: action_read_def opened fopen seek d node(1) [symmetric] copied nums(1,2)
        del: of_int_add)
  qed
  assume b1: "bs ! 1 = 0" and off: "off \<le> 4096" and small: "uint (bs ! 0) < 2 ^ 19 - 1"
  obtain b tl where bs: "bs = b # 0 # tl" using b1 by (simp add: seen seen_blocks_def of_le32s_two)
  define t where "t = fill (indet E) (nat (4096 - off) + 1)
      (fread (disk s1) (unat (bs ! 0) * BLOCK_SIZE + nat off) (BLOCK_SIZE - nat off))"
  have block: "read_block E (sint b) off s2 = Ret t"
    using read_block_at [of s2 E off b] mem(1) nums(3) off small by (simp add: s2 bs t_def)
  have skip: "skip_blocks (int BLOCK_SIZE) 0 off = (0, off)"
    using off by (simp add: skip_blocks.simps)
  have loop: "obind (read_loop E (nat sz + 1) bs off [] s2) (\<lambda>buff. Ret (buff, s2)) =
      obind (c_strlen t) (\<lambda>k. if int k \<le> sz then Ret (take k t, s2) else Fault)" if "b \<noteq> 0"
    using that nums(4) by (cases "c_strlen t") (auto simp: bs block nat_less_iff)
  have "action_read E path size_s offset_s s = (if b = 0 then Ret (c_text ''emptyfile'', s2)
      else obind (read_loop E (nat sz + 1) bs off [] s2) (\<lambda>buff. Ret (buff, s2)))"
    using one by (simp only: skip) (simp add: bs)
  then show "action_read E path size_s offset_s s =
      (let t = fill (indet E) (nat (4096 - off) + 1)
         (fread (disk s1) (unat (bs ! 0) * BLOCK_SIZE + nat off) (BLOCK_SIZE - nat off)) in
       if bs ! 0 = 0 then Ret (c_text ''emptyfile'', s2)
       else obind (c_strlen t) (\<lambda>k. if int k \<le> sz then Ret (take k t, s2) else Fault))"
    unfolding t_def [symmetric] Let_def using loop by (simp add: bs)
next
  assume "\<forall>j < 8. indet E j = 0" "uint w < 65536"
  from seen_zero [OF this] show "bs ! 0 = (if (ucast w :: byte) = 0 then 0 else w)" "bs ! 1 = 0"
    unfolding seen by blast+
qed

text \<open>A file of 5000 bytes whose first block is empty: nothing of it is read.\<close>

lemma demo_block: "fread (disk demo_sac) (1026 * BLOCK_SIZE) BLOCK_SIZE = 0 # replicate 4095 0"
proof -
  have "drop (1026 * BLOCK_SIZE) (disk demo_sac) = replicate (31742 * BLOCK_SIZE) 0"
    using demo_nodes_ok by (simp add: demo_sac_def disk_of_def length_concat_nodes demo_bitmap_def)
  then have "fread (disk demo_sac) (1026 * BLOCK_SIZE) BLOCK_SIZE = replicate 4096 0"
    by (simp only: fread_def take_replicate) simp
  moreover have "replicate 4096 z = z # replicate 4095 z" for z :: byte
    using replicate_Suc [of 4095 z] by simp
  ultimately show ?thesis by simp
qed

theorem read_sees_first_block_witness:
  "action_read demo_sac_env (c_text ''/b/x'') (c_text ''4999'') (c_text ''0'') demo_opened =
    Ret ([], demo_opened\<lparr>streams := Suc (Suc 0)\<rparr>)"
proof -
  let ?s = "demo_opened\<lparr>streams := Suc 0\<rparr>" and ?bs = "seen_blocks (indet demo_sac_env) 1026"
  let ?t = "fill (indet demo_sac_env) (nat (4096 - 0) + 1)
    (fread (disk demo_sac) (unat (?bs ! 0) * BLOCK_SIZE + nat 0) (BLOCK_SIZE - nat 0))"
  have d: "disk ?s = disk demo_sac" by (simp add: demo_opened_def)
  have g: "read_node demo_sac_env (disk demo_sac) (6 * BLOCK_SIZE) = mk_node 1 ''x'' 4 5000 [1026]"
    using read_node_at [of 6 "disk demo_sac" demo_sac_env] length_demo_disk
    by (simp add: d node_at_demo demo_nodes_nth)
  have num: "atoi (c_text ''0'' @ [0]) = Ret 0" "atoi (c_text ''4999'' @ [0]) = Ret 4999"
    by code_simp+
  have "opened_node demo_sac_env (c_text ''/b/x'') demo_opened = Ret (Inr (int 6), ?s)"
    using demo_opened_node by simp
  note r = read_sees_first_block [OF this refl _ _ _ _ num _ _ _ _ refl refl, of 1026 "replicate 999 0",
    unfolded d g]
  have all: "blocks (mk_node 1 ''x'' 4 5000 [1026]) = 1026 # replicate 999 0"
    "uint (1026 :: 32 word) < 2 ^ 24" "streams ?s + 1 < max_streams demo_sac_env"
    "int 6 * 4096 < 2 ^ 31" "(0 :: int) \<le> 0" "(0 :: int) \<le> 4999"
    "0 + 4999 \<le> uint (filesize (mk_node 1 ''x'' 4 5000 [1026]))" "0 + 4999 < (2 :: int) ^ 31"
    by (simp_all add: demo_opened_def)
  note r = r [OF all]
  have bs: "?bs ! 0 = 1026" "?bs ! 1 = 0"
    using r [THEN conjunct2, THEN conjunct2] by simp_all
  have "uint (?bs ! 0) < 2 ^ 19 - 1" unfolding bs by simp
  moreover have "(0 :: int) \<le> 4096" "?bs ! 0 \<noteq> 0" unfolding bs by simp_all
  ultimately have "action_read demo_sac_env (c_text ''/b/x'') (c_text ''4999'') (c_text ''0'') demo_opened =
      obind (c_strlen ?t) (\<lambda>k. if int k \<le> 4999 then Ret (take k ?t, ?s\<lparr>streams := Suc (streams ?s)\<rparr>) else Fault)"
    using r [THEN conjunct2, THEN conjunct1, THEN mp, OF bs(2)] by (simp only: Let_def if_False simp_thms)
  moreover have "unat (1026 :: 32 word) * BLOCK_SIZE + nat 0 = 1026 * BLOCK_SIZE"
    "BLOCK_SIZE - nat 0 = BLOCK_SIZE" by simp_all
  then have "fread (disk demo_sac) (unat (?bs ! 0) * BLOCK_SIZE + nat 0) (BLOCK_SIZE - nat 0) =
      0 # replicate 4095 0"
    by (simp only: bs demo_block)
  then have "c_strlen ?t = Ret 0" by (simp add: fill_def)
  ultimately show ?thesis by simp
qed

end
