(* ===== verification/Muse.thy ===== *)
theory Muse
  imports Prelude "HOL-Library.Signed_Division"
begin

text \<open>
  The memory manager MUSE (\<^verbatim>\<open>memoria/muse/segments.c\<close>): the table of frames, the modified clock,
  segments and their pages.

  A list is its contents; the objects of these lists are reached through one list only, so that they
  are values. \<open>list_get\<close> outside a list gives the null pointer, and using it is a fault.
\<close>

section \<open>State\<close>

record frame_t =
  isFree :: bool
  modif :: int
  used :: int

record page_t =
  bitPresencia :: int
  nFrame :: int
  nSwap :: int

record heapList =
  dir :: int
  heap_size :: int
  heap_isFree :: bool

record segment_t =
  nSegment :: int
  pagsLib :: int
  bLogica :: "32 word"
  tam :: "32 word"
  tablaPaginas :: "page_t list"
  metadatas :: "heapList list"

record muse =
  cant_frames :: int
  tamanio_mem :: int
  tamanio_pagina :: int
  bitmapFrames :: "frame_t list"
  clockPointer :: int
  segment_table :: "string \<Rightarrow> segment_t list option"

text \<open>The conversion of so-commons, what the field \<open>tam\<close> of a fresh segment holds, \<open>sizeof (char *)\<close>.\<close>

record muse_env =
  muse_itoa :: "int \<Rightarrow> string"
  uninit_tam :: "32 word"
  pointer_size :: nat

definition list_at :: "'a list \<Rightarrow> int \<Rightarrow> 'a outcome" where
  "list_at xs i = (if 0 \<le> i \<and> i < int (length xs) then Ret (xs ! nat i) else Fault)"

section \<open>Frames\<close>

definition createTableSegment :: "muse_env \<Rightarrow> int \<Rightarrow> muse \<Rightarrow> muse" where
  "createTableSegment E idCli s =
     (let strIdCli = muse_itoa E idCli in
      if segment_table s strIdCli = None
      then s\<lparr>segment_table := (segment_table s)(strIdCli \<mapsto> [])\<rparr> else s)"

definition createBitmapFrames :: "muse \<Rightarrow> muse" where
  "createBitmapFrames s =
     s\<lparr>bitmapFrames := replicate (nat (cant_frames s)) \<lparr>isFree = True, modif = 0, used = 0\<rparr>\<rparr>"

definition isFrameFree :: "int \<Rightarrow> muse \<Rightarrow> bool outcome" where
  "isFrameFree n s = obind (list_at (bitmapFrames s) n) (\<lambda>frame. Ret (isFree frame))"

definition set_frame :: "int \<Rightarrow> frame_t \<Rightarrow> muse \<Rightarrow> muse" where
  "set_frame n frame s = s\<lparr>bitmapFrames := (bitmapFrames s)[nat n := frame]\<rparr>"

definition fillFrame :: "int \<Rightarrow> muse \<Rightarrow> muse outcome" where
  "fillFrame frame s =
     obind (list_at (bitmapFrames s) frame) (\<lambda>provFrame.
       Ret (set_frame frame (provFrame\<lparr>used := 1, isFree := False\<rparr>) s))"

definition freeFrame :: "int \<Rightarrow> muse \<Rightarrow> muse outcome" where
  "freeFrame frame s =
     obind (list_at (bitmapFrames s) frame) (\<lambda>provFrame.
       Ret (set_frame frame (provFrame\<lparr>used := 0, isFree := True\<rparr>) s))"

fun free_from :: "frame_t list \<Rightarrow> int list \<Rightarrow> int outcome" where
  "free_from frames [] = Ret (- 1)"
| "free_from frames (i # rest) =
     obind (list_at frames i) (\<lambda>frame. if isFree frame then Ret i else free_from frames rest)"

definition searchFreeFrame :: "muse \<Rightarrow> int outcome" where
  "searchFreeFrame s = free_from (bitmapFrames s) [0..cant_frames s - 1]"

definition anyFreeFrame :: "muse \<Rightarrow> bool outcome" where
  "anyFreeFrame s = obind (searchFreeFrame s) (\<lambda>free. Ret (free \<noteq> - 1))"

text \<open>The offset from the start of the memory.\<close>

definition framePos :: "int \<Rightarrow> muse \<Rightarrow> int outcome" where
  "framePos frame s =
     (if in_int (tamanio_pagina s * frame) then Ret (tamanio_pagina s * frame) else Fault)"

section \<open>The modified clock\<close>

definition increaseClockPointer :: "muse \<Rightarrow> muse" where
  "increaseClockPointer s =
     (if clockPointer s < cant_frames s - 1 then s\<lparr>clockPointer := clockPointer s + 1\<rparr>
      else s\<lparr>clockPointer := 0\<rparr>)"

text \<open>
  One of its loops: \<open>n\<close> passes are left, the wanted value of \<open>modif\<close> and whether the frames that are
  passed lose the bit \<open>used\<close>.
\<close>

fun clock_scan :: "int \<Rightarrow> bool \<Rightarrow> nat \<Rightarrow> muse \<Rightarrow> (int option \<times> muse) outcome" where
  "clock_scan m clear 0 s = Ret (None, s)"
| "clock_scan m clear (Suc n) s =
     obind (list_at (bitmapFrames s) (clockPointer s)) (\<lambda>frame.
       if used frame = 0 \<and> modif frame = m
       then Ret (Some (clockPointer s), increaseClockPointer s)
       else clock_scan m clear n (increaseClockPointer
         (if clear then set_frame (clockPointer s) (frame\<lparr>used := 0\<rparr>) s else s)))"

definition clockModif :: "muse \<Rightarrow> (int \<times> muse) outcome" where
  "clockModif s =
     (let n = nat (cant_frames s) in
      obind (clock_scan 0 False n s) (\<lambda>(r1, s1). case r1 of Some i \<Rightarrow> Ret (i, s1) | None \<Rightarrow>
      obind (clock_scan 1 True n s1) (\<lambda>(r2, s2). case r2 of Some i \<Rightarrow> Ret (i, s2) | None \<Rightarrow>
      obind (clock_scan 0 False n s2) (\<lambda>(r3, s3). case r3 of Some i \<Rightarrow> Ret (i, s3) | None \<Rightarrow>
      obind (clock_scan 1 False n s3) (\<lambda>(r4, s4). case r4 of Some i \<Rightarrow> Ret (i, s4) | None \<Rightarrow>
        Ret (- 1, s4))))))"

section \<open>Segments\<close>

definition swapPage :: "page_t \<Rightarrow> int" where
  "swapPage page = 1"

text \<open>
  A frame for a page: the first free one or the one the clock chooses. Only in the second case it is
  returned. \<open>searchPageFromFrame\<close> and \<open>swapPage\<close> change nothing.
\<close>

definition setAFrame :: "muse \<Rightarrow> (int \<times> muse) outcome" where
  "setAFrame s =
     obind (anyFreeFrame s) (\<lambda>any.
     obind (if any then obind (searchFreeFrame s) (\<lambda>f. Ret (f, s)) else clockModif s)
       (\<lambda>(frame, s1).
     obind (list_at (bitmapFrames s1) frame) (\<lambda>frameR.
       let s2 = set_frame frame (frameR\<lparr>modif := 1, used := 1, isFree := False\<rparr>) s1;
         swapNeeded = (\<not> any) in
       if swapNeeded then Ret (frame, s2) else Ret (- 1, s2))))"

text \<open>A new page at the end of the table of a segment.\<close>

definition add_page :: "segment_t \<Rightarrow> muse \<Rightarrow> (segment_t \<times> muse) outcome" where
  "add_page segment s =
     obind (setAFrame s) (\<lambda>(n, s1).
     obind (list_at (bitmapFrames s1) n) (\<lambda>frame.
       Ret (segment\<lparr>tablaPaginas := tablaPaginas segment @
           [\<lparr>bitPresencia = 1, nFrame = n, nSwap = - 1\<rparr>]\<rparr>,
         set_frame n (frame\<lparr>modif := 1, used := 1, isFree := False\<rparr>) s1)))"

definition setNewPage :: "segment_t \<Rightarrow> muse \<Rightarrow> (segment_t \<times> muse) outcome" where
  "setNewPage segment s =
     obind (add_page segment s) (\<lambda>(segment1, s1).
       Ret (segment1\<lparr>tam := tam segment1 + of_int (tamanio_pagina s1)\<rparr>, s1))"

definition segmentSize :: "muse_env \<Rightarrow> int \<Rightarrow> int \<Rightarrow> muse \<Rightarrow> (32 word) outcome" where
  "segmentSize E n idCli s =
     (case segment_table s (muse_itoa E idCli) of
        None \<Rightarrow> Fault
      | Some segments \<Rightarrow> obind (list_at segments n) (\<lambda>provSegment. Ret (tam provSegment)))"

text \<open>
  The page is compared with the list object, which is smaller than a page: a read behind it.
\<close>

definition getPageIndex :: "page_t list \<Rightarrow> page_t \<Rightarrow> int outcome" where
  "getPageIndex pagesList page = (if pagesList = [] then Ret (- 1) else Fault)"

text \<open>
  The entry is returned and not added to the segment. The block for the metadata has the size of a
  pointer, and its second field is behind the first four bytes.
\<close>

definition locateMetadataAndHeaplist ::
  "muse_env \<Rightarrow> segment_t \<Rightarrow> int \<Rightarrow> bool \<Rightarrow> 32 word \<Rightarrow> 32 word \<Rightarrow> muse \<Rightarrow> (heapList \<times> muse) outcome"
  where
  "locateMetadataAndHeaplist E segment heaplocat free size_p page s =
     (let heap = \<lparr>dir = heaplocat, heap_size = sint size_p, heap_isFree = free\<rparr>;
        indexFirstPage = sint (page - 1) in
      obind (list_at (tablaPaginas segment) indexFirstPage) (\<lambda>provPage.
      obind (list_at (bitmapFrames s) (nFrame provPage)) (\<lambda>frame.
        if tamanio_pagina s = 0 \<or> pointer_size E < 5 then Fault
        else Ret (heap, set_frame (nFrame provPage) (frame\<lparr>modif := 1, used := 1\<rparr>) s))))"

text \<open>\<open>metadataSplitted\<close> is never set, so one page is added to the size.\<close>

definition setFirstSegmentPage ::
  "muse_env \<Rightarrow> segment_t \<Rightarrow> int \<Rightarrow> muse \<Rightarrow> (segment_t \<times> muse) outcome" where
  "setFirstSegmentPage E segment metadataSize s =
     obind (add_page segment s) (\<lambda>(segment1, s1).
     obind (getPageIndex (tablaPaginas segment1) (last (tablaPaginas segment1))) (\<lambda>i.
       if \<not> in_int (i * tamanio_pagina s1) then Fault
       else
         obind (locateMetadataAndHeaplist E segment1 (i * tamanio_pagina s1) False
             (of_int metadataSize) 1 s1) (\<lambda>(_, s2).
           Ret (segment1\<lparr>tam := tam segment1 + of_int (tamanio_pagina s2)\<rparr>, s2))))"

definition setLastSegmentPage ::
  "muse_env \<Rightarrow> segment_t \<Rightarrow> int \<Rightarrow> muse \<Rightarrow> (segment_t \<times> muse) outcome" where
  "setLastSegmentPage E segment sizeLastMetadata s =
     (let rest = tamanio_pagina s - sizeLastMetadata; pages = tablaPaginas segment in
      if \<not> in_int rest then Fault
      else
        obind (list_at pages (int (length pages) - 1)) (\<lambda>page.
          if \<not> in_int (nFrame page * tamanio_pagina s) then Fault
          else
            let dirHeap = sint (of_int (nFrame page * tamanio_pagina s) +
              (of_int (tamanio_pagina s) - 8 + of_int sizeLastMetadata) :: 32 word) in
            obind (locateMetadataAndHeaplist E segment dirHeap (rest \<noteq> 0) (of_int rest)
                (of_nat (length pages)) s) (\<lambda>(_, s1).
              Ret (segment\<lparr>tam := tam segment + of_int (tamanio_pagina s1)\<rparr>, s1))))"

text \<open>The pages after the first one, for the size that is left.\<close>

fun add_pages :: "muse_env \<Rightarrow> nat \<Rightarrow> int \<Rightarrow> segment_t \<Rightarrow> muse \<Rightarrow> (segment_t \<times> muse) outcome" where
  "add_pages E 0 allocatedSize segment s = Ret (segment, s)"
| "add_pages E (Suc pagesNeeded) allocatedSize segment s =
     (if allocatedSize > tamanio_pagina s then
        obind (setNewPage segment s) (\<lambda>(segment1, s1).
          add_pages E pagesNeeded (allocatedSize - tamanio_pagina s1) segment1 s1)
      else
        obind (setLastSegmentPage E segment allocatedSize s) (\<lambda>(segment1, s1).
          add_pages E pagesNeeded 0 segment1 s1))"

text \<open>The number of pages is the quotient of two integers, which is rounded before \<open>ceil\<close> sees it.\<close>

definition createSegment ::
  "muse_env \<Rightarrow> 32 word \<Rightarrow> int \<Rightarrow> muse \<Rightarrow> (segment_t \<times> muse) outcome" where
  "createSegment E tamanio idCli s =
     (let strIdCli = muse_itoa E idCli in
      case segment_table s strIdCli of
        None \<Rightarrow> Fault
      | Some pSegmentList \<Rightarrow>
          obind (if pSegmentList = [] then Ret (of_int (tamanio_mem s))
                 else obind (segmentSize E (int (length pSegmentList) - 1) idCli s) (\<lambda>t.
                   Ret (t + 1 + of_int (tamanio_mem s)))) (\<lambda>base.
          let newSegment = \<lparr>nSegment = int (length pSegmentList), pagsLib = 0, bLogica = base,
                tam = uninit_tam E, tablaPaginas = [], metadatas = []\<rparr>;
            allocatedSize = sint (tamanio + 2 * 8) in
          if tamanio_pagina s = 0 then Fault
          else
            let pagesNeeded = allocatedSize sdiv tamanio_pagina s in
            obind (setFirstSegmentPage E newSegment (sint tamanio) s) (\<lambda>(segment1, s1).
            let last_pos = int (length (metadatas segment1)) - 1 in
            obind (list_at (metadatas segment1) last_pos) (\<lambda>lastHeap.
            let size1 = (if heap_isFree lastHeap then allocatedSize - heap_size lastHeap
                         else allocatedSize);
              segment2 = segment1\<lparr>metadatas := (metadatas segment1)[nat last_pos :=
                lastHeap\<lparr>heap_size := sint tamanio, heap_isFree := False\<rparr>]\<rparr> in
            obind (add_pages E (nat pagesNeeded) size1 segment2 s1) (\<lambda>(segment3, s2).
              Ret (segment3, s2\<lparr>segment_table :=
                (segment_table s2)(strIdCli \<mapsto> pSegmentList @ [segment3])\<rparr>))))))"

text \<open>
  A page that is neither in memory nor in the swap file is copied from in front of the address of
  the stream of the swap file; a page in the swap file is not brought back.
\<close>

definition getPosMemoryPage :: "page_t \<Rightarrow> muse \<Rightarrow> int outcome" where
  "getPosMemoryPage page s =
     (if bitPresencia page = 0 \<and> nSwap page = - 1 then Fault
      else
        obind (list_at (bitmapFrames s) (nFrame page)) (\<lambda>provFrame.
          if in_int (nFrame page * tamanio_pagina s) then Ret (nFrame page * tamanio_pagina s)
          else Fault))"

fun heap_available :: "heapList list \<Rightarrow> int \<Rightarrow> bool" where
  "heap_available [] t = False"
| "heap_available (heapAux # rest) t =
     (if heap_isFree heapAux \<and> heap_size heapAux \<ge> t then True else heap_available rest t)"

fun searchSegmentWithSizeAvailable :: "segment_t list \<Rightarrow> int \<Rightarrow> segment_t option" where
  "searchSegmentWithSizeAvailable [] t = None"
| "searchSegmentWithSizeAvailable (segment # rest) t =
     (if heap_available (metadatas segment) t then Some segment
      else searchSegmentWithSizeAvailable rest t)"

end
