(* ===== verification/MuseClock.thy ===== *)
theory MuseClock
  imports MuseProps
begin

text \<open>
  The modified clock of MUSE chooses the first frame, from the pointer on, of the lowest of the four
  classes of the bits \<open>used\<close> and \<open>modif\<close>.
\<close>

section \<open>Positions from the pointer on\<close>

definition clock_order :: "nat \<Rightarrow> nat \<Rightarrow> nat \<Rightarrow> nat list" where
  "clock_order n p k = map (\<lambda>j. (p + j) mod n) [0..<k]"

lemma clock_order_0 [simp]: "clock_order n p 0 = []"
  by (simp add: clock_order_def)

lemma clock_order_Suc:
  assumes "p < n"
  shows "clock_order n p (Suc k) = p # clock_order n ((p + 1) mod n) k"
proof -
  have "[0..<Suc k] = 0 # map Suc [0..<k]" by (simp add: upt_conv_Cons map_Suc_upt del: upt_Suc)
  then show ?thesis using assms by (simp add: clock_order_def mod_simps del: upt_Suc)
qed

lemma set_clock_order: "p < n \<Longrightarrow> set (clock_order n p n) = {..<n}"
proof (intro equalityI subsetI)
  fix i assume "p < n" "i \<in> {..<n}"
  then have i: "i < n" by simp
  show "i \<in> set (clock_order n p n)"
  proof (cases "p \<le> i")
    case True
    then have "(p + (i - p)) mod n = i" "i - p < n" using i by simp_all
    then show ?thesis by (force simp: clock_order_def)
  next
    case False
    then have "(p + (n - p + i)) mod n = i" "n - p + i < n" using i \<open>p < n\<close> by simp_all
    then show ?thesis by (force simp: clock_order_def)
  qed
qed (auto simp: clock_order_def)

lemma clock_order_less: "0 < n \<Longrightarrow> i \<in> set (clock_order n p k) \<Longrightarrow> i < n"
  by (auto simp: clock_order_def)

lemma clock_order_fresh:
  assumes "p < n" "k < n"
  shows "p \<notin> set (clock_order n ((p + 1) mod n) k)"
proof
  assume "p \<in> set (clock_order n ((p + 1) mod n) k)"
  then obtain j where "j < k" "p = ((p + 1) mod n + j) mod n" by (auto simp: clock_order_def)
  then have j: "p = (p + Suc j) mod n" "Suc j < n" using assms(2) by (simp_all add: mod_simps)
  show False
  proof (cases "p + Suc j < n")
    case True
    with j(1) show False by simp
  next
    case False
    then have "(p + Suc j) mod n = p + Suc j - n" using assms(1) j(2) by (simp add: mod_if)
    with j False show False by linarith
  qed
qed

section \<open>The loops\<close>

definition wants :: "int \<Rightarrow> frame_t \<Rightarrow> bool" where
  "wants m f \<longleftrightarrow> used f = 0 \<and> modif f = m"

lemma increase_pointer:
  assumes "clockPointer s = int p" "p < n" "cant_frames s = int n"
  shows "increaseClockPointer s = s\<lparr>clockPointer := int ((p + 1) mod n)\<rparr>"
  using assms by (auto simp: increaseClockPointer_def mod_if)

lemma clock_scan_plain:
  assumes "clockPointer s = int p" "p < n" "cant_frames s = int n" "length (bitmapFrames s) = n"
  shows "clock_scan m False k s = Ret
    (case find (\<lambda>i. wants m (bitmapFrames s ! i)) (clock_order n p k) of
       None \<Rightarrow> (None, s\<lparr>clockPointer := int ((p + k) mod n)\<rparr>)
     | Some i \<Rightarrow> (Some (int i), s\<lparr>clockPointer := int ((i + 1) mod n)\<rparr>))"
  using assms
proof (induction k arbitrary: s p)
  case 0
  then show ?case by simp
next
  case (Suc k)
  let ?s = "s\<lparr>clockPointer := int ((p + 1) mod n)\<rparr>"
  have "clock_scan m False k ?s = Ret
      (case find (\<lambda>i. wants m (bitmapFrames ?s ! i)) (clock_order n ((p + 1) mod n) k) of
         None \<Rightarrow> (None, ?s\<lparr>clockPointer := int (((p + 1) mod n + k) mod n)\<rparr>)
       | Some i \<Rightarrow> (Some (int i), ?s\<lparr>clockPointer := int ((i + 1) mod n)\<rparr>))"
    using Suc.prems by (intro Suc.IH) simp_all
  moreover have "((p + 1) mod n + k) mod n = (p + Suc k) mod n" by (simp add: mod_simps)
  ultimately show ?case
    using Suc.prems increase_pointer [OF Suc.prems(1-3)]
    by (auto simp: clock_order_Suc list_at_int wants_def split: option.split)
qed

text \<open>The frames after a pass that clears the bit \<open>used\<close> of those it leaves behind.\<close>

definition passed :: "nat list \<Rightarrow> frame_t list \<Rightarrow> frame_t list \<Rightarrow> bool" where
  "passed ps fs fs' \<longleftrightarrow> length fs' = length fs \<and>
     (\<forall>i < length fs. isFree (fs' ! i) = isFree (fs ! i) \<and> modif (fs' ! i) = modif (fs ! i) \<and>
       (i \<in> set ps \<longrightarrow> used (fs' ! i) = 0) \<and> (i \<notin> set ps \<longrightarrow> used (fs' ! i) = used (fs ! i)))"

lemma clock_scan_clear:
  assumes "clockPointer s = int p" "p < n" "cant_frames s = int n" "length (bitmapFrames s) = n" "k \<le> n"
  shows "\<exists>fs' ps. passed ps (bitmapFrames s) fs' \<and> clock_scan m True k s = Ret
    (case find (\<lambda>i. wants m (bitmapFrames s ! i)) (clock_order n p k) of
       None \<Rightarrow> (None, s\<lparr>bitmapFrames := fs', clockPointer := int ((p + k) mod n)\<rparr>)
     | Some i \<Rightarrow> (Some (int i), s\<lparr>bitmapFrames := fs', clockPointer := int ((i + 1) mod n)\<rparr>)) \<and>
    (find (\<lambda>i. wants m (bitmapFrames s ! i)) (clock_order n p k) = None \<longrightarrow> ps = clock_order n p k)"
  using assms
proof (induction k arbitrary: s p)
  case 0
  then show ?case by (intro exI [of _ "bitmapFrames s"] exI [of _ "[]"]) (simp add: passed_def)
next
  case (Suc k)
  let ?fs = "bitmapFrames s"
  show ?case
  proof (cases "wants m (?fs ! p)")
    case True
    then show ?thesis
      using Suc.prems increase_pointer [OF Suc.prems(1-3)]
      by (intro exI [of _ ?fs] exI [of _ "[]"])
        (simp add: passed_def clock_order_Suc list_at_int wants_def)
  next
    case False
    let ?fs1 = "?fs[p := (?fs ! p)\<lparr>used := 0\<rparr>]" and ?p = "(p + 1) mod n"
    let ?s = "s\<lparr>bitmapFrames := ?fs1, clockPointer := int ?p\<rparr>"
    have k: "k < n" using Suc.prems(5) by simp
    obtain fs' ps where IH: "passed ps ?fs1 fs'" "clock_scan m True k ?s = Ret
        (case find (\<lambda>i. wants m (?fs1 ! i)) (clock_order n ?p k) of
           None \<Rightarrow> (None, ?s\<lparr>bitmapFrames := fs', clockPointer := int ((?p + k) mod n)\<rparr>)
         | Some i \<Rightarrow> (Some (int i), ?s\<lparr>bitmapFrames := fs', clockPointer := int ((i + 1) mod n)\<rparr>))"
      "find (\<lambda>i. wants m (?fs1 ! i)) (clock_order n ?p k) = None \<longrightarrow> ps = clock_order n ?p k"
      using Suc.IH [of ?s ?p] Suc.prems by auto
    have find: "find (\<lambda>i. wants m (?fs1 ! i)) (clock_order n ?p k) =
        find (\<lambda>i. wants m (?fs ! i)) (clock_order n ?p k)"
      using clock_order_fresh [OF Suc.prems(2) k]
      by (intro find_cong refl) (metis nth_list_update_neq)
    have "clock_scan m True (Suc k) s = clock_scan m True k ?s"
      using False Suc.prems increase_pointer [of "s\<lparr>bitmapFrames := ?fs1\<rparr>" p n]
      by (auto simp: list_at_int wants_def set_frame_def)
    moreover have "passed (p # ps) ?fs fs'"
      using IH(1) Suc.prems(2,4) by (auto simp: passed_def nth_list_update)
    moreover have "(?p + k) mod n = (p + Suc k) mod n" by (simp add: mod_simps)
    ultimately show ?thesis
      using IH(2,3) False Suc.prems(2) unfolding find
      by (intro exI [of _ fs'] exI [of _ "p # ps"])
        (auto simp: clock_order_Suc split: option.split)
  qed
qed

section \<open>The choice\<close>

definition class_of :: "frame_t \<Rightarrow> int" where
  "class_of f = 2 * used f + modif f"

text \<open>The first frame of the lowest class, from the pointer on.\<close>

definition clock_choice :: "frame_t list \<Rightarrow> nat \<Rightarrow> nat option" where
  "clock_choice frames p =
     find (\<lambda>i. class_of (frames ! i) = Min (class_of ` set frames))
       (clock_order (length frames) p (length frames))"

definition bits_ok :: "frame_t \<Rightarrow> bool" where
  "bits_ok f \<longleftrightarrow> used f \<in> {0, 1} \<and> modif f \<in> {0, 1}"

lemma class_bits:
  assumes "bits_ok f"
  shows "class_of f = 0 \<longleftrightarrow> wants 0 f" "class_of f = 1 \<longleftrightarrow> wants 1 f"
    "class_of f = 2 \<longleftrightarrow> used f = 1 \<and> modif f = 0" "class_of f = 3 \<longleftrightarrow> used f = 1 \<and> modif f = 1"
    "class_of f \<in> {0, 1, 2, 3}"
proof -
  consider "used f = 0" "modif f = 0" | "used f = 0" "modif f = 1" | "used f = 1" "modif f = 0"
    | "used f = 1" "modif f = 1"
    using assms by (auto simp: bits_ok_def)
  note cases = this
  show "class_of f = 0 \<longleftrightarrow> wants 0 f" "class_of f = 1 \<longleftrightarrow> wants 1 f"
    "class_of f = 2 \<longleftrightarrow> used f = 1 \<and> modif f = 0" "class_of f = 3 \<longleftrightarrow> used f = 1 \<and> modif f = 1"
    "class_of f \<in> {0, 1, 2, 3}"
    by (cases rule: cases; simp add: class_of_def wants_def)+
qed

lemma clock_choice_class:
  assumes "p < length frames" "\<exists>i < length frames. class_of (frames ! i) = r"
    "\<forall>i < length frames. r \<le> class_of (frames ! i)"
  shows "\<exists>i < length frames. clock_choice frames p = Some i"
    "clock_choice frames p = find (\<lambda>i. class_of (frames ! i) = r)
      (clock_order (length frames) p (length frames))"
proof -
  have "Min (class_of ` set frames) = r"
    using assms(2,3) by (intro Min_eqI) (auto simp: in_set_conv_nth intro!: imageI)
  then show eq: "clock_choice frames p = find (\<lambda>i. class_of (frames ! i) = r)
      (clock_order (length frames) p (length frames))"
    by (simp add: clock_choice_def)
  then have "clock_choice frames p \<noteq> None"
    using assms(1,2) set_clock_order [OF assms(1)] by (auto simp: find_None_iff)
  then obtain i where i: "clock_choice frames p = Some i" by blast
  then have "i \<in> set (clock_order (length frames) p (length frames))"
    using eq by (auto simp: find_Some_iff)
  then have "i < length frames" using set_clock_order [OF assms(1)] by simp
  with i show "\<exists>i < length frames. clock_choice frames p = Some i" by blast
qed

lemma clock_choice_find:
  assumes "p < length fs" "\<exists>i < length fs. class_of (fs ! i) = r" "\<forall>i < length fs. r \<le> class_of (fs ! i)"
    "\<forall>i < length fs. (class_of (fs ! i) = r) = Q i"
  shows "\<exists>c < length fs. clock_choice fs p = Some c \<and>
    find Q (clock_order (length fs) p (length fs)) = Some c"
proof -
  have "find (\<lambda>i. class_of (fs ! i) = r) (clock_order (length fs) p (length fs)) =
      find Q (clock_order (length fs) p (length fs))"
    using assms(4) set_clock_order [OF assms(1)] by (intro find_cong) auto
  with clock_choice_class [OF assms(1-3)] show ?thesis by auto
qed

lemma find_order_None:
  "p < n \<Longrightarrow> \<forall>i < n. \<not> Q i \<Longrightarrow> find Q (clock_order n p n) = None"
  using set_clock_order [of p n] by (auto simp: find_None_iff)

text \<open>The last two loops, after the bits \<open>used\<close> have been cleared.\<close>

lemma second_round:
  assumes "p < length fs" "length fs' = length fs" "clockPointer s = int p"
    "cant_frames s = int (length fs)" "bitmapFrames s = fs'"
    "\<forall>i < length fs. used (fs' ! i) = 0 \<and> modif (fs' ! i) = modif (fs ! i)"
    "\<forall>f \<in> set fs. bits_ok f" "\<forall>i < length fs. class_of (fs ! i) \<noteq> 0 \<and> class_of (fs ! i) \<noteq> 1"
  shows "\<exists>c s'. clock_choice fs p = Some c \<and> c < length fs \<and> bitmapFrames s' = fs' \<and>
    clockPointer s' = int ((c + 1) mod length fs) \<and>
    (clock_scan 0 False (length fs) s = Ret (Some (int c), s') \<or>
     (\<exists>t. clock_scan 0 False (length fs) s = Ret (None, t) \<and>
       clock_scan 1 False (length fs) t = Ret (Some (int c), s')))"
proof -
  let ?n = "length fs"
  have bits: "bits_ok (fs ! i)" if "i < ?n" for i using assms(7) that by simp
  have wants: "wants m (fs' ! i) \<longleftrightarrow> modif (fs ! i) = m" if "i < ?n" for i m
    using assms(6) that by (simp add: wants_def)
  have class_of: "class_of (fs ! i) = 2 + modif (fs ! i)" "modif (fs ! i) \<in> {0, 1}" if "i < ?n" for i
    using class_bits(5) [OF bits [OF that]] bits [OF that] assms(8) that
    by (auto simp: bits_ok_def class_of_def)
  have plain: "clock_scan m False ?n t = Ret
      (case find (\<lambda>i. wants m (fs' ! i)) (clock_order ?n p ?n) of
         None \<Rightarrow> (None, t\<lparr>clockPointer := int ((p + ?n) mod ?n)\<rparr>)
       | Some i \<Rightarrow> (Some (int i), t\<lparr>clockPointer := int ((i + 1) mod ?n)\<rparr>))"
    if "t = s \<or> t = s\<lparr>clockPointer := int p\<rparr>" for m t
    using that assms(1-5) by (intro clock_scan_plain [of t p ?n, THEN trans]) auto
  show ?thesis
  proof (cases "\<exists>i < ?n. class_of (fs ! i) = 2")
    case True
    have "\<forall>i < ?n. 2 \<le> class_of (fs ! i)" using class_of by force
    from clock_choice_find [OF assms(1) True this, of "\<lambda>i. wants 0 (fs' ! i)"]
    show ?thesis using wants class_of(1) plain [of s 0] assms(5) by auto
  next
    case False
    then have m1: "modif (fs ! i) = 1" if "i < ?n" for i using class_of [OF that] that by auto
    then have "find (\<lambda>i. wants 0 (fs' ! i)) (clock_order ?n p ?n) = None"
      using wants by (intro find_order_None [OF assms(1)]) simp
    then have none: "clock_scan 0 False ?n s = Ret (None, s\<lparr>clockPointer := int p\<rparr>)"
      using plain [of s 0] assms(1) by simp
    have "\<exists>i < ?n. class_of (fs ! i) = 3" using class_of(1) m1 assms(1) by force
    moreover have "\<forall>i < ?n. 3 \<le> class_of (fs ! i)" using class_of(1) m1 by simp
    ultimately obtain c where "c < ?n" "clock_choice fs p = Some c"
      "find (\<lambda>i. wants 1 (fs' ! i)) (clock_order ?n p ?n) = Some c"
      using clock_choice_find [OF assms(1), of 3 "\<lambda>i. wants 1 (fs' ! i)"] wants class_of(1) by auto
    then show ?thesis using none plain [of "s\<lparr>clockPointer := int p\<rparr>" 1] assms(5) by auto
  qed
qed

lemma passed_maps:
  "passed ps fs fs' \<Longrightarrow> map isFree fs' = map isFree fs \<and> map modif fs' = map modif fs"
  by (auto simp: passed_def intro!: nth_equalityI)

lemma clockModif_choice:
  assumes "frames_ok s" "clockPointer s = int p" "p < length (bitmapFrames s)"
    "\<forall>f \<in> set (bitmapFrames s). bits_ok f"
  shows "\<exists>c s'. clock_choice (bitmapFrames s) p = Some c \<and> c < length (bitmapFrames s) \<and>
    clockModif s = Ret (int c, s') \<and> clockPointer s' = int ((c + 1) mod length (bitmapFrames s)) \<and>
    map isFree (bitmapFrames s') = map isFree (bitmapFrames s) \<and>
    map modif (bitmapFrames s') = map modif (bitmapFrames s)"
proof -
  let ?fs = "bitmapFrames s" and ?n = "length (bitmapFrames s)" and ?s1 = "s\<lparr>clockPointer := int p\<rparr>"
  have n: "cant_frames s = int ?n" "nat (cant_frames s) = ?n" "(p + ?n) mod ?n = p"
    using assms(1,3) by (simp_all add: frames_ok_def)
  have bits: "bits_ok (?fs ! i)" if "i < ?n" for i using assms(4) that by simp
  note one = clock_scan_plain [OF assms(2,3) n(1) refl, of 0 ?n]
  show ?thesis
  proof (cases "\<exists>i < ?n. class_of (?fs ! i) = 0")
    case True
    have "\<forall>i < ?n. 0 \<le> class_of (?fs ! i)" using class_bits(5) [OF bits] by force
    from clock_choice_find [OF assms(3) True this, of "\<lambda>i. wants 0 (?fs ! i)"]
    show ?thesis using class_bits(1) [OF bits] one n(2) by (auto simp: clockModif_def Let_def)
  next
    case no0: False
    then have "find (\<lambda>i. wants 0 (?fs ! i)) (clock_order ?n p ?n) = None"
      using class_bits(1) [OF bits] by (intro find_order_None [OF assms(3)]) blast
    then have step1: "clock_scan 0 False ?n s = Ret (None, ?s1)" using one n(3) by simp
    obtain fs' ps where two: "passed ps ?fs fs'" "clock_scan 1 True ?n ?s1 = Ret
        (case find (\<lambda>i. wants 1 (?fs ! i)) (clock_order ?n p ?n) of
           None \<Rightarrow> (None, ?s1\<lparr>bitmapFrames := fs', clockPointer := int ((p + ?n) mod ?n)\<rparr>)
         | Some i \<Rightarrow> (Some (int i), ?s1\<lparr>bitmapFrames := fs', clockPointer := int ((i + 1) mod ?n)\<rparr>))"
      "find (\<lambda>i. wants 1 (?fs ! i)) (clock_order ?n p ?n) = None \<longrightarrow> ps = clock_order ?n p ?n"
      using clock_scan_clear [of ?s1 p ?n ?n 1] assms(3) n(1) by auto
    show ?thesis
    proof (cases "\<exists>i < ?n. class_of (?fs ! i) = 1")
      case True
      have "1 \<le> class_of (?fs ! i)" if "i < ?n" for i
        using class_bits(5) [OF bits [OF that]] no0 that by auto
      then have "\<forall>i < ?n. 1 \<le> class_of (?fs ! i)" by blast
      from clock_choice_find [OF assms(3) True this, of "\<lambda>i. wants 1 (?fs ! i)"]
      show ?thesis
        using class_bits(2) [OF bits] step1 two(2) n(2) passed_maps [OF two(1)]
        by (auto simp: clockModif_def Let_def)
    next
      case no1: False
      then have "find (\<lambda>i. wants 1 (?fs ! i)) (clock_order ?n p ?n) = None"
        using class_bits(2) [OF bits] by (intro find_order_None [OF assms(3)]) blast
      then have step2: "clock_scan 1 True ?n ?s1 = Ret (None, ?s1\<lparr>bitmapFrames := fs', clockPointer := int p\<rparr>)"
        "set ps = {..<?n}"
        using two(2,3) n(3) set_clock_order [OF assms(3)] by simp_all
      have "\<forall>i < ?n. used (fs' ! i) = 0 \<and> modif (fs' ! i) = modif (?fs ! i)" "length fs' = ?n"
        using two(1) step2(2) by (auto simp: passed_def)
      with second_round [OF assms(3), of fs' "?s1\<lparr>bitmapFrames := fs', clockPointer := int p\<rparr>"]
      show ?thesis
        using step1 step2(1) n no0 no1 assms(4) passed_maps [OF two(1)]
        by (auto simp: clockModif_def Let_def)
    qed
  qed
qed

text \<open>
  C19: The four loops of \<open>clockModif\<close> are one choice: the first frame from the pointer on of the lowest
  class - not used and not modified, not used, not modified, any. A frame is always found, the
  pointer stops behind it, and only bits \<open>used\<close> are cleared.
\<close>

theorem clock_chooses_lowest_class:
  assumes "frames_ok s" "clockPointer s = int p" "p < length (bitmapFrames s)"
    "\<forall>f \<in> set (bitmapFrames s). bits_ok f"
  shows "\<exists>c s'. clock_choice (bitmapFrames s) p = Some c \<and> c < length (bitmapFrames s) \<and>
    clockModif s = Ret (int c, s') \<and> clockPointer s' = int ((c + 1) mod length (bitmapFrames s)) \<and>
    map isFree (bitmapFrames s') = map isFree (bitmapFrames s) \<and>
    map modif (bitmapFrames s') = map modif (bitmapFrames s)"
  by (rule clockModif_choice [OF assms])

theorem clock_chooses_lowest_class_witness:
  "\<exists>s'. clockModif (demo_muse [frame False 1 1, frame False 0 1, frame False 1 1] 2) = Ret (1, s') \<and>
    clockPointer s' = 2"
proof -
  let ?fs = "[frame False 1 1, frame False 0 1, frame False 1 1]"
  have "frames_ok (demo_muse ?fs 2)" "clockPointer (demo_muse ?fs 2) = int 2"
    "bitmapFrames (demo_muse ?fs 2) = ?fs"
    by (simp_all add: demo_muse_def frames_ok_def)
  moreover have "clock_choice ?fs 2 = Some 1"
    by (simp add: clock_choice_def clock_order_def class_of_def upt_rec)
  ultimately show ?thesis
    using clock_chooses_lowest_class [of "demo_muse ?fs 2" 2] by (auto simp: bits_ok_def)
qed

section \<open>Frames for pages\<close>

text \<open>
  C26: A page gets a frame only when memory is full: while some frame is free, \<open>setAFrame\<close> marks the
  first free one, but returns -1, and \<open>setNewPage\<close>, which uses the result as an index, faults. When no
  frame is free, the page gets the frame of the clock.
\<close>

theorem page_only_when_full:
  assumes "frames_ok s" "clockPointer s = int p" "p < length (bitmapFrames s)"
    "\<forall>f \<in> set (bitmapFrames s). bits_ok f"
  shows "(\<exists>f \<in> set (bitmapFrames s). isFree f) \<and> setNewPage segment s = Fault \<and>
      (\<exists>s'. setAFrame s = Ret (- 1, s') \<and> length (filter isFree (bitmapFrames s')) =
        length (filter isFree (bitmapFrames s)) - 1) \<or>
    (\<forall>f \<in> set (bitmapFrames s). \<not> isFree f) \<and>
      (\<exists>c s' segment'. clock_choice (bitmapFrames s) p = Some c \<and>
        setNewPage segment s = Ret (segment', s') \<and>
        tablaPaginas segment' = tablaPaginas segment @ [\<lparr>bitPresencia = 1, nFrame = int c, nSwap = - 1\<rparr>] \<and>
        bitmapFrames s' ! c = \<lparr>isFree = False, modif = 1, used = 1\<rparr>)"
proof (cases "\<exists>f \<in> set (bitmapFrames s). isFree f")
  case True
  let ?fs = "bitmapFrames s"
  obtain r where "searchFreeFrame s = Ret r" "anyFreeFrame s = Ret (r \<noteq> - 1)" "0 \<le> r"
    "r < cant_frames s" "isFree (?fs ! nat r)"
    using searchFreeFrame_cases [OF assms(1)] True by auto
  then obtain k where k: "searchFreeFrame s = Ret (int k)" "anyFreeFrame s = Ret True"
    "k < length ?fs" "isFree (?fs ! k)"
    using assms(1) by (intro that [of "nat r"]) (auto simp: frames_ok_def)
  let ?f = "(?fs ! k)\<lparr>modif := 1, used := 1, isFree := False\<rparr>"
  have "setAFrame s = Ret (- 1, set_frame (int k) ?f s)"
    using k by (simp add: setAFrame_def list_at_int Let_def)
  moreover from this have "setNewPage segment s = Fault"
    by (simp add: setNewPage_def add_page_def list_at_def)
  moreover have "length (filter isFree (?fs[k := ?f])) = length (filter isFree ?fs) - 1"
    unfolding upd_conv_take_nth_drop [OF k(3)]
    by (subst (3) id_take_nth_drop [OF k(3)]) (simp add: k(4))
  ultimately show ?thesis using True by (intro disjI1) (simp add: set_frame_def)
next
  case False
  then have "\<not> isFree (bitmapFrames s ! nat r)" if "0 \<le> r" "r < cant_frames s" for r
    using that assms(1) by (auto simp: frames_ok_def)
  then have "anyFreeFrame s = Ret False" using searchFreeFrame_cases [OF assms(1)] by auto
  moreover obtain c s1 where c: "clock_choice (bitmapFrames s) p = Some c" "c < length (bitmapFrames s)"
    "clockModif s = Ret (int c, s1)" "map isFree (bitmapFrames s1) = map isFree (bitmapFrames s)"
    using clockModif_choice [OF assms] by blast
  moreover have len: "length (bitmapFrames s1) = length (bitmapFrames s)"
    using c(4) by (metis length_map)
  ultimately have "setAFrame s = Ret (int c, set_frame (int c)
      ((bitmapFrames s1 ! c)\<lparr>modif := 1, used := 1, isFree := False\<rparr>) s1)"
    by (simp add: setAFrame_def list_at_int Let_def)
  with c(1,2) len False show ?thesis
    by (intro disjI2) (simp add: setNewPage_def add_page_def list_at_int set_frame_def)
qed

definition demo_segment :: segment_t where
  "demo_segment = \<lparr>nSegment = 0, pagsLib = 0, bLogica = 0, tam = 0, tablaPaginas = [], metadatas = []\<rparr>"

theorem page_only_when_full_witness:
  "setNewPage demo_segment (demo_muse [frame False 1 1, frame True 0 0] 0) = Fault"
proof -
  let ?fs = "[frame False 1 1, frame True 0 0]"
  have "frames_ok (demo_muse ?fs 0)" "clockPointer (demo_muse ?fs 0) = int 0"
    "bitmapFrames (demo_muse ?fs 0) = ?fs"
    by (simp_all add: demo_muse_def frames_ok_def)
  then show ?thesis using page_only_when_full [of "demo_muse ?fs 0" 0 demo_segment]
    by (auto simp: bits_ok_def)
qed

end
