(* ===== verification/MuseClient.thy ===== *)
theory MuseClient
  imports Protocol
begin

text \<open>
  The client library of MUSE, \<^verbatim>\<open>lib/libMUSE/libmuse.c\<close>: the packet each call sends and what it
  makes of the answer. Integers, sizes and pointers are four bytes. \<open>itoa\<close> is \<open>string_itoa\<close> and
  \<open>beyond\<close> the readable memory behind a block, as for hilolay. The server that would answer,
  \<^verbatim>\<open>memoria/muse/muse.c\<close>, does not compile, so the answers are whatever comes on the connection.
\<close>

section \<open>The calls\<close>

text \<open>The null pointer test of \<open>muse_init\<close>, on the descriptor of the connection.\<close>

definition muse_init :: "int \<Rightarrow> int" where
  "muse_init socket_cliente = (if socket_cliente = 0 then - 1 else 0)"

fun agregar_cuatro :: "t_paquete \<Rightarrow> mem list \<Rightarrow> t_paquete outcome" where
  "agregar_cuatro p [] = Ret p"
| "agregar_cuatro p (m # ms) = obind (agregar_a_paquete p m 4) (\<lambda>p'. agregar_cuatro p' ms)"

definition muse_send :: "bool \<Rightarrow> op_code \<Rightarrow> mem list \<Rightarrow> byte list outcome" where
  "muse_send send_ok op ms =
     obind (agregar_cuatro (crear_paquete (op_int op)) ms) (enviar_paquete send_ok)"

text \<open>
  A number as \<open>string_itoa\<close> writes it, which takes it as an \<open>int\<close>, and the four bytes of a variable.
\<close>

definition as_text :: "(int \<Rightarrow> string) \<Rightarrow> byte list \<Rightarrow> 32 word \<Rightarrow> mem" where
  "as_text itoa beyond w = c_string (itoa (sint w)) @ beyond"

definition muse_alloc_msg :: "bool \<Rightarrow> (int \<Rightarrow> string) \<Rightarrow> byte list \<Rightarrow> 32 word \<Rightarrow> byte list outcome" where
  "muse_alloc_msg send_ok itoa beyond tam = muse_send send_ok MUSE_ALLOC [as_text itoa beyond tam]"

definition muse_free :: "bool \<Rightarrow> (int \<Rightarrow> string) \<Rightarrow> byte list \<Rightarrow> 32 word \<Rightarrow> byte list outcome" where
  "muse_free send_ok itoa beyond dir = muse_send send_ok MUSE_FREE [as_text itoa beyond dir]"

definition muse_get_msg ::
  "bool \<Rightarrow> (int \<Rightarrow> string) \<Rightarrow> byte list \<Rightarrow> 32 word \<Rightarrow> 32 word \<Rightarrow> 32 word \<Rightarrow> byte list outcome" where
  "muse_get_msg send_ok itoa beyond dst src n =
     muse_send send_ok MUSE_GET [le32 dst, as_text itoa beyond src, as_text itoa beyond n]"

definition muse_cpy_msg ::
  "bool \<Rightarrow> (int \<Rightarrow> string) \<Rightarrow> byte list \<Rightarrow> 32 word \<Rightarrow> 32 word \<Rightarrow> 32 word \<Rightarrow> byte list outcome" where
  "muse_cpy_msg send_ok itoa beyond dst src n =
     muse_send send_ok MUSE_CPY [as_text itoa beyond dst, le32 src, as_text itoa beyond n]"

definition muse_map_msg ::
  "bool \<Rightarrow> (int \<Rightarrow> string) \<Rightarrow> byte list \<Rightarrow> 32 word \<Rightarrow> 32 word \<Rightarrow> 32 word \<Rightarrow> byte list outcome" where
  "muse_map_msg send_ok itoa beyond path len flags =
     muse_send send_ok MUSE_MAP [le32 path, as_text itoa beyond len, as_text itoa beyond flags]"

definition muse_sync_msg :: "bool \<Rightarrow> 32 word \<Rightarrow> 32 word \<Rightarrow> byte list outcome" where
  "muse_sync_msg send_ok addr len = muse_send send_ok MUSE_SYNC [le32 addr, le32 len]"

definition muse_unmap_msg :: "bool \<Rightarrow> 32 word \<Rightarrow> byte list outcome" where
  "muse_unmap_msg send_ok dir = muse_send send_ok MUSE_UNMAP [le32 dir]"

text \<open>
  The answer: a length and as many bytes, read as a number although nothing ends them.
\<close>

definition muse_reply :: "(nat \<Rightarrow> byte) \<Rightarrow> byte list \<Rightarrow> chan \<Rightarrow> (int \<times> chan) outcome" where
  "muse_reply indet beyond ch =
     obind (recibir_buffer indet ch) (\<lambda>(rta, ch1). obind (atoi (rta @ beyond)) (\<lambda>n. Ret (n, ch1)))"

definition muse_call :: "byte list outcome \<Rightarrow> (nat \<Rightarrow> byte) \<Rightarrow> byte list \<Rightarrow> chan \<Rightarrow>
  (byte list \<times> int \<times> chan) outcome" where
  "muse_call msg indet beyond ch =
     obind msg (\<lambda>bytes. obind (muse_reply indet beyond ch) (\<lambda>(n, ch1). Ret (bytes, n, ch1)))"

text \<open>\<open>muse_alloc\<close> also prints the answer, up to the next zero byte in memory.\<close>

definition muse_alloc :: "bool \<Rightarrow> (int \<Rightarrow> string) \<Rightarrow> (nat \<Rightarrow> byte) \<Rightarrow> byte list \<Rightarrow> 32 word \<Rightarrow> chan \<Rightarrow>
  (byte list \<times> 32 word \<times> chan) outcome" where
  "muse_alloc send_ok itoa indet beyond tam ch =
     obind (muse_alloc_msg send_ok itoa beyond tam) (\<lambda>bytes.
     obind (recibir_buffer indet ch) (\<lambda>(rta, ch1).
     obind (c_strlen (rta @ beyond)) (\<lambda>_.
     obind (atoi (rta @ beyond)) (\<lambda>n. Ret (bytes, word_of_int n, ch1)))))"

definition muse_get :: "bool \<Rightarrow> (int \<Rightarrow> string) \<Rightarrow> (nat \<Rightarrow> byte) \<Rightarrow> byte list \<Rightarrow> 32 word \<Rightarrow> 32 word \<Rightarrow>
  32 word \<Rightarrow> chan \<Rightarrow> (byte list \<times> int \<times> chan) outcome" where
  "muse_get send_ok itoa indet beyond dst src n ch =
     muse_call (muse_get_msg send_ok itoa beyond dst src n) indet beyond ch"

definition muse_cpy :: "bool \<Rightarrow> (int \<Rightarrow> string) \<Rightarrow> (nat \<Rightarrow> byte) \<Rightarrow> byte list \<Rightarrow> 32 word \<Rightarrow> 32 word \<Rightarrow>
  32 word \<Rightarrow> chan \<Rightarrow> (byte list \<times> int \<times> chan) outcome" where
  "muse_cpy send_ok itoa indet beyond dst src n ch =
     muse_call (muse_cpy_msg send_ok itoa beyond dst src n) indet beyond ch"

definition muse_map :: "bool \<Rightarrow> (int \<Rightarrow> string) \<Rightarrow> (nat \<Rightarrow> byte) \<Rightarrow> byte list \<Rightarrow> 32 word \<Rightarrow> 32 word \<Rightarrow>
  32 word \<Rightarrow> chan \<Rightarrow> (byte list \<times> 32 word \<times> chan) outcome" where
  "muse_map send_ok itoa indet beyond path len flags ch =
     obind (muse_call (muse_map_msg send_ok itoa beyond path len flags) indet beyond ch)
       (\<lambda>(bytes, n, ch1). Ret (bytes, word_of_int n, ch1))"

definition muse_sync :: "bool \<Rightarrow> (nat \<Rightarrow> byte) \<Rightarrow> byte list \<Rightarrow> 32 word \<Rightarrow> 32 word \<Rightarrow> chan \<Rightarrow>
  (byte list \<times> int \<times> chan) outcome" where
  "muse_sync send_ok indet beyond addr len ch =
     muse_call (muse_sync_msg send_ok addr len) indet beyond ch"

text \<open>\<open>muse_unmap\<close> takes a text off the connection before it reads the answer.\<close>

definition muse_unmap :: "bool \<Rightarrow> (nat \<Rightarrow> byte) \<Rightarrow> byte list \<Rightarrow> 32 word \<Rightarrow> chan \<Rightarrow>
  (byte list \<times> int \<times> chan) outcome" where
  "muse_unmap send_ok indet beyond dir ch =
     obind (muse_unmap_msg send_ok dir) (\<lambda>bytes.
     obind (recibir_mensaje indet ch) (\<lambda>(_, ch1).
     obind (muse_reply indet beyond ch1) (\<lambda>(n, ch2). Ret (bytes, n, ch2))))"

section \<open>Packets on the connection\<close>

definition packet_bytes :: "32 word \<times> byte list list \<Rightarrow> byte list" where
  "packet_bytes x = le32 (fst x) @ le32 (of_nat (length (payload (snd x)))) @ payload (snd x)"

text \<open>What a receiver gets: the operation code and the values of the packet.\<close>

definition read_packet :: "(nat \<Rightarrow> byte) \<Rightarrow> chan \<Rightarrow> ((32 word \<times> byte list list) \<times> chan) outcome" where
  "read_packet indet c =
     (let (op, c1) = recibir_operacion indet c in
      obind (recibir_paquete indet c1) (\<lambda>(vs, c2). Ret ((op, vs), c2)))"

lemma read_packet_bytes:
  assumes "length (payload (snd x)) + 8 < 2 ^ 31" "\<not> closed c" "inbuf c = packet_bytes x @ rest"
  shows "read_packet indet c = Ret (x, c\<lparr>inbuf := rest\<rparr>)"
proof -
  let ?c1 = "c\<lparr>inbuf := le32 (of_nat (length (payload (snd x)))) @ payload (snd x) @ rest\<rparr>"
  have "recibir_operacion indet c = (fst x, ?c1)"
    by (rule recibir_operacion_append) (use assms(2,3) in \<open>simp_all add: packet_bytes_def\<close>)
  moreover have "recibir_paquete indet ?c1 = Ret (snd x, ?c1\<lparr>inbuf := rest\<rparr>)"
    by (rule recibir_paquete_append) (use assms in simp_all)
  ultimately show ?thesis by (simp add: read_packet_def)
qed

interpretation packets: framing packet_bytes "read_packet indet"
    "\<lambda>x. length (payload (snd x)) + 8 < 2 ^ 31" for indet
  by unfold_locales (use read_packet_bytes in \<open>auto simp: packet_bytes_def\<close>)

lemma agregar_cuatro_packet:
  assumes "\<forall>m \<in> set ms. 4 \<le> length m" "length (payload vs) + 8 * length ms < 2 ^ 31"
  shows "agregar_cuatro (packet_of op vs) ms = Ret (packet_of op (vs @ map (take 4) ms))"
  using assms
proof (induction ms arbitrary: vs)
  case (Cons m ms)
  have "agregar_a_paquete (packet_of op vs) m 4 = Ret (packet_of op (vs @ [take 4 m]))"
    using agregar_packet_of [of "take 4 m" m vs op] Cons.prems by simp
  moreover have "agregar_cuatro (packet_of op (vs @ [take 4 m])) ms =
      Ret (packet_of op ((vs @ [take 4 m]) @ map (take 4) ms))"
    by (rule Cons.IH) (use Cons.prems in simp_all)
  ultimately show ?case by simp
qed simp

lemma muse_send_bytes:
  assumes "\<forall>m \<in> set ms. 4 \<le> length m" "length ms < 2 ^ 27"
  shows "muse_send True op ms = Ret (packet_bytes (op_int op, map (take 4) ms))"
proof -
  have "length (payload (map (take 4) ms)) = 8 * length ms"
    using assms(1) by (induction ms) simp_all
  then have "length (payload (map (take 4) ms)) + 8 < 2 ^ 31" using assms(2) by simp
  with agregar_cuatro_packet [OF assms(1), of "[]" "op_int op"] assms(2)
  show ?thesis
    by (simp add: muse_send_def crear_paquete_packet_of enviar_packet_of packet_bytes_def)
qed

section \<open>What a receiver gets\<close>

datatype muse_request =
  MAlloc "32 word"
| MFree "32 word"
| MGet "32 word" "32 word" "32 word"
| MCpy "32 word" "32 word" "32 word"
| MMap "32 word" "32 word" "32 word"
| MSync "32 word" "32 word"
| MUnmap "32 word"

fun muse_msg :: "(int \<Rightarrow> string) \<Rightarrow> byte list \<Rightarrow> muse_request \<Rightarrow> byte list outcome" where
  "muse_msg itoa beyond (MAlloc tam) = muse_alloc_msg True itoa beyond tam"
| "muse_msg itoa beyond (MFree dir) = muse_free True itoa beyond dir"
| "muse_msg itoa beyond (MGet dst src n) = muse_get_msg True itoa beyond dst src n"
| "muse_msg itoa beyond (MCpy dst src n) = muse_cpy_msg True itoa beyond dst src n"
| "muse_msg itoa beyond (MMap path len flags) = muse_map_msg True itoa beyond path len flags"
| "muse_msg itoa beyond (MSync addr len) = muse_sync_msg True addr len"
| "muse_msg itoa beyond (MUnmap dir) = muse_unmap_msg True dir"

text \<open>
  The parameters as they are meant, in the order of the packet: numbers as texts, addresses of the
  client and the two calls on mappings as raw words.
\<close>

fun muse_params :: "(int \<Rightarrow> string) \<Rightarrow> byte list \<Rightarrow> muse_request \<Rightarrow> op_code \<times> byte list list" where
  "muse_params itoa beyond (MAlloc tam) = (MUSE_ALLOC, [as_text itoa beyond tam])"
| "muse_params itoa beyond (MFree dir) = (MUSE_FREE, [as_text itoa beyond dir])"
| "muse_params itoa beyond (MGet dst src n) =
     (MUSE_GET, [le32 dst, as_text itoa beyond src, as_text itoa beyond n])"
| "muse_params itoa beyond (MCpy dst src n) =
     (MUSE_CPY, [as_text itoa beyond dst, le32 src, as_text itoa beyond n])"
| "muse_params itoa beyond (MMap path len flags) =
     (MUSE_MAP, [le32 path, as_text itoa beyond len, as_text itoa beyond flags])"
| "muse_params itoa beyond (MSync addr len) = (MUSE_SYNC, [le32 addr, le32 len])"
| "muse_params itoa beyond (MUnmap dir) = (MUSE_UNMAP, [le32 dir])"

definition cut_params :: "(int \<Rightarrow> string) \<Rightarrow> byte list \<Rightarrow> muse_request \<Rightarrow> 32 word \<times> byte list list" where
  "cut_params itoa beyond r =
     (let (op, ms) = muse_params itoa beyond r in (op_int op, map (take 4) ms))"

lemma length_as_text: "2 \<le> length beyond \<Longrightarrow> itoa_decimal itoa \<Longrightarrow> 4 \<le> length (as_text itoa beyond w)"
  using dec_nat_not_Nil
  by (cases "dec_nat (nat \<bar>sint w\<bar>)")
    (auto simp: as_text_def c_string_def itoa_decimal_def dec_int_def)

lemma muse_msg_bytes:
  assumes "2 \<le> length beyond" "itoa_decimal itoa"
  shows "muse_msg itoa beyond r = Ret (packet_bytes (cut_params itoa beyond r))"
  by (cases r) (simp_all add: cut_params_def muse_send_bytes length_as_text [OF assms]
    muse_alloc_msg_def muse_free_def muse_get_msg_def muse_cpy_msg_def muse_map_msg_def
    muse_sync_msg_def muse_unmap_msg_def)

lemma cut_params_short: "length (payload (snd (cut_params itoa beyond r))) + 8 < 2 ^ 31"
proof -
  have "length (snd (cut_params itoa beyond r)) \<le> 3" by (cases r) (simp_all add: cut_params_def)
  moreover have "length (payload (map (take 4) ms)) \<le> 8 * length ms" for ms :: "byte list list"
    by (induction ms) simp_all
  then have "length (payload (snd (cut_params itoa beyond r))) \<le> 8 * length (snd (cut_params itoa beyond r))"
    by (simp add: cut_params_def case_prod_beta)
  ultimately show ?thesis by simp
qed

lemma decode_calls:
  "decode_n (read_packet indet) (length rs)
      \<lparr>inbuf = concat (map (packet_bytes \<circ> cut_params itoa beyond) rs) @ rest, broken = b, closed = False\<rparr> =
    Ret (map (cut_params itoa beyond) rs, \<lparr>inbuf = rest, broken = b, closed = False\<rparr>)"
proof -
  have ok: "list_all (\<lambda>x. length (payload (snd x)) + 8 < 2 ^ 31) (map (cut_params itoa beyond) rs)"
    unfolding list_all_iff using cut_params_short by auto
  show ?thesis using packets.decode_stream [OF ok, of _ rest indet] by simp
qed

text \<open>
  C34: A sequence of calls of libMUSE puts one packet per call on the connection, and a receiver
  reads them one by one: the code of the call and, of each parameter, the first four bytes - of the
  decimal text of a number, or of a pointer of the client as it is.
\<close>

theorem muse_calls_arrive:
  assumes "2 \<le> length beyond" "itoa_decimal itoa"
  shows "\<exists>msgs. map (muse_msg itoa beyond) rs = map Ret msgs \<and>
    decode_n (read_packet indet) (length rs)
      \<lparr>inbuf = concat msgs @ rest, broken = b, closed = False\<rparr> =
    Ret (map (cut_params itoa beyond) rs, \<lparr>inbuf = rest, broken = b, closed = False\<rparr>)"
  using decode_calls [of indet rs itoa beyond rest b] muse_msg_bytes [OF assms]
  by (intro exI [of _ "map (packet_bytes \<circ> cut_params itoa beyond) rs"]) simp

theorem muse_calls_arrive_witness:
  "\<exists>msgs. map (muse_msg dec_int [0, 0]) [MAlloc 64, MSync 3 4] = map Ret msgs \<and>
    decode_n (read_packet (\<lambda>_. 0)) 2
      \<lparr>inbuf = concat msgs @ [1], broken = False, closed = False\<rparr> =
    Ret ([(9, [[54, 52, 0, 0]]), (14, [[3, 0, 0, 0], [4, 0, 0, 0]])],
      \<lparr>inbuf = [1], broken = False, closed = False\<rparr>)"
proof -
  have v: "cut_params dec_int [0, 0] (MAlloc 64) = (9, [[54, 52, 0, 0]])"
    "cut_params dec_int [0, 0] (MSync 3 4) = (14, [[3, 0, 0, 0], [4, 0, 0, 0]])"
    by code_simp+
  show ?thesis
    using muse_calls_arrive [of "[0, 0]" dec_int "[MAlloc 64, MSync 3 4]" "\<lambda>_. 0" "[1]" False]
    by (simp add: itoa_decimal_def v numeral_2_eq_2 del: muse_msg.simps decode_n.simps)
qed

section \<open>Sizes of five digits and more\<close>

lemma dec_nat_prefix:
  assumes "1000 \<le> n"
  shows "\<exists>k. take 4 (dec_nat n) = dec_nat (n div 10 ^ k) \<and> 1000 \<le> n div 10 ^ k \<and>
    n div 10 ^ k < 10000 \<and> (10000 \<le> n \<longrightarrow> 0 < k)"
  using assms
proof (induction n rule: less_induct)
  case (less n)
  show ?case
  proof (cases "n < 10000")
    case True
    then show ?thesis
      using less.prems length_dec_nat_4 [of n] by (intro exI [of _ 0]) simp
  next
    case False
    then have "n div 10 < n" "1000 \<le> n div 10" by simp_all
    from less.IH [OF this]
    obtain k where k: "take 4 (dec_nat (n div 10)) = dec_nat (n div 10 div 10 ^ k)"
      "1000 \<le> n div 10 div 10 ^ k" "n div 10 div 10 ^ k < 10000"
      by blast
    have "n div 10 div 10 ^ k = n div 10 ^ Suc k" by (simp add: div_mult2_eq)
    moreover have "4 \<le> length (dec_nat (n div 10))"
      using length_dec_nat [of "n div 10" 2] \<open>1000 \<le> n div 10\<close> by simp
    then have "take 4 (dec_nat n) = take 4 (dec_nat (n div 10))"
      using dec_nat_snoc [of n] False by simp
    ultimately show ?thesis using k by (intro exI [of _ "Suc k"]) simp
  qed
qed

text \<open>
  A request for 10000 bytes or more loses its last digits: the receiver reads a number of four
  digits, so no more than 9999 bytes can be asked for; and as no terminator is sent, even that only
  when the byte behind the received block is no digit.
\<close>

theorem alloc_size_cut:
  assumes "10000 \<le> unat tam" "unat tam < 2 ^ 31" "itoa_decimal itoa" "\<not> is_digit e"
  shows "\<exists>bytes k. muse_alloc_msg True itoa beyond tam = Ret bytes \<and> 0 < k \<and>
    unat tam div 10 ^ k < 10000 \<and>
    obind (read_packet indet \<lparr>inbuf = bytes @ rest, broken = b, closed = False\<rparr>) (\<lambda>((op, vs), c).
      obind (value_at (e # es) vs 0) atoi) = Ret (int (unat tam div 10 ^ k))"
proof -
  have t: "sint tam = int (unat tam)"
    using sint_of_nat32 [OF assms(2)] by simp
  obtain k where k: "take 4 (dec_nat (unat tam)) = dec_nat (unat tam div 10 ^ k)"
    "1000 \<le> unat tam div 10 ^ k" "unat tam div 10 ^ k < 10000" "0 < k"
    using dec_nat_prefix [of "unat tam"] assms(1) by auto
  define v :: "byte list" where "v = map of_char (dec_nat (unat tam div 10 ^ k))"
  have len: "4 \<le> length (dec_nat (unat tam))" using length_dec_nat [of "unat tam" 2] assms(1) by simp
  then have cut: "take 4 (as_text itoa beyond tam) = v" "4 \<le> length (as_text itoa beyond tam)"
    using assms(3) k(1) [symmetric]
    by (simp_all add: as_text_def c_string_def itoa_decimal_def dec_int_def t v_def take_map)
  let ?bytes = "packet_bytes (op_int MUSE_ALLOC, [v])"
  have "muse_alloc_msg True itoa beyond tam = Ret ?bytes"
    using muse_send_bytes [of "[as_text itoa beyond tam]" MUSE_ALLOC] cut
    by (simp add: muse_alloc_msg_def)
  moreover have "length v = 4" using length_dec_nat_4 [OF k(2,3)] by (simp add: v_def)
  then have "read_packet indet \<lparr>inbuf = ?bytes @ rest, broken = b, closed = False\<rparr> =
      Ret ((op_int MUSE_ALLOC, [v]), \<lparr>inbuf = rest, broken = b, closed = False\<rparr>)"
    using read_packet_bytes [of "(op_int MUSE_ALLOC, [v])" _ rest indet] by simp
  moreover have "atoi (v @ e # es) = Ret (int (unat tam div 10 ^ k))"
    unfolding v_def by (rule atoi_dec_nat) (use k(3) assms(4) in simp_all)
  ultimately show ?thesis
    using k(3,4) by (intro exI [of _ ?bytes] exI [of _ k]) (simp add: value_at_def)
qed

theorem alloc_size_cut_witness:
  "\<exists>bytes k. muse_alloc_msg True dec_int [0, 0] 65536 = Ret bytes \<and> 0 < k \<and>
    65536 div 10 ^ k < (10000 :: nat) \<and>
    obind (read_packet (\<lambda>_. 0) \<lparr>inbuf = bytes @ [], broken = False, closed = False\<rparr>) (\<lambda>((op, vs), c).
      obind (value_at [0] vs 0) atoi) = Ret (int (65536 div 10 ^ k))"
  using alloc_size_cut [of 65536 dec_int 0 "[0, 0]" "\<lambda>_. 0" "[]" False "[]"]
  by (simp add: itoa_decimal_def is_digit_def)

end
