(* ===== verification/MuseServer.thy ===== *)
theory MuseServer
  imports MuseClient Sockets "HOL-Library.Signed_Division"
begin

text \<open>
  The server of MUSE, \<^verbatim>\<open>memoria/muse/muse.c\<close>: its configuration, the main memory and the loop over
  the requests, as the text reads. The file lacks the brace that closes \<open>init_server\<close> and declares
  two variables twice, so no compiler takes it as it is; none of the functions below depends on how
  that is repaired.
\<close>

section \<open>Start\<close>

record mi_config =
  ip :: "byte list"
  puerto :: int
  conf_tamanio_mem :: int
  conf_tamanio_pagina :: int
  conf_tamanio_swap :: int

text \<open>
  \<open>config_get_int_value\<close> of a key that is missing converts the null pointer, and so does \<open>strlen\<close> of
  the text of \<open>IP\<close>; the file that \<open>config_create\<close> cannot read is a null pointer as well.
\<close>

definition config_int :: "config_lib \<Rightarrow> config_file \<Rightarrow> string \<Rightarrow> int outcome" where
  "config_int lib f k = (case cfg_value f k of None \<Rightarrow> Fault | Some t \<Rightarrow> Ret (get_int lib t))"

definition generate_config :: "config_lib \<Rightarrow> config_file option \<Rightarrow> mi_config outcome" where
  "generate_config lib config =
     (case config of
        None \<Rightarrow> Fault
      | Some f \<Rightarrow>
          (case cfg_value f ''IP'' of
             None \<Rightarrow> Fault
           | Some t \<Rightarrow>
               obind (config_int lib f ''LISTEN_PORT'') (\<lambda>port.
               obind (config_int lib f ''MEMORY_SIZE'') (\<lambda>mem_size.
               obind (config_int lib f ''PAGE_SIZE'') (\<lambda>page_size.
               obind (config_int lib f ''SWAP_SIZE'') (\<lambda>swap_size.
                 Ret \<lparr>ip = t, puerto = port, conf_tamanio_mem = mem_size,
                   conf_tamanio_pagina = page_size, conf_tamanio_swap = swap_size\<rparr>))))))"

text \<open>
  The number of pages and the main memory. The size goes to \<open>malloc\<close> and \<open>memset\<close> as an unsigned
  number; when there is no memory that is logged, and \<open>memset\<close> gets the null pointer.
\<close>

definition init_memoria :: "(nat \<Rightarrow> bool) \<Rightarrow> mi_config \<Rightarrow> (int \<times> byte list) outcome" where
  "init_memoria no_mem c =
     (let tamanio_mem = conf_tamanio_mem c; tamanio_pagina = conf_tamanio_pagina c;
        n = unat (word_of_int tamanio_mem :: 32 word) in
      if tamanio_pagina = 0 \<or> \<not> in_int (tamanio_mem sdiv tamanio_pagina) then Fault
      else if no_mem n then Fault
      else Ret (tamanio_mem sdiv tamanio_pagina, replicate n 0))"

section \<open>Requests\<close>

definition param_at :: "byte list \<Rightarrow> byte list list \<Rightarrow> nat \<Rightarrow> int outcome" where
  "param_at beyond parametros i = obind (value_at beyond parametros i) atoi"

text \<open>
  A pass of the inner loop: the code comes from the client, the parameters from the socket of the
  server. The result has the numbers read, which nothing uses.
\<close>

definition muse_pass :: "(nat \<Rightarrow> byte) \<Rightarrow> byte list \<Rightarrow> chan \<Rightarrow> chan \<Rightarrow>
    (int list \<times> chan \<times> chan) outcome" where
  "muse_pass indet beyond cliente_s server_socket =
     (let (cod_op, cl) = recibir_operacion indet cliente_s in
      if cod_op = op_int MUSE_ALLOC \<or> cod_op = op_int MUSE_FREE then
        obind (recibir_paquete indet server_socket) (\<lambda>(parametros, sv).
        obind (param_at beyond parametros 0) (\<lambda>x. Ret ([x], cl, sv)))
      else if cod_op = op_int MUSE_GET \<or> cod_op = op_int MUSE_CPY then
        obind (recibir_paquete indet server_socket) (\<lambda>(parametros, sv).
        obind (param_at beyond parametros 0) (\<lambda>dst.
        obind (param_at beyond parametros 1) (\<lambda>src.
        obind (param_at beyond parametros 2) (\<lambda>n. Ret ([dst, src, n], cl, sv)))))
      else Ret ([], cl, server_socket))"

text \<open>The inner loop, which has no end: the state after \<open>k\<close> passes, if it comes that far.\<close>

fun muse_loop :: "nat \<Rightarrow> (nat \<Rightarrow> byte) \<Rightarrow> byte list \<Rightarrow> chan \<Rightarrow> chan \<Rightarrow> (chan \<times> chan) outcome" where
  "muse_loop 0 indet beyond cl sv = Ret (cl, sv)"
| "muse_loop (Suc k) indet beyond cl sv =
     obind (muse_pass indet beyond cl sv) (\<lambda>(_, cl1, sv1). muse_loop k indet beyond cl1 sv1)"

section \<open>What a start needs\<close>

text \<open>
  The configuration of MUSE is read exactly when the file is there and has its five keys, with
  the values of these keys; the memory is then made, all zero, with as many pages as fit, when the
  size of a page is positive, that of the memory is not negative and there is memory for it. With
  pages of size zero the server faults.
\<close>

theorem muse_memory:
  assumes "generate_config lib (Some f) = Ret c" "0 \<le> conf_tamanio_mem c" "conf_tamanio_mem c < 2 ^ 31"
  shows "(\<forall>k \<in> {''IP'', ''LISTEN_PORT'', ''MEMORY_SIZE'', ''PAGE_SIZE'', ''SWAP_SIZE''}. has_property f k) \<and>
    (conf_tamanio_pagina c = 0 \<longrightarrow> init_memoria no_mem c = Fault) \<and>
    (0 < conf_tamanio_pagina c \<longrightarrow> init_memoria no_mem c =
      (if no_mem (nat (conf_tamanio_mem c)) then Fault
       else Ret (conf_tamanio_mem c div conf_tamanio_pagina c, replicate (nat (conf_tamanio_mem c)) 0)))"
proof (intro conjI impI)
  show "\<forall>k \<in> {''IP'', ''LISTEN_PORT'', ''MEMORY_SIZE'', ''PAGE_SIZE'', ''SWAP_SIZE''}. has_property f k"
    using assms(1)
    by (auto simp: generate_config_def config_int_def has_property_def obind_Ret_iff split: option.splits)
  show "conf_tamanio_pagina c = 0 \<Longrightarrow> init_memoria no_mem c = Fault"
    by (simp add: init_memoria_def)
  let ?m = "conf_tamanio_mem c" and ?p = "conf_tamanio_pagina c"
  assume p: "0 < ?p"
  have "unat (word_of_int ?m :: 32 word) = nat ?m"
    using assms(2,3) by (simp add: unat_eq_nat_uint uint_word_of_int_eq take_bit_eq_mod)
  moreover have "?m sdiv ?p = ?m div ?p" using assms(2) p by (simp add: signed_divide_int_def sgn_if)
  moreover have "in_int (?m div ?p)"
    using assms(2,3) p zdiv_mono2 [of ?m 1 ?p] pos_imp_zdiv_nonneg_iff [of ?p ?m]
    by (simp add: in_int_def)
  ultimately show "init_memoria no_mem c = (if no_mem (nat ?m) then Fault
      else Ret (?m div ?p, replicate (nat ?m) 0))"
    using p by (simp add: init_memoria_def Let_def)
qed

definition muse_ini :: config_file where
  "muse_ini = \<lparr>cfg_value = [''IP'' \<mapsto> [49], ''LISTEN_PORT'' \<mapsto> [50], ''MEMORY_SIZE'' \<mapsto> [57],
     ''PAGE_SIZE'' \<mapsto> [50], ''SWAP_SIZE'' \<mapsto> [50]], cfg_amount = 5\<rparr>"

theorem muse_memory_witness:
  "\<exists>c. generate_config ini_lib (Some muse_ini) = Ret c \<and> init_memoria (\<lambda>_. False) c =
    Ret (4, replicate 9 0)"
proof -
  have num: "get_int ini_lib [57] = 9" "get_int ini_lib [50] = 2"
    by (simp_all add: ini_lib_def is_digit_def is_space_def in_int_def)
  define c where "c = \<lparr>ip = [49], puerto = 2, conf_tamanio_mem = 9, conf_tamanio_pagina = 2,
    conf_tamanio_swap = 2\<rparr>"
  have c: "generate_config ini_lib (Some muse_ini) = Ret c"
    by (simp add: generate_config_def config_int_def muse_ini_def num c_def)
  have "0 \<le> conf_tamanio_mem c" "conf_tamanio_mem c < 2 ^ 31" by (simp_all add: c_def)
  from muse_memory [OF c this, of "\<lambda>_. False"] c show ?thesis by (auto simp: c_def)
qed

section \<open>What becomes of a request\<close>

text \<open>The socket of the server listens: to receive from it is an error.\<close>

definition listening_chan :: chan where
  "listening_chan = \<lparr>inbuf = [], broken = True, closed = False\<rparr>"

text \<open>
  Nothing arrives there: the size and the bytes of the packet are what the memory of the server
  happened to hold, for every such content.
\<close>

lemma listening_params:
  "recibir_paquete indet listening_chan = obind (recibir_paquete indet listening_chan)
     (\<lambda>(ps, _). Ret (ps, listening_chan))"
  by (cases "split_values (map indet [0..<unat (of_le32 (map indet [0..<4]))])")
    (simp_all add: recibir_paquete_def recibir_buffer_def recv_def listening_chan_def fill_def Let_def
      del: split_values.simps)

lemma listening_zero: "recibir_paquete (\<lambda>_. 0) listening_chan = Ret ([], listening_chan)"
proof -
  have "of_le32 (map (\<lambda>_. 0) [0..<4]) = 0" by (simp add: upt_rec)
  then show ?thesis
    by (simp add: recibir_paquete_def recibir_buffer_def recv_def listening_chan_def fill_def
      split_values.simps [of "[]"])
qed

fun params_at :: "byte list \<Rightarrow> byte list list \<Rightarrow> nat list \<Rightarrow> int list outcome" where
  "params_at beyond ps [] = Ret []"
| "params_at beyond ps (i # js) =
     obind (param_at beyond ps i) (\<lambda>x. obind (params_at beyond ps js) (\<lambda>xs. Ret (x # xs)))"

text \<open>The numbers of a pass that reads these parameters: nothing of a request is in them.\<close>

definition unwritten_params :: "(nat \<Rightarrow> byte) \<Rightarrow> byte list \<Rightarrow> nat list \<Rightarrow> int list outcome" where
  "unwritten_params indet beyond js =
     (if js = [] then Ret []
      else obind (recibir_paquete indet listening_chan) (\<lambda>(ps, _). params_at beyond ps js))"

fun params_of :: "muse_request \<Rightarrow> nat list" where
  "params_of (MAlloc _) = [0]"
| "params_of (MFree _) = [0]"
| "params_of (MGet _ _ _) = [0, 1, 2]"
| "params_of (MCpy _ _ _) = [0, 1, 2]"
| "params_of _ = []"

lemma unwritten_zero: "js \<noteq> [] \<Longrightarrow> unwritten_params (\<lambda>_. 0) beyond js = Fault"
  by (cases js) (simp_all add: unwritten_params_def listening_zero param_at_def value_at_def)

lemma muse_pass_listening:
  assumes "recibir_operacion indet cl = (op, cl1)"
  shows "muse_pass indet beyond cl listening_chan =
    obind (unwritten_params indet beyond (if op = op_int MUSE_ALLOC \<or> op = op_int MUSE_FREE then [0]
        else if op = op_int MUSE_GET \<or> op = op_int MUSE_CPY then [0, 1, 2] else []))
      (\<lambda>ns. Ret (ns, cl1, listening_chan))"
proof (cases "recibir_paquete indet listening_chan")
  case (Ret x)
  with listening_params [of indet] obtain ps where "recibir_paquete indet listening_chan = Ret (ps, listening_chan)"
    by (cases x) simp
  then show ?thesis by (simp add: muse_pass_def assms unwritten_params_def obind_assoc)
qed (simp_all add: muse_pass_def assms unwritten_params_def)

lemma client_gone: "muse_pass indet after \<lparr>inbuf = [], broken = b, closed = x\<rparr> sv =
    Ret ([], \<lparr>inbuf = [], broken = b, closed = True\<rparr>, sv)"
  by (simp add: muse_pass_def recibir_operacion_def recv_def)

lemma client_gone_loop: "muse_loop k indet after \<lparr>inbuf = [], broken = b, closed = x\<rparr> sv =
    Ret (\<lparr>inbuf = [], broken = b, closed = x \<or> 0 < k\<rparr>, sv)"
  by (induction k arbitrary: x) (simp_all add: client_gone)

text \<open>
  C39: The server never gets the parameters of a request, as the text reads: it looks for them on its
  own socket, where nothing comes. Whatever its unwritten memory holds, a pass over the next request
  takes the four bytes of the code only, so that the rest of the packet is still on the connection
  and its size is taken for the next request; and the numbers of the pass come from unwritten memory
  alone, or end the server. With memory that is zero every request to allocate, free, get or copy ends
  it. The loop that serves a client has no end: after the client has gone the server goes round for
  ever. (To get there \<open>init_server\<close> has to be repaired: it gives \<open>iniciar_servidor\<close> an int for
  the text of the port.)
\<close>

theorem muse_server_misreads:
  assumes "2 \<le> length beyond" "itoa_decimal itoa"
  shows "\<exists>msg. muse_msg itoa beyond r = Ret msg \<and>
    muse_pass indet after \<lparr>inbuf = msg @ rest, broken = b, closed = False\<rparr> listening_chan =
      obind (unwritten_params indet after (params_of r)) (\<lambda>ns.
        Ret (ns, \<lparr>inbuf = drop 4 msg @ rest, broken = b, closed = False\<rparr>, listening_chan)) \<and>
    (indet = (\<lambda>_. 0) \<longrightarrow> params_of r \<noteq> [] \<longrightarrow>
      muse_pass indet after \<lparr>inbuf = msg @ rest, broken = b, closed = False\<rparr> listening_chan = Fault) \<and>
    muse_loop k indet after \<lparr>inbuf = [], broken = b, closed = False\<rparr> sv =
      Ret (\<lparr>inbuf = [], broken = b, closed = 0 < k\<rparr>, sv)"
proof -
  let ?x = "cut_params itoa beyond r"
  let ?cl = "\<lparr>inbuf = packet_bytes ?x @ rest, broken = b, closed = False\<rparr>"
  let ?rest = "le32 (of_nat (length (payload (snd ?x)))) @ payload (snd ?x) @ rest"
  have msg: "muse_msg itoa beyond r = Ret (packet_bytes ?x)" by (rule muse_msg_bytes [OF assms])
  have "recibir_operacion indet ?cl = (fst ?x, ?cl\<lparr>inbuf := drop 4 (packet_bytes ?x) @ rest\<rparr>)"
    using recibir_operacion_append [of ?cl "fst ?x" ?rest] by (simp add: packet_bytes_def)
  note pass = muse_pass_listening [OF this, of after]
  have "fst ?x = op_int (fst (muse_params itoa beyond r))"
    by (simp add: cut_params_def case_prod_beta)
  then have "(if fst ?x = op_int MUSE_ALLOC \<or> fst ?x = op_int MUSE_FREE then [0]
      else if fst ?x = op_int MUSE_GET \<or> fst ?x = op_int MUSE_CPY then [0, 1, 2] else []) = params_of r"
    by (cases r) simp_all
  with pass have run: "muse_pass indet after ?cl listening_chan =
      obind (unwritten_params indet after (params_of r)) (\<lambda>ns.
        Ret (ns, \<lparr>inbuf = drop 4 (packet_bytes ?x) @ rest, broken = b, closed = False\<rparr>, listening_chan))"
    by simp
  moreover have "indet = (\<lambda>_. 0) \<longrightarrow> params_of r \<noteq> [] \<longrightarrow> muse_pass indet after ?cl listening_chan = Fault"
    using run unwritten_zero [of "params_of r" after] by auto
  ultimately show ?thesis using msg client_gone_loop [of k indet after b False sv] by simp
qed

theorem muse_server_misreads_witness:
  "\<exists>msg. muse_msg dec_int [0, 0] (MAlloc 64) = Ret msg \<and>
    muse_pass (\<lambda>_. 0) [0] \<lparr>inbuf = msg @ [], broken = False, closed = False\<rparr> listening_chan = Fault"
  using muse_server_misreads [of "[0, 0]" dec_int "MAlloc 64" "\<lambda>_. 0" "[0]" "[]" False 0]
  by (auto simp: itoa_decimal_def)

end
