(* ===== verification/Spec2Isabelle.thy ===== *)
theory Spec2Isabelle
  imports SuseProps SuseLife SuseSafe SuseDestroy SuseShutdown SacProps SacRead MuseClock MuseServer
begin

text \<open>
  A verification of locomatch: three servers written in C for a course on operating systems, and
  the libraries through which programs use them.

  \<^bold>\<open>The program.\<close> SUSE schedules the threads of user programs. A program links the library
  hilolay (\<^verbatim>\<open>lib/hilolay\<close>), which sends one request per call over a connection;
  \<^verbatim>\<open>planificacion/suse\<close> keeps the threads of all programs, admits them up to a degree of
  multiprogramming (the long-term scheduler), answers which thread of a program runs next by the
  shortest estimated burst (one short-term scheduler per program), and provides semaphores and
  joins. SAC is a file system: FUSE calls the client \<^verbatim>\<open>fileSystem/sac/sac_cli\<close>, which sends texts to
  \<^verbatim>\<open>fileSystem/sac/sac_servidor\<close>, which keeps nodes, a bitmap and data in a disk file. MUSE is a
  memory manager (\<^verbatim>\<open>memoria/muse\<close>) with its client library \<^verbatim>\<open>lib/libMUSE\<close>. SUSE, hilolay and libMUSE
  share the packets of \<^verbatim>\<open>lib/sockets\<close>.

  \<^bold>\<open>Results of C functions.\<close> A function is a HOL function into \<open>outcome\<close> (theory \<open>Prelude\<close>): it
  returns, waits for ever or until another thread posts (\<open>Hang\<close>), does what C and the libraries do
  not define (\<open>Fault\<close>: a null pointer, a read outside a block, an index outside a list), or ends the
  process (\<open>Exit\<close>). State is passed explicitly. Integers have their C width: \<open>int\<close>, pointers and
  \<open>size_t\<close> are four bytes, the target the code is written for; \<open>float\<close> is binary32 with its rounding
  (theory \<open>CFloat\<close>). Threads, programs and semaphores are in heaps and shared by pointer.

  \<^bold>\<open>What the code calls and does not define\<close> is a parameter, and what is used of it a named
  hypothesis: the clock, failures of \<open>malloc\<close> and \<open>send\<close>, the bytes of uninitialised memory, and of
  so-commons the conversion of numbers (\<open>itoa_decimal\<close>), the order of the bits (\<open>bitarray_lsb\<close>), the
  splitting of texts (\<open>string_split E = tokens\<close>) and the configuration reader. Each property with
  such a hypothesis has a witness at a concrete instance. No property takes uninitialised memory to
  be zero: where the results differ, zero memory is a case of its own.

  \<^bold>\<open>Libraries.\<close>
  \<^item> \<open>Wire\<close>: \<^verbatim>\<open>lib/sockets/sockets.c\<close>: packets, buffers and operation codes, sent and received; packets
    arrive as they were sent, whatever follows them.
  \<^item> \<open>Protocol\<close>: the requests of \<^verbatim>\<open>lib/hilolay/hilolay_alumnos.c\<close> and their decoding in
    \<open>schedule_short_term\<close>. The locale \<open>framing\<close> (what is written first is read first, and the rest
    stays) gives whole sessions; it is interpreted for requests and, in \<open>MuseClient\<close>, for packets.
  \<^item> \<open>Sockets\<close>: the functions of \<^verbatim>\<open>lib/sockets/sockets.c\<close> that open connections, on what the system
    calls answer, \<open>hilolay_init\<close>, and the server thread of SUSE: which descriptors are open, and
    what becomes of a start that gets no address.
  \<^item> \<open>MuseClient\<close>: the calls of \<^verbatim>\<open>lib/libMUSE/libmuse.c\<close>, their packets and answers.

  \<^bold>\<open>SUSE\<close> (\<^verbatim>\<open>suse_scheduler.c\<close>, \<^verbatim>\<open>suse.c\<close>).
  \<^item> \<open>Burst\<close>: the times and estimates of a thread. \<open>SuseMetrics\<close>: the metrics log.
  \<^item> \<open>SuseState\<close>: the records of threads, programs, semaphores and of the process, the searches, and
    \<open>move_tcb_to\<close>, through which every thread changes its state. \<open>SuseSync\<close>: creation, admission,
    wake-ups, the choice of the next thread, semaphores, join, close, and the dispatch of a request.
  \<^item> \<open>SuseMove\<close>: the invariant of the lists (\<open>core_inv\<close>) and the abstract move \<open>moved\<close> that
    \<open>move_tcb_to\<close> implements. \<open>SuseWait\<close>: where blocked threads wait, the whole invariant
    \<open>full_inv\<close>, and \<open>evolves\<close>: what an operation of one program leaves alone. \<open>SuseOps\<close>, \<open>SuseNext\<close>
    and \<open>SuseJoin\<close>: every operation returns or waits as stated, keeps the invariant and evolves.
  \<^item> \<open>SuseSystem\<close>: the process as a transition system \<open>sys_step\<close> whose steps are whole passes of its
    threads, and reachability from \<open>init_suse\<close>. The locale \<open>program_handler\<close> is what the loop asks of
    a handler; it is interpreted for the scheduler, wait, signal, join, close and the wake-ups.
  \<^item> \<open>SuseProps\<close>, \<open>SuseLife\<close>, \<open>SuseSafe\<close>: what holds in every reachable state and over runs: the
    degree, the lists, the semaphores, the life of a thread, the order of admission, and that well
    placed requests never fault. \<open>SuseSession\<close>: the loop over the bytes of a connection is the loop
    over its requests; the queues of semaphores; joins that never end.
  \<^item> \<open>SuseShutdown\<close>: joining the threads at the end of the process, with \<open>clientes_mutex\<close> held: which
    states make the last pass of a scheduler wait for that mutex for ever.
  \<^item> \<open>SuseConfig\<close>: configuration, start, console and timer. \<open>SuseDestroy\<close>: the destructors, and which
    threads they free twice. \<open>SuseDemo\<close>: a concrete run for the witnesses.

  \<^bold>\<open>SAC\<close> (\<^verbatim>\<open>sac_servidor.c\<close>, \<^verbatim>\<open>parser.c\<close>, \<^verbatim>\<open>server.c\<close>, \<^verbatim>\<open>sac_cli.c\<close>).
  \<^item> \<open>SacDisk\<close>: the disk as bytes, nodes of 4096 bytes, the bitmap and formatting; \<open>SacFind\<close>: paths
    and the table of opened files; \<open>SacActions\<close>: the eight actions; \<open>SacServer\<close>: \<open>parse_input\<close> and the
    loop that serves a client; \<open>SacClient\<close>: the messages of the FUSE operations and what they make of
    the answers.
  \<^item> \<open>SacDiskLemmas\<close>, \<open>SacFindLemmas\<close>, \<open>SacText\<close>, \<open>SacAlloc\<close>: bytes and nodes, path lookup on a
    well-formed table, messages and their words, allocation. \<open>SacDemo\<close>: a disk for the witnesses.
  \<^item> \<open>SacProps\<close>: path lookup and creation. \<open>SacReplies\<close>: answers and what of them reaches the client.
    \<open>SacFiles\<close>: layout and contents. \<open>SacSession\<close>: what a session can change; the locale
    \<open>reading_action\<close> (a returning action keeps layout, table prefix, streams and every byte of the
    disk) is interpreted for all actions but write. \<open>SacRun\<close>: a session as the sequence of its
    actions, requests that do not fit the buffer, and the loop over the clients. \<open>SacRead\<close>: what
    of a file \<open>action_read\<close> gets to see, whatever the uninitialised memory holds.

  \<^bold>\<open>MUSE\<close> (\<^verbatim>\<open>segments.c\<close>). \<open>Muse\<close>: frames, segments, pages, the modified clock; \<open>MuseProps\<close> and
  \<open>MuseClock\<close>: the choice of the victim against its specification, and requests for pages.
  \<open>MuseServer\<close> (\<^verbatim>\<open>muse.c\<close>): configuration, memory and the loop over requests, as the text reads, on
  the messages of \<open>MuseClient\<close>, whatever the uninitialised memory holds. \<open>init_server\<close> gives
  \<open>iniciar_servidor\<close> a number for the text of the port, so the loop is reached only with that repaired.

  \<^bold>\<open>Loops and bounds.\<close> Loops over lists are structural recursion. \<open>schedule_next_for\<close> jumps back by
  \<open>goto\<close>; its fuel is the number of jumps and two passes are proved enough. The loop of
  \<open>wakeup_threads\<close> gets the length of its list plus one. \<open>suse_join\<close> gets the passes one looks at, and
  that no number of them ends a self-join is a theorem, not an assumption. The short-term loop and
  the loop over requests are compared at the same number of passes, and the console at the line
  that ends it plus two. The reads of
  the file server are a list, at whose end it waits; on a connection of packets nothing left means
  that the peer has closed it.
  Where the file server serves a failed \<open>accept\<close>, the number of reads looked at is arbitrary.

  \<^bold>\<open>Atomicity.\<close> A handler runs under \<open>state_list_mutex\<close> or on data only its thread uses, so a step is a
  whole pass. Where the code gives up what it has checked before it uses it - \<open>check_multiprog\<close> and
  the move behind it - the interleaving is modelled as such (\<open>SuseSession.admission_race_hangs\<close>). \<open>clientes_mutex\<close> is held
  across another thread's work in \<open>join_threads\<close> only, and written out there (\<open>SuseShutdown\<close>).

  \<^bold>\<open>Not modelled.\<close> Logs, opening files, threads and their creation: library calls only.
  \<open>destroy_lists\<close>: it hands a list to a library function whose callback removes from the same list,
  which so-commons does not document. What
  follows the \<open>fseek\<close> on a local struct in \<open>action_mknod\<close> and \<open>action_mkdir\<close>: that call is a fault, so
  the code behind it is not reached. \<open>searchPageFromFrame\<close> calls a function without its argument and
  does not compile, and the rest of \<^verbatim>\<open>segments.c\<close> is commented out; of \<^verbatim>\<open>muse.c\<close>, the thread that only
  collects connections in a list. \<^verbatim>\<open>fileSystem/fuse\<close> is an empty program. The
  set-up of FUSE in the \<open>main\<close> of the client is glue. The rounding of the numbers printed to the
  metrics log is left out.
\<close>

end
